(* ===== verification/Agrpc_Prelude.thy ===== *)
theory Agrpc_Prelude
  imports Main "HOL-Library.Multiset"
begin

text \<open>
  Shared vocabulary of the development: the faults a C++ call can end in, the result type that
  carries them, the locale of transition systems with an invariant that every concurrent
  component instantiates, and the generic lemmas on results, lists and multisets that the
  components share.
\<close>

named_theorems lib_simps \<open>laws of the called libraries, conditional on the contract predicate\<close>

section \<open>Results\<close>

text \<open>
  Every way a modelled call can fail to return normally: \<open>CheckFailed\<close> is a failing
  \<^verbatim>\<open>AGRPC_CHECK\<close> (a fatal log line, the process aborts); \<open>QueueMisuse\<close> a call on the
  completion queue outside its contract; \<open>BadObject\<close> the use of storage that holds no live
  operation, or the construction of an operation over a live one; \<open>DanglingCapture\<close> a lambda
  that reads a captured reference whose object is gone; \<open>Terminated\<close> an exception that
  leaves a \<^verbatim>\<open>noexcept\<close> function; \<open>Process_ended\<close> a continuation of the client's code that ends the
  process itself; \<open>Undefined_behaviour\<close> one that runs into behaviour that C++ leaves undefined.
\<close>

datatype fault = CheckFailed | QueueMisuse | BadObject | DanglingCapture | Terminated | Process_ended
  | Undefined_behaviour

type_synonym 'a res = "fault + 'a"

fun bind_res :: "'a res \<Rightarrow> ('a \<Rightarrow> 'b res) \<Rightarrow> 'b res" where
  "bind_res (Inl e) f = Inl e"
| "bind_res (Inr x) f = f x"

lemma bind_res_Inr_iff [simp]:
  "bind_res m f = Inr y \<longleftrightarrow> (\<exists>x. m = Inr x \<and> f x = Inr y)"
  by (cases m) auto

lemma bind_res_Inl_iff:
  "bind_res m f = Inl e \<longleftrightarrow> m = Inl e \<or> (\<exists>x. m = Inr x \<and> f x = Inl e)"
  by (cases m) auto

lemma bind_res_assoc: "bind_res (bind_res m f) g = bind_res m (\<lambda>x. bind_res (f x) g)"
  by (cases m) auto

section \<open>Transition systems and their invariants\<close>

text \<open>
  The interface of every concurrent component: an initial predicate, a step relation and an
  invariant that the initial states satisfy and every step keeps. What follows once and for
  all is that the invariant holds in every reachable state.
\<close>

locale transition_system =
  fixes start :: "'s \<Rightarrow> bool"
    and move :: "'s \<Rightarrow> 's \<Rightarrow> bool"
begin

definition reach :: "'s \<Rightarrow> bool" where
  "reach s \<longleftrightarrow> (\<exists>s0. start s0 \<and> move\<^sup>*\<^sup>* s0 s)"

lemma reach_start: "start s \<Longrightarrow> reach s"
  unfolding reach_def by blast

lemma reach_move: "reach s \<Longrightarrow> move s t \<Longrightarrow> reach t"
  unfolding reach_def by (meson rtranclp.rtrancl_into_rtrancl)

end

locale inductive_invariant = transition_system start move
  for start :: "'s \<Rightarrow> bool" and move :: "'s \<Rightarrow> 's \<Rightarrow> bool" +
  fixes holds :: "'s \<Rightarrow> bool"
  assumes holds_start: "start s \<Longrightarrow> holds s"
    and holds_move: "move s t \<Longrightarrow> holds s \<Longrightarrow> holds t"
begin

lemma holds_moves: "move\<^sup>*\<^sup>* s t \<Longrightarrow> holds s \<Longrightarrow> holds t"
  by (induction rule: rtranclp_induct) (auto intro: holds_move)

lemma holds_from_start: "start s \<Longrightarrow> move\<^sup>*\<^sup>* s t \<Longrightarrow> holds t"
  by (blast intro: holds_moves holds_start)

lemma holds_reach: "reach s \<Longrightarrow> holds s"
  unfolding reach_def by (blast intro: holds_from_start)

end

section \<open>Lists and multisets\<close>

text \<open>A multiset in which nothing occurs twice.\<close>

definition uniq :: "'a multiset \<Rightarrow> bool" where
  "uniq M \<longleftrightarrow> (\<forall>x. count M x \<le> 1)"

lemma uniq_empty [simp]: "uniq {#}"
  by (simp add: uniq_def)

lemma uniq_add_mset [simp]: "uniq (add_mset x M) \<longleftrightarrow> x \<notin># M \<and> uniq M"
proof
  assume U: "uniq (add_mset x M)"
  then have "Suc (count M x) \<le> 1" and "\<forall>y. count M y \<le> count (add_mset x M) y"
    by (auto simp: uniq_def dest: spec [of _ x])
  with U show "x \<notin># M \<and> uniq M"
    by (auto simp: uniq_def not_in_iff intro: order_trans)
next
  assume "x \<notin># M \<and> uniq M"
  then show "uniq (add_mset x M)"
    by (simp add: uniq_def not_in_iff)
qed

lemma uniq_subset: "uniq M \<Longrightarrow> N \<subseteq># M \<Longrightarrow> uniq N"
  unfolding uniq_def by (meson mset_subset_eq_count order_trans)

lemma uniq_mset_iff: "uniq (mset xs) \<longleftrightarrow> distinct xs"
  by (induction xs) auto

lemma uniq_union_disjoint: "uniq (M + N) \<Longrightarrow> x \<in># M \<Longrightarrow> x \<notin># N"
proof (rule notI)
  assume "uniq (M + N)" "x \<in># M" "x \<in># N"
  then have "0 < count M x" "0 < count N x" "count M x + count N x \<le> 1"
    by (simp_all add: uniq_def count_greater_zero_iff flip: count_union)
  then show False by linarith
qed

text \<open>The pointers among the tags of a completion queue; \<^verbatim>\<open>nullptr\<close> is \<open>None\<close>.\<close>

definition op_tags :: "'a option multiset \<Rightarrow> 'a multiset" where
  "op_tags T = image_mset the (filter_mset (\<lambda>x. x \<noteq> None) T)"

lemma op_tags_empty [simp]: "op_tags {#} = {#}"
  by (simp add: op_tags_def)

lemma op_tags_add_None [simp]: "op_tags (add_mset None T) = op_tags T"
  by (simp add: op_tags_def)

lemma op_tags_add_Some [simp]: "op_tags (add_mset (Some p) T) = add_mset p (op_tags T)"
  by (simp add: op_tags_def)

lemma op_tags_minus_None [simp]: "op_tags (T - {#None#}) = op_tags T"
  by (simp add: op_tags_def filter_diff_mset)

lemma in_op_tags_iff: "p \<in># op_tags T \<longleftrightarrow> Some p \<in># T"
  by (force simp: op_tags_def)

lemma op_tags_take: "Some p \<in># T \<Longrightarrow> op_tags T = add_mset p (op_tags (T - {#Some p#}))"
  by (metis insert_DiffM op_tags_add_Some)

section \<open>Decimal numbers\<close>

text \<open>A number as \<^verbatim>\<open>operator<<\<close> and the preprocessor write it, and reading it back.\<close>

fun decimal :: "nat \<Rightarrow> string" where
  "decimal n = (if n < 10 then [char_of (48 + n)] else decimal (n div 10) @ [char_of (48 + n mod 10)])"

declare decimal.simps [simp del]

definition is_digit :: "char \<Rightarrow> bool" where
  "is_digit c \<longleftrightarrow> 48 \<le> (of_char c :: nat) \<and> (of_char c :: nat) < 58"

definition number :: "string \<Rightarrow> nat" where
  "number = foldl (\<lambda>n c. 10 * n + (of_char c - 48)) 0"

lemma is_digit_char_of: "d < 10 \<Longrightarrow> is_digit (char_of (48 + d :: nat))"
  by (simp add: is_digit_def)

lemma decimal_digits: "list_all is_digit (decimal n)"
proof (induction n rule: decimal.induct)
  case (1 n)
  then show ?case by (subst decimal.simps) (simp add: is_digit_char_of)
qed

lemma decimal_not_Nil [simp]: "decimal n \<noteq> []"
  by (subst decimal.simps) simp

lemma number_decimal: "number (decimal n) = n"
proof (induction n rule: decimal.induct)
  case (1 n)
  then show ?case by (subst decimal.simps) (simp add: number_def)
qed

lemma decimal_eq_iff [simp]: "decimal m = decimal n \<longleftrightarrow> m = n"
  by (metis number_decimal)

end
