(* ===== verification/Rpcs.thy ===== *)
theory Rpcs
  imports Agrpc_Prelude
begin

text \<open>
  The customisation points of \<^verbatim>\<open>agrpc/context/rpcs.h\<close> and the \<^verbatim>\<open>tag_invoke\<close> overloads of
  \<^verbatim>\<open>agrpc/context/grpc_context.h\<close> that they dispatch to. A call site is a customisation point
  and the types of its arguments; C++ decides at compile time which overload it means. The
  model computes that decision: an argument carries its type, its constness and the object it
  names, an overload is a signature test and the sender it builds, and a call resolves when
  exactly one overload is viable. What a sender holds is the closure of its lambda, with the
  capture mode of every variable, so that running it after the call has returned can be told
  apart from running it inside.
\<close>

section \<open>Types and arguments\<close>

type_synonym ref = nat
type_synonym ctx_ref = nat
type_synonym op_ptr = nat

datatype ty =
    ServiceT nat
  | ServerContextT
  | MessageT nat
  | ServerAsyncReaderT nat nat
  | ServerAsyncReaderWriterT nat nat
  | ServerAsyncWriterT nat
  | ServerAsyncResponseWriterT nat
  | ClientAsyncResponseReaderT nat
  | StatusT
  | WriteOptionsT
  | ServerMultiArgRequestT nat nat ty
  | ServerSingleArgRequestT nat ty
  | ClientContextT
  | ClientUnaryRequestT nat nat ty
  | ClientServerStreamingRequestT nat nat ty
  | ClientSideStreamingRequestT nat ty nat
  | ClientBidirectionalStreamingRequestT nat ty

text \<open>
  \<open>ServerAsyncReaderT response request\<close> and its kin carry the message types of the class
  template; \<open>ServerMultiArgRequestT rpc request responder\<close> is the pointer to a member
  function of the service class \<open>rpc\<close>. The pointers to member functions of a client's stub are
  declared by \<^verbatim>\<open>rpcs.h\<close> as well.
\<close>

datatype arg = Arg (ty_of: ty) (is_const: bool) (obj: ref)

datatype cpo =
    AsyncRequest | AsyncRead | AsyncWrite | AsyncFinish
  | AsyncWriteAndFinish | AsyncFinishWithError | AsyncSendInitialMetadata

section \<open>Senders and the calls they make\<close>

datatype capture =
    ByRef ref           \<comment> \<open>reference to an object of the caller\<close>
  | ByCopy ref          \<comment> \<open>copied into the closure\<close>
  | ByRefToParam ref    \<comment> \<open>reference to a by-value parameter of \<^verbatim>\<open>tag_invoke\<close>\<close>

datatype rpc_method =
    Request_method | Read_method | Write_method | Finish_method
  | WriteAndFinish_method | FinishWithError_method | SendInitialMetadata_method

record sender =
  snd_method :: rpc_method
  snd_object :: capture
  snd_operands :: "capture list"
  snd_server_cq :: bool       \<comment> \<open>the lambda passes the context's server queue, twice\<close>

record grpc_call =
  call_method :: rpc_method
  call_object :: ref
  call_operands :: "ref list"
  call_queues :: "ctx_ref list"
  call_tag :: op_ptr

text \<open>
  Running a closure: a captured reference to a parameter of \<^verbatim>\<open>tag_invoke\<close> is read after that
  function and the customisation point around it have returned.
\<close>

fun read_capture :: "capture \<Rightarrow> ref res" where
  "read_capture (ByRef r) = Inr r"
| "read_capture (ByCopy r) = Inr r"
| "read_capture (ByRefToParam r) = Inl DanglingCapture"

fun read_captures :: "capture list \<Rightarrow> ref list res" where
  "read_captures [] = Inr []"
| "read_captures (c # cs) =
     bind_res (read_capture c) (\<lambda>r. bind_res (read_captures cs) (\<lambda>rs. Inr (r # rs)))"

definition run_sender :: "sender \<Rightarrow> ctx_ref \<Rightarrow> op_ptr \<Rightarrow> grpc_call res" where
  "run_sender s ctx tag =
     bind_res (read_capture (snd_object s)) (\<lambda>ob.
     bind_res (read_captures (snd_operands s)) (\<lambda>ops.
       Inr \<lparr>call_method = snd_method s, call_object = ob, call_operands = ops,
            call_queues = (if snd_server_cq s then [ctx, ctx] else []),
            call_tag = tag\<rparr>))"

section \<open>Signatures\<close>

text \<open>
  The parameter lists after the executor, shared by a customisation point's operator and the
  \<^verbatim>\<open>tag_invoke\<close> overload it means. A parameter \<^verbatim>\<open>T&\<close> binds a non-const object only: a const one
  makes template deduction disagree with the argument of a class template, or (for the service
  and the responder, deduced alone) makes the lambda's body call a non-const member function on
  a const object, which does not compile either. \<^verbatim>\<open>const T&\<close> and by-value parameters bind both.
  \<open>ServiceT c\<close> is a service class that derives from the class \<open>c\<close> whose member function is
  called.
\<close>

definition mutable :: "nat list \<Rightarrow> arg list \<Rightarrow> bool" where
  "mutable is args = list_all (\<lambda>i. \<not> is_const (args ! i)) is"

definition sig_multi_request :: "arg list \<Rightarrow> bool" where
  "sig_multi_request args =
     (case map ty_of args of
       ServerMultiArgRequestT c q r # ts \<Rightarrow> ts = [ServiceT c, ServerContextT, MessageT q, r] \<and> mutable [1, 2, 3, 4] args
     | _ \<Rightarrow> False)"

definition sig_single_request :: "arg list \<Rightarrow> bool" where
  "sig_single_request args =
     (case map ty_of args of
       ServerSingleArgRequestT c r # ts \<Rightarrow> ts = [ServiceT c, ServerContextT, r] \<and> mutable [1, 2, 3] args
     | _ \<Rightarrow> False)"

definition sig_reader_request :: "arg list \<Rightarrow> bool" where
  "sig_reader_request args =
     (case map ty_of args of
       ServerAsyncReaderT rs rq # ts \<Rightarrow> ts = [MessageT rq] \<and> mutable [0, 1] args
     | _ \<Rightarrow> False)"

definition sig_reader_writer_request :: "arg list \<Rightarrow> bool" where
  "sig_reader_writer_request args =
     (case map ty_of args of
       ServerAsyncReaderWriterT rs rq # ts \<Rightarrow> ts = [MessageT rq] \<and> mutable [0, 1] args
     | _ \<Rightarrow> False)"

definition sig_writer_response :: "arg list \<Rightarrow> bool" where
  "sig_writer_response args =
     (case map ty_of args of
       ServerAsyncWriterT rs # ts \<Rightarrow> ts = [MessageT rs] \<and> mutable [0] args
     | _ \<Rightarrow> False)"

definition sig_reader_writer_response :: "arg list \<Rightarrow> bool" where
  "sig_reader_writer_response args =
     (case map ty_of args of
       ServerAsyncReaderWriterT rs rq # ts \<Rightarrow> ts = [MessageT rs] \<and> mutable [0] args
     | _ \<Rightarrow> False)"

definition sig_response_writer_finish :: "arg list \<Rightarrow> bool" where
  "sig_response_writer_finish args =
     (case map ty_of args of
       ServerAsyncResponseWriterT rs # ts \<Rightarrow> ts = [MessageT rs, StatusT] \<and> mutable [0] args
     | _ \<Rightarrow> False)"

definition sig_writer_finish :: "arg list \<Rightarrow> bool" where
  "sig_writer_finish args =
     (case map ty_of args of
       ServerAsyncWriterT rs # ts \<Rightarrow> ts = [StatusT] \<and> mutable [0] args
     | _ \<Rightarrow> False)"

definition sig_reader_finish :: "arg list \<Rightarrow> bool" where
  "sig_reader_finish args =
     (case map ty_of args of
       ServerAsyncReaderT rs rq # ts \<Rightarrow> ts = [MessageT rs, StatusT] \<and> mutable [0] args
     | _ \<Rightarrow> False)"

definition sig_reader_writer_finish :: "arg list \<Rightarrow> bool" where
  "sig_reader_writer_finish args =
     (case map ty_of args of
       ServerAsyncReaderWriterT rs rq # ts \<Rightarrow> ts = [StatusT] \<and> mutable [0] args
     | _ \<Rightarrow> False)"

definition sig_client_finish :: "arg list \<Rightarrow> bool" where
  "sig_client_finish args =
     (case map ty_of args of
       ClientAsyncResponseReaderT rs # ts \<Rightarrow> ts = [MessageT rs, StatusT] \<and> mutable [0, 1, 2] args
     | _ \<Rightarrow> False)"

definition sig_writer_write_finish :: "arg list \<Rightarrow> bool" where
  "sig_writer_write_finish args =
     (case map ty_of args of
       ServerAsyncWriterT rs # ts \<Rightarrow> ts = [MessageT rs, WriteOptionsT, StatusT] \<and> mutable [0] args
     | _ \<Rightarrow> False)"

definition sig_reader_writer_write_finish :: "arg list \<Rightarrow> bool" where
  "sig_reader_writer_write_finish args =
     (case map ty_of args of
       ServerAsyncReaderWriterT rs rq # ts \<Rightarrow> ts = [MessageT rs, WriteOptionsT, StatusT] \<and> mutable [0] args
     | _ \<Rightarrow> False)"

definition sig_reader_error :: "arg list \<Rightarrow> bool" where
  "sig_reader_error args =
     (case map ty_of args of
       ServerAsyncReaderT rs rq # ts \<Rightarrow> ts = [StatusT] \<and> mutable [0] args
     | _ \<Rightarrow> False)"

definition sig_response_writer_error :: "arg list \<Rightarrow> bool" where
  "sig_response_writer_error args =
     (case map ty_of args of
       ServerAsyncResponseWriterT rs # ts \<Rightarrow> ts = [StatusT] \<and> mutable [] args
     | _ \<Rightarrow> False)"

definition sig_responder :: "arg list \<Rightarrow> bool" where
  "sig_responder args =
     (case map ty_of args of
       r # ts \<Rightarrow> ts = [] \<and> mutable [0] args
     | _ \<Rightarrow> False)"

section \<open>The \<^verbatim>\<open>tag_invoke\<close> overloads\<close>

text \<open>
  One definition per overload. All lambdas capture with \<^verbatim>\<open>[&]\<close>, so a reference parameter becomes
  a reference to the caller's object; the two \<^verbatim>\<open>AsyncRequest\<close> overloads also copy \<^verbatim>\<open>rpc\<close>. The
  by-value parameters \<^verbatim>\<open>options\<close> and (for \<^verbatim>\<open>ServerAsyncResponseWriter\<close>) \<^verbatim>\<open>writer\<close> are captured by
  reference too.
\<close>

definition overload :: "(arg list \<Rightarrow> bool) \<Rightarrow> (ref list \<Rightarrow> sender) \<Rightarrow> arg list \<Rightarrow> sender option" where
  "overload sig build args = (if sig args then Some (build (map obj args)) else None)"

definition invoke_request_multi :: "arg list \<Rightarrow> sender option" where
  "invoke_request_multi = overload sig_multi_request (\<lambda>xs.
     \<lparr>snd_method = Request_method, snd_object = ByRef (xs ! 1),
      snd_operands = [ByCopy (xs ! 0), ByRef (xs ! 2), ByRef (xs ! 3), ByRef (xs ! 4)], snd_server_cq = True\<rparr>)"

definition invoke_request_single :: "arg list \<Rightarrow> sender option" where
  "invoke_request_single = overload sig_single_request (\<lambda>xs.
     \<lparr>snd_method = Request_method, snd_object = ByRef (xs ! 1),
      snd_operands = [ByCopy (xs ! 0), ByRef (xs ! 2), ByRef (xs ! 3)], snd_server_cq = True\<rparr>)"

definition invoke_read_reader :: "arg list \<Rightarrow> sender option" where
  "invoke_read_reader = overload sig_reader_request (\<lambda>xs.
     \<lparr>snd_method = Read_method, snd_object = ByRef (xs ! 0),
      snd_operands = [ByRef (xs ! 1)], snd_server_cq = False\<rparr>)"

definition invoke_read_reader_writer :: "arg list \<Rightarrow> sender option" where
  "invoke_read_reader_writer = overload sig_reader_writer_request (\<lambda>xs.
     \<lparr>snd_method = Read_method, snd_object = ByRef (xs ! 0),
      snd_operands = [ByRef (xs ! 1)], snd_server_cq = False\<rparr>)"

definition invoke_write_writer :: "arg list \<Rightarrow> sender option" where
  "invoke_write_writer = overload sig_writer_response (\<lambda>xs.
     \<lparr>snd_method = Write_method, snd_object = ByRef (xs ! 0),
      snd_operands = [ByRef (xs ! 1)], snd_server_cq = False\<rparr>)"

definition invoke_write_reader_writer :: "arg list \<Rightarrow> sender option" where
  "invoke_write_reader_writer = overload sig_reader_writer_response (\<lambda>xs.
     \<lparr>snd_method = Write_method, snd_object = ByRef (xs ! 0),
      snd_operands = [ByRef (xs ! 1)], snd_server_cq = False\<rparr>)"

definition invoke_finish_response_writer :: "arg list \<Rightarrow> sender option" where
  "invoke_finish_response_writer = overload sig_response_writer_finish (\<lambda>xs.
     \<lparr>snd_method = Finish_method, snd_object = ByRef (xs ! 0),
      snd_operands = [ByRef (xs ! 1), ByRef (xs ! 2)], snd_server_cq = False\<rparr>)"

definition invoke_finish_writer :: "arg list \<Rightarrow> sender option" where
  "invoke_finish_writer = overload sig_writer_finish (\<lambda>xs.
     \<lparr>snd_method = Finish_method, snd_object = ByRef (xs ! 0),
      snd_operands = [ByRef (xs ! 1)], snd_server_cq = False\<rparr>)"

definition invoke_finish_reader :: "arg list \<Rightarrow> sender option" where
  "invoke_finish_reader = overload sig_reader_finish (\<lambda>xs.
     \<lparr>snd_method = Finish_method, snd_object = ByRef (xs ! 0),
      snd_operands = [ByRef (xs ! 1), ByRef (xs ! 2)], snd_server_cq = False\<rparr>)"

definition invoke_finish_reader_writer :: "arg list \<Rightarrow> sender option" where
  "invoke_finish_reader_writer = overload sig_reader_writer_finish (\<lambda>xs.
     \<lparr>snd_method = Finish_method, snd_object = ByRef (xs ! 0),
      snd_operands = [ByRef (xs ! 1)], snd_server_cq = False\<rparr>)"

definition invoke_finish_client :: "arg list \<Rightarrow> sender option" where
  "invoke_finish_client = overload sig_client_finish (\<lambda>xs.
     \<lparr>snd_method = Finish_method, snd_object = ByRef (xs ! 0),
      snd_operands = [ByRef (xs ! 1), ByRef (xs ! 2)], snd_server_cq = False\<rparr>)"

definition invoke_write_finish_writer :: "arg list \<Rightarrow> sender option" where
  "invoke_write_finish_writer = overload sig_writer_write_finish (\<lambda>xs.
     \<lparr>snd_method = WriteAndFinish_method, snd_object = ByRef (xs ! 0),
      snd_operands = [ByRef (xs ! 1), ByRefToParam (xs ! 2), ByRef (xs ! 3)], snd_server_cq = False\<rparr>)"

definition invoke_write_finish_reader_writer :: "arg list \<Rightarrow> sender option" where
  "invoke_write_finish_reader_writer = overload sig_reader_writer_write_finish (\<lambda>xs.
     \<lparr>snd_method = WriteAndFinish_method, snd_object = ByRef (xs ! 0),
      snd_operands = [ByRef (xs ! 1), ByRefToParam (xs ! 2), ByRef (xs ! 3)], snd_server_cq = False\<rparr>)"

definition invoke_error_reader :: "arg list \<Rightarrow> sender option" where
  "invoke_error_reader = overload sig_reader_error (\<lambda>xs.
     \<lparr>snd_method = FinishWithError_method, snd_object = ByRef (xs ! 0),
      snd_operands = [ByRef (xs ! 1)], snd_server_cq = False\<rparr>)"

definition invoke_error_response_writer :: "arg list \<Rightarrow> sender option" where
  "invoke_error_response_writer = overload sig_response_writer_error (\<lambda>xs.
     \<lparr>snd_method = FinishWithError_method, snd_object = ByRefToParam (xs ! 0),
      snd_operands = [ByRef (xs ! 1)], snd_server_cq = False\<rparr>)"

definition invoke_send_initial_metadata :: "arg list \<Rightarrow> sender option" where
  "invoke_send_initial_metadata = overload sig_responder (\<lambda>xs.
     \<lparr>snd_method = SendInitialMetadata_method, snd_object = ByRef (xs ! 0),
      snd_operands = [], snd_server_cq = False\<rparr>)"

text \<open>
  Overload resolution among the candidates: the one viable overload, none when nothing is
  viable or when several are.
\<close>

fun viable :: "(arg list \<Rightarrow> sender option) list \<Rightarrow> arg list \<Rightarrow> sender list" where
  "viable [] args = []"
| "viable (f # fs) args =
     (case f args of None \<Rightarrow> viable fs args | Some s \<Rightarrow> s # viable fs args)"

definition resolve :: "(arg list \<Rightarrow> sender option) list \<Rightarrow> arg list \<Rightarrow> sender option" where
  "resolve fs args = (case viable fs args of [s] \<Rightarrow> Some s | _ \<Rightarrow> None)"

fun tag_overloads :: "cpo \<Rightarrow> (arg list \<Rightarrow> sender option) list" where
  "tag_overloads AsyncRequest = [invoke_request_multi, invoke_request_single]"
| "tag_overloads AsyncRead = [invoke_read_reader, invoke_read_reader_writer]"
| "tag_overloads AsyncWrite = [invoke_write_writer, invoke_write_reader_writer]"
| "tag_overloads AsyncFinish =
     [invoke_finish_response_writer, invoke_finish_writer, invoke_finish_reader,
      invoke_finish_reader_writer, invoke_finish_client]"
| "tag_overloads AsyncWriteAndFinish =
     [invoke_write_finish_writer, invoke_write_finish_reader_writer]"
| "tag_overloads AsyncFinishWithError = [invoke_error_reader, invoke_error_response_writer]"
| "tag_overloads AsyncSendInitialMetadata = [invoke_send_initial_metadata]"

definition tag_invoke :: "cpo \<Rightarrow> arg list \<Rightarrow> sender option" where
  "tag_invoke c = resolve (tag_overloads c)"

section \<open>The customisation points\<close>

text \<open>
  An operator of a customisation point is viable when its parameters bind and its trailing
  return type \<^verbatim>\<open>tag_invoke_result_t<CPO, ...>\<close> names a call that resolves; it then forwards to
  \<^verbatim>\<open>tag_invoke\<close> with its own tag. \<open>result_cpo\<close> is the tag that the return type names, which is
  not always the operator's own. (The \<^verbatim>\<open>noexcept\<close> operands never influence resolution.)
\<close>

definition operator :: "(arg list \<Rightarrow> bool) \<Rightarrow> cpo \<Rightarrow> cpo \<Rightarrow> arg list \<Rightarrow> sender option" where
  "operator sig self result_cpo args =
     (if sig args \<and> tag_invoke result_cpo args \<noteq> None then tag_invoke self args else None)"

definition AsyncRequestCPO :: "(arg list \<Rightarrow> sender option) list" where
  "AsyncRequestCPO =
     [operator sig_multi_request AsyncRequest AsyncRequest,
      operator sig_single_request AsyncRequest AsyncRequest]"

definition AsyncReadCPO :: "(arg list \<Rightarrow> sender option) list" where
  "AsyncReadCPO =
     [operator sig_reader_request AsyncRead AsyncRead,
      operator sig_reader_writer_request AsyncRead AsyncRead]"

definition AsyncWriteCPO :: "(arg list \<Rightarrow> sender option) list" where
  "AsyncWriteCPO =
     [operator sig_writer_response AsyncWrite AsyncWrite,
      operator sig_reader_writer_response AsyncWrite AsyncWrite]"

definition AsyncFinishCPO :: "(arg list \<Rightarrow> sender option) list" where
  "AsyncFinishCPO =
     [operator sig_response_writer_finish AsyncFinish AsyncFinish,
      operator sig_writer_finish AsyncFinish AsyncFinish,
      operator sig_reader_finish AsyncFinish AsyncFinish,
      operator sig_reader_writer_finish AsyncFinish AsyncFinish,
      operator sig_client_finish AsyncFinish AsyncFinish]"

definition AsyncWriteAndFinishCPO :: "(arg list \<Rightarrow> sender option) list" where
  "AsyncWriteAndFinishCPO =
     [operator sig_writer_write_finish AsyncWriteAndFinish AsyncWriteAndFinish,
      operator sig_reader_writer_write_finish AsyncWriteAndFinish AsyncWriteAndFinish]"

definition AsyncFinishWithErrorCPO :: "(arg list \<Rightarrow> sender option) list" where
  "AsyncFinishWithErrorCPO =
     [operator sig_reader_error AsyncFinishWithError AsyncFinish,
      operator sig_response_writer_error AsyncFinishWithError AsyncFinishWithError]"

definition AsyncSendInitialMetadataCPO :: "(arg list \<Rightarrow> sender option) list" where
  "AsyncSendInitialMetadataCPO =
     [operator sig_responder AsyncSendInitialMetadata AsyncFinishWithError]"

fun operators :: "cpo \<Rightarrow> (arg list \<Rightarrow> sender option) list" where
  "operators AsyncRequest = AsyncRequestCPO"
| "operators AsyncRead = AsyncReadCPO"
| "operators AsyncWrite = AsyncWriteCPO"
| "operators AsyncFinish = AsyncFinishCPO"
| "operators AsyncWriteAndFinish = AsyncWriteAndFinishCPO"
| "operators AsyncFinishWithError = AsyncFinishWithErrorCPO"
| "operators AsyncSendInitialMetadata = AsyncSendInitialMetadataCPO"

definition cpo_call :: "cpo \<Rightarrow> arg list \<Rightarrow> sender option" where
  "cpo_call c = resolve (operators c)"

section \<open>What the signatures accept\<close>

named_theorems sig_shape \<open>the argument lists that a signature binds\<close>

lemma sig_multi_request_iff [sig_shape]:
  "sig_multi_request args \<longleftrightarrow>
     (\<exists>c q r. map ty_of args = (ServerMultiArgRequestT c q r) # [ServiceT c, ServerContextT, MessageT q, r]) \<and> mutable [1, 2, 3, 4] args"
  by (cases "map ty_of args") (auto simp: sig_multi_request_def split: ty.splits)

lemma sig_single_request_iff [sig_shape]:
  "sig_single_request args \<longleftrightarrow>
     (\<exists>c r. map ty_of args = (ServerSingleArgRequestT c r) # [ServiceT c, ServerContextT, r]) \<and> mutable [1, 2, 3] args"
  by (cases "map ty_of args") (auto simp: sig_single_request_def split: ty.splits)

lemma sig_reader_request_iff [sig_shape]:
  "sig_reader_request args \<longleftrightarrow>
     (\<exists>rs rq. map ty_of args = (ServerAsyncReaderT rs rq) # [MessageT rq]) \<and> mutable [0, 1] args"
  by (cases "map ty_of args") (auto simp: sig_reader_request_def split: ty.splits)

lemma sig_reader_writer_request_iff [sig_shape]:
  "sig_reader_writer_request args \<longleftrightarrow>
     (\<exists>rs rq. map ty_of args = (ServerAsyncReaderWriterT rs rq) # [MessageT rq]) \<and> mutable [0, 1] args"
  by (cases "map ty_of args") (auto simp: sig_reader_writer_request_def split: ty.splits)

lemma sig_writer_response_iff [sig_shape]:
  "sig_writer_response args \<longleftrightarrow>
     (\<exists>rs. map ty_of args = (ServerAsyncWriterT rs) # [MessageT rs]) \<and> mutable [0] args"
  by (cases "map ty_of args") (auto simp: sig_writer_response_def split: ty.splits)

lemma sig_reader_writer_response_iff [sig_shape]:
  "sig_reader_writer_response args \<longleftrightarrow>
     (\<exists>rs rq. map ty_of args = (ServerAsyncReaderWriterT rs rq) # [MessageT rs]) \<and> mutable [0] args"
  by (cases "map ty_of args") (auto simp: sig_reader_writer_response_def split: ty.splits)

lemma sig_response_writer_finish_iff [sig_shape]:
  "sig_response_writer_finish args \<longleftrightarrow>
     (\<exists>rs. map ty_of args = (ServerAsyncResponseWriterT rs) # [MessageT rs, StatusT]) \<and> mutable [0] args"
  by (cases "map ty_of args") (auto simp: sig_response_writer_finish_def split: ty.splits)

lemma sig_writer_finish_iff [sig_shape]:
  "sig_writer_finish args \<longleftrightarrow>
     (\<exists>rs. map ty_of args = (ServerAsyncWriterT rs) # [StatusT]) \<and> mutable [0] args"
  by (cases "map ty_of args") (auto simp: sig_writer_finish_def split: ty.splits)

lemma sig_reader_finish_iff [sig_shape]:
  "sig_reader_finish args \<longleftrightarrow>
     (\<exists>rs rq. map ty_of args = (ServerAsyncReaderT rs rq) # [MessageT rs, StatusT]) \<and> mutable [0] args"
  by (cases "map ty_of args") (auto simp: sig_reader_finish_def split: ty.splits)

lemma sig_reader_writer_finish_iff [sig_shape]:
  "sig_reader_writer_finish args \<longleftrightarrow>
     (\<exists>rs rq. map ty_of args = (ServerAsyncReaderWriterT rs rq) # [StatusT]) \<and> mutable [0] args"
  by (cases "map ty_of args") (auto simp: sig_reader_writer_finish_def split: ty.splits)

lemma sig_client_finish_iff [sig_shape]:
  "sig_client_finish args \<longleftrightarrow>
     (\<exists>rs. map ty_of args = (ClientAsyncResponseReaderT rs) # [MessageT rs, StatusT]) \<and> mutable [0, 1, 2] args"
  by (cases "map ty_of args") (auto simp: sig_client_finish_def split: ty.splits)

lemma sig_writer_write_finish_iff [sig_shape]:
  "sig_writer_write_finish args \<longleftrightarrow>
     (\<exists>rs. map ty_of args = (ServerAsyncWriterT rs) # [MessageT rs, WriteOptionsT, StatusT]) \<and> mutable [0] args"
  by (cases "map ty_of args") (auto simp: sig_writer_write_finish_def split: ty.splits)

lemma sig_reader_writer_write_finish_iff [sig_shape]:
  "sig_reader_writer_write_finish args \<longleftrightarrow>
     (\<exists>rs rq. map ty_of args = (ServerAsyncReaderWriterT rs rq) # [MessageT rs, WriteOptionsT, StatusT]) \<and> mutable [0] args"
  by (cases "map ty_of args") (auto simp: sig_reader_writer_write_finish_def split: ty.splits)

lemma sig_reader_error_iff [sig_shape]:
  "sig_reader_error args \<longleftrightarrow>
     (\<exists>rs rq. map ty_of args = (ServerAsyncReaderT rs rq) # [StatusT]) \<and> mutable [0] args"
  by (cases "map ty_of args") (auto simp: sig_reader_error_def split: ty.splits)

lemma sig_response_writer_error_iff [sig_shape]:
  "sig_response_writer_error args \<longleftrightarrow>
     (\<exists>rs. map ty_of args = (ServerAsyncResponseWriterT rs) # [StatusT]) \<and> mutable [] args"
  by (cases "map ty_of args") (auto simp: sig_response_writer_error_def split: ty.splits)

lemma sig_responder_iff [sig_shape]:
  "sig_responder args \<longleftrightarrow>
     (\<exists>r. map ty_of args = (r) # []) \<and> mutable [0] args"
  by (cases "map ty_of args") (auto simp: sig_responder_def split: ty.splits)

section \<open>Resolution\<close>

lemmas invoke_defs =
  invoke_request_multi_def invoke_request_single_def invoke_read_reader_def
  invoke_read_reader_writer_def invoke_write_writer_def invoke_write_reader_writer_def
  invoke_finish_response_writer_def invoke_finish_writer_def invoke_finish_reader_def
  invoke_finish_reader_writer_def invoke_finish_client_def invoke_write_finish_writer_def
  invoke_write_finish_reader_writer_def invoke_error_reader_def invoke_error_response_writer_def
  invoke_send_initial_metadata_def

lemmas cpo_defs =
  AsyncRequestCPO_def AsyncReadCPO_def AsyncWriteCPO_def AsyncFinishCPO_def
  AsyncWriteAndFinishCPO_def AsyncFinishWithErrorCPO_def AsyncSendInitialMetadataCPO_def

text \<open>The overloads of one tag exclude each other, so at most one is viable.\<close>

lemma tag_overloads_exclusive: "length (viable (tag_overloads c) args) \<le> 1"
  by (cases c) (auto simp: invoke_defs overload_def sig_shape)

lemma operators_exclusive: "length (viable (operators c) args) \<le> 1"
  by (cases c) (auto simp: cpo_defs operator_def sig_shape split: option.split)

lemma viable_iff: "s \<in> set (viable fs args) \<longleftrightarrow> (\<exists>f \<in> set fs. f args = Some s)"
  by (induction fs) (auto split: option.split)

lemma resolve_Some_iff:
  assumes "length (viable fs args) \<le> 1"
  shows "resolve fs args = Some s \<longleftrightarrow> (\<exists>f \<in> set fs. f args = Some s)"
proof -
  have "resolve fs args = Some s \<longleftrightarrow> s \<in> set (viable fs args)"
    using assms by (cases "viable fs args") (auto simp: resolve_def split: list.split)
  then show ?thesis by (simp add: viable_iff)
qed

lemmas tag_invoke_Some_iff = resolve_Some_iff [OF tag_overloads_exclusive, folded tag_invoke_def]
lemmas cpo_call_Some_iff = resolve_Some_iff [OF operators_exclusive, folded cpo_call_def]

lemma operator_Some_iff:
  "operator sig self r args = Some s \<longleftrightarrow> sig args \<and> (\<exists>s'. tag_invoke r args = Some s') \<and> tag_invoke self args = Some s"
  by (auto simp: operator_def)

lemma cpo_call_sound: "cpo_call c args = Some s \<Longrightarrow> tag_invoke c args = Some s"
  by (cases c) (auto simp: cpo_call_Some_iff cpo_defs operator_Some_iff)

lemma tag_invoke_sig:
  "tag_invoke c args = Some s \<Longrightarrow> \<exists>f \<in> set (tag_overloads c). f args = Some s"
  by (simp add: tag_invoke_Some_iff)

section \<open>What the customisation points promise\<close>

text \<open>
  C29. Apart from \<^verbatim>\<open>AsyncFinishWithError\<close> and \<^verbatim>\<open>AsyncSendInitialMetadata\<close>, calling a customisation
  point means exactly calling its \<^verbatim>\<open>tag_invoke\<close> overload: the same argument lists are accepted, and
  the sender is the same.
\<close>
theorem cpo_call_is_tag_invoke:
  assumes "c \<noteq> AsyncFinishWithError" and "c \<noteq> AsyncSendInitialMetadata"
  shows "cpo_call c args = tag_invoke c args"
proof -
  have "tag_invoke c args = Some s \<Longrightarrow> cpo_call c args = Some s" for s
    using assms
    by (cases c)
      (auto simp: cpo_call_Some_iff cpo_defs operator_Some_iff tag_invoke_Some_iff
        invoke_defs overload_def split: if_split_asm)
  then show ?thesis
    using cpo_call_sound by (metis not_Some_eq)
qed

definition read_args :: "arg list" where
  "read_args = [Arg (ServerAsyncReaderT 1 2) False 10, Arg (MessageT 2) False 11]"

theorem cpo_call_is_tag_invoke_witness:
  "cpo_call AsyncRead read_args = tag_invoke AsyncRead read_args \<and> tag_invoke AsyncRead read_args \<noteq> None"
proof -
  have "tag_invoke AsyncRead read_args \<noteq> None" by code_simp
  then show ?thesis using cpo_call_is_tag_invoke [of AsyncRead read_args] by simp
qed

text \<open>
  \<^verbatim>\<open>AsyncFinishWithError\<close> on a \<^verbatim>\<open>ServerAsyncReader\<close> never compiles: the operator's return
  type asks for \<^verbatim>\<open>tag_invoke(AsyncFinish, reader, status)\<close>, which does not exist, so the call
  resolves for a \<^verbatim>\<open>ServerAsyncResponseWriter\<close> only, although \<^verbatim>\<open>tag_invoke\<close> accepts both.
\<close>
theorem finish_with_error_calls:
  "(cpo_call AsyncFinishWithError args \<noteq> None \<longleftrightarrow> sig_response_writer_error args) \<and>
   (tag_invoke AsyncFinishWithError args \<noteq> None \<longleftrightarrow>
      sig_response_writer_error args \<or> sig_reader_error args)"
  by (auto simp: cpo_call_Some_iff tag_invoke_Some_iff cpo_defs operator_Some_iff invoke_defs
      overload_def sig_shape simp flip: not_None_eq split: if_split_asm)

text \<open>
  \<^verbatim>\<open>AsyncSendInitialMetadata\<close> never compiles either, for any responder: its return type
  names a call of \<^verbatim>\<open>AsyncFinishWithError\<close> with the responder alone. The overload it should
  forward to accepts every non-const responder.
\<close>
theorem send_initial_metadata_never_resolves:
  "cpo_call AsyncSendInitialMetadata args = None \<and>
   (tag_invoke AsyncSendInitialMetadata args \<noteq> None \<longleftrightarrow> sig_responder args)"
proof
  have "cpo_call AsyncSendInitialMetadata args \<noteq> Some s" for s
    by (auto simp: cpo_call_Some_iff tag_invoke_Some_iff cpo_defs operator_Some_iff invoke_defs
        overload_def sig_shape split: if_split_asm)
  then show "cpo_call AsyncSendInitialMetadata args = None" by (meson not_Some_eq)
qed (auto simp: tag_invoke_Some_iff invoke_defs overload_def simp flip: not_None_eq
    split: if_split_asm)

section \<open>Running a sender\<close>

fun method_of :: "cpo \<Rightarrow> rpc_method" where
  "method_of AsyncRequest = Request_method"
| "method_of AsyncRead = Read_method"
| "method_of AsyncWrite = Write_method"
| "method_of AsyncFinish = Finish_method"
| "method_of AsyncWriteAndFinish = WriteAndFinish_method"
| "method_of AsyncFinishWithError = FinishWithError_method"
| "method_of AsyncSendInitialMetadata = SendInitialMetadata_method"

text \<open>The object the method is called on: the service for a request, else the first argument.\<close>

definition target_index :: "cpo \<Rightarrow> nat" where
  "target_index c = (if c = AsyncRequest then 1 else 0)"

definition expected_call :: "cpo \<Rightarrow> arg list \<Rightarrow> ctx_ref \<Rightarrow> op_ptr \<Rightarrow> grpc_call" where
  "expected_call c args ctx tag =
     \<lparr>call_method = method_of c,
      call_object = obj (args ! target_index c),
      call_operands = map obj (take (target_index c) args @ drop (Suc (target_index c)) args),
      call_queues = (if c = AsyncRequest then [ctx, ctx] else []),
      call_tag = tag\<rparr>"

lemma map_eq_ConsD: "map f xs = y # ys \<Longrightarrow> \<exists>x xs'. xs = x # xs' \<and> f x = y \<and> map f xs' = ys"
  by (cases xs) auto

lemma run_resolved:
  assumes "tag_invoke c args = Some s"
  shows "run_sender s ctx tag =
    (if c = AsyncWriteAndFinish \<or> c = AsyncFinishWithError \<and> sig_response_writer_error args
     then Inl DanglingCapture else Inr (expected_call c args ctx tag))"
  using assms
  by (cases c)
    (auto simp: tag_invoke_Some_iff invoke_defs overload_def sig_shape run_sender_def
      expected_call_def target_index_def numeral_eq_Suc split: if_split_asm dest!: map_eq_ConsD)

text \<open>
  C28. The call that a customisation point's sender makes: unless a capture dangles, running the
  sender calls the method the point names, on the responder, reader, writer or service of the
  argument list, with the other arguments in order, the context's server queue as both queues
  of a request, and the operation as the tag.
\<close>
theorem sender_makes_expected_call:
  assumes "cpo_call c args = Some s" and "run_sender s ctx tag = Inr call"
  shows "call = expected_call c args ctx tag"
  using run_resolved [OF cpo_call_sound [OF assms(1)], of ctx tag] assms(2)
  by (simp split: if_split_asm)

theorem sender_makes_expected_call_witness:
  "\<exists>s call. cpo_call AsyncRead read_args = Some s \<and> run_sender s 7 99 = Inr call \<and>
     call = expected_call AsyncRead read_args 7 99 \<and> call_object call = 10 \<and>
     call_operands call = [11] \<and> call_tag call = 99"
proof -
  let ?s = "\<lparr>snd_method = Read_method, snd_object = ByRef 10, snd_operands = [ByRef 11],
    snd_server_cq = False\<rparr>"
  let ?call = "\<lparr>call_method = Read_method, call_object = 10, call_operands = [11],
    call_queues = [], call_tag = 99\<rparr>"
  have r: "cpo_call AsyncRead read_args = Some ?s" by code_simp
  have c: "run_sender ?s 7 99 = Inr ?call" by code_simp
  from sender_makes_expected_call [OF r c] r c show ?thesis
    by (auto simp: expected_call_def target_index_def read_args_def)
qed

text \<open>
  C31. Which senders read a dead parameter: running the sender of a call that compiles reads a
  by-value parameter captured by reference exactly for \<^verbatim>\<open>AsyncWriteAndFinish\<close> (its
  \<^verbatim>\<open>options\<close>) and \<^verbatim>\<open>AsyncFinishWithError\<close> (its \<^verbatim>\<open>writer\<close>), and never for the others.
\<close>
theorem dangling_captures:
  assumes "cpo_call c args = Some s"
  shows "run_sender s ctx tag = Inl DanglingCapture \<longleftrightarrow>
    c = AsyncWriteAndFinish \<or> c = AsyncFinishWithError"
proof (cases "c = AsyncFinishWithError")
  case True
  then have "sig_response_writer_error args"
    using assms by (auto simp: cpo_call_Some_iff cpo_defs operator_Some_iff tag_invoke_Some_iff
        invoke_defs overload_def sig_shape split: if_split_asm)
  with True show ?thesis using run_resolved [OF cpo_call_sound [OF assms]] by simp
next
  case False
  then show ?thesis using run_resolved [OF cpo_call_sound [OF assms]] by simp
qed

theorem dangling_captures_witness:
  "\<exists>s. cpo_call AsyncWriteAndFinish
        [Arg (ServerAsyncWriterT 1) False 10, Arg (MessageT 1) True 11, Arg WriteOptionsT False 12,
         Arg StatusT True 13] = Some s \<and>
     run_sender s 7 99 = Inl DanglingCapture"
proof -
  let ?args = "[Arg (ServerAsyncWriterT 1) False 10, Arg (MessageT 1) True 11,
    Arg WriteOptionsT False 12, Arg StatusT True 13]"
  let ?s = "\<lparr>snd_method = WriteAndFinish_method, snd_object = ByRef 10,
    snd_operands = [ByRef 11, ByRefToParam 12, ByRef 13], snd_server_cq = False\<rparr>"
  have r: "cpo_call AsyncWriteAndFinish ?args = Some ?s" by code_simp
  from r dangling_captures [OF r, of 7 99] show ?thesis by auto
qed

end
