(* ===== verification/Externals.thy ===== *)
theory Externals
  imports Rpcs
begin

text \<open>
  The code the context calls and that is not in the repository, as parameters: libunifex's
  \<^verbatim>\<open>intrusive_queue\<close> (type \<open>'q\<close>) and \<^verbatim>\<open>atomic_intrusive_queue\<close> (\<open>'rq\<close>), gRPC's
  \<^verbatim>\<open>CompletionQueue\<close> with the \<^verbatim>\<open>Alarm\<close> and the RPCs bound to it (\<open>'cq\<close>), and the receivers
  (\<open>'r\<close>) of the client code, whose own state is \<open>'u\<close>. The record \<open>ext\<close> holds the
  operations the sources call; \<open>iq_items\<close>, \<open>aiq_view\<close>, \<open>cq_tags\<close> and \<open>cq_down\<close> are
  observers that exist for the laws only. \<open>ext_ok\<close> states what the libraries document and
  the context relies on. Nothing is assumed of the receivers.
\<close>

section \<open>Operations\<close>

datatype next_result = Event "op_ptr option" bool | Drained

text \<open>
  What a resumed continuation does to the context: connect and start another RPC in the
  storage it names, ask the stop source to stop, call \<^verbatim>\<open>ShutDown\<close>, end the process (by a
  check of its own that fails), or run into undefined behaviour of its own.
\<close>

datatype 'r action = Await op_ptr sender 'r | RequestStop | ShutDown_queue | Abort | Run_undefined

datatype queue_view = Inactive | Active "op_ptr list"

record ('q, 'rq, 'cq, 'r, 'u) ext =
  iq_init :: 'q
  iq_is_empty :: "'q \<Rightarrow> bool"
  iq_push_back :: "'q \<Rightarrow> op_ptr \<Rightarrow> 'q"
  iq_append :: "'q \<Rightarrow> 'q \<Rightarrow> 'q"
  iq_pop_front :: "'q \<Rightarrow> op_ptr \<times> 'q"
  iq_moved_from :: "'q \<Rightarrow> 'q"
  iq_items :: "'q \<Rightarrow> op_ptr list"
  aiq_init :: "bool \<Rightarrow> 'rq"
  aiq_enqueue :: "'rq \<Rightarrow> op_ptr \<Rightarrow> bool \<times> 'rq"
  aiq_try_mark_inactive_or_dequeue_all :: "'rq \<Rightarrow> 'q \<times> 'rq"
  aiq_view :: "'rq \<Rightarrow> queue_view"
  cq_next :: "'cq \<Rightarrow> (next_result \<times> 'cq) option"
  cq_alarm_set :: "'cq \<Rightarrow> op_ptr option \<Rightarrow> 'cq option"
  cq_start_call :: "'cq \<Rightarrow> grpc_call \<Rightarrow> 'cq option"
  cq_shutdown :: "'cq \<Rightarrow> 'cq"
  cq_progress :: "'cq \<Rightarrow> 'cq \<Rightarrow> bool"
  cq_tags :: "'cq \<Rightarrow> op_ptr option multiset"
  cq_down :: "'cq \<Rightarrow> bool"
  rcv_noexcept :: "'r \<Rightarrow> bool"
  rcv_set_value :: "'r \<Rightarrow> bool \<Rightarrow> 'u \<Rightarrow> 'r action list \<times> bool \<times> 'u"
  rcv_set_error :: "'r \<Rightarrow> 'u \<Rightarrow> 'r action list \<times> 'u"

text \<open>
  \<open>cq_next\<close> is \<open>None\<close> while \<^verbatim>\<open>Next\<close> blocks; \<open>cq_alarm_set\<close> and \<open>cq_start_call\<close> are
  \<open>None\<close> when the call breaks the queue's contract and gRPC aborts the process;
  \<open>cq_progress\<close> is what the gRPC runtime does on its own (an RPC finishes, an alarm expires).
  \<open>rcv_set_value r ok u\<close> gives what the continuation of receiver \<open>r\<close> does, whether it
  ends in an exception, and the client's new state.
\<close>

section \<open>Contracts\<close>

text \<open>
  \<^verbatim>\<open>intrusive_queue\<close>: a FIFO list of the items linked into it; a moved-from queue is empty.
\<close>

definition intrusive_queue_ok :: "('q, 'rq, 'cq, 'r, 'u) ext \<Rightarrow> bool" where
  "intrusive_queue_ok E \<longleftrightarrow>
     iq_items E (iq_init E) = [] \<and>
     (\<forall>q. iq_is_empty E q \<longleftrightarrow> iq_items E q = []) \<and>
     (\<forall>q p. iq_items E (iq_push_back E q p) = iq_items E q @ [p]) \<and>
     (\<forall>q r. iq_items E (iq_append E q r) = iq_items E q @ iq_items E r) \<and>
     (\<forall>q. iq_items E q \<noteq> [] \<longrightarrow> iq_items E q =
        fst (iq_pop_front E q) # iq_items E (snd (iq_pop_front E q))) \<and>
     (\<forall>q. iq_items E (iq_moved_from E q) = [])"

text \<open>
  \<^verbatim>\<open>atomic_intrusive_queue\<close>: many producers, one consumer. \<^verbatim>\<open>enqueue\<close> reports whether the
  consumer was inactive and must be woken, and makes the queue active; the consumer either
  marks an empty queue inactive or takes all items in the order they were enqueued. Nothing is
  promised when the consumer calls it on a queue that is already inactive.
\<close>

definition atomic_queue_ok :: "('q, 'rq, 'cq, 'r, 'u) ext \<Rightarrow> bool" where
  "atomic_queue_ok E \<longleftrightarrow>
     (\<forall>b. aiq_view E (aiq_init E b) = (if b then Active [] else Inactive)) \<and>
     (\<forall>rq p. aiq_view E rq = Inactive \<longrightarrow>
        fst (aiq_enqueue E rq p) \<and> aiq_view E (snd (aiq_enqueue E rq p)) = Active [p]) \<and>
     (\<forall>rq xs p. aiq_view E rq = Active xs \<longrightarrow>
        \<not> fst (aiq_enqueue E rq p) \<and> aiq_view E (snd (aiq_enqueue E rq p)) = Active (xs @ [p])) \<and>
     (\<forall>rq xs. aiq_view E rq = Active xs \<longrightarrow>
        iq_items E (fst (aiq_try_mark_inactive_or_dequeue_all E rq)) = xs \<and>
        aiq_view E (snd (aiq_try_mark_inactive_or_dequeue_all E rq)) =
          (if xs = [] then Inactive else Active []))"

text \<open>
  \<^verbatim>\<open>CompletionQueue\<close> and \<^verbatim>\<open>Alarm\<close>: every call started and every alarm set owes the queue one
  event with its tag; \<^verbatim>\<open>Next\<close> returns an owed event and no other, and returns false exactly
  when the queue is shut down and owes nothing more. \<^verbatim>\<open>Shutdown\<close> cancels no event. Setting the
  (single) alarm is allowed while the queue is not shut down and the alarm is not already
  pending. When gRPC accepts the start of a call is left open: besides a shut-down queue there are the
  rules of the call's own object (one outstanding read and write of a stream, one \<^verbatim>\<open>Finish\<close>).
\<close>

definition completion_queue_ok :: "('q, 'rq, 'cq, 'r, 'u) ext \<Rightarrow> bool" where
  "completion_queue_ok E \<longleftrightarrow>
     (\<forall>cq t ok cq'. cq_next E cq = Some (Event t ok, cq') \<longrightarrow>
        t \<in># cq_tags E cq \<and> cq_tags E cq' = cq_tags E cq - {#t#} \<and> cq_down E cq' = cq_down E cq) \<and>
     (\<forall>cq cq'. cq_next E cq = Some (Drained, cq') \<longrightarrow>
        cq_down E cq \<and> cq_tags E cq = {#} \<and> cq_tags E cq' = {#} \<and> cq_down E cq') \<and>
     (\<forall>cq t cq'. cq_alarm_set E cq t = Some cq' \<longrightarrow>
        cq_tags E cq' = add_mset t (cq_tags E cq) \<and> cq_down E cq' = cq_down E cq) \<and>
     (\<forall>cq t. \<not> cq_down E cq \<and> t \<notin># cq_tags E cq \<longrightarrow> cq_alarm_set E cq t \<noteq> None) \<and>
     (\<forall>cq c cq'. cq_start_call E cq c = Some cq' \<longrightarrow>
        cq_tags E cq' = add_mset (Some (call_tag c)) (cq_tags E cq) \<and> cq_down E cq' = cq_down E cq) \<and>
     (\<forall>cq. cq_tags E (cq_shutdown E cq) = cq_tags E cq \<and> cq_down E (cq_shutdown E cq)) \<and>
     (\<forall>cq cq'. cq_progress E cq cq' \<longrightarrow>
        cq_tags E cq' = cq_tags E cq \<and> cq_down E cq' = cq_down E cq)"

definition ext_ok :: "('q, 'rq, 'cq, 'r, 'u) ext \<Rightarrow> bool" where
  "ext_ok E \<longleftrightarrow> intrusive_queue_ok E \<and> atomic_queue_ok E \<and> completion_queue_ok E"

section \<open>The laws as rewrite rules\<close>

lemma iq_laws [lib_simps]:
  assumes "ext_ok E"
  shows "iq_items E (iq_init E) = []"
    and "iq_is_empty E q \<longleftrightarrow> iq_items E q = []"
    and "iq_items E (iq_push_back E q p) = iq_items E q @ [p]"
    and "iq_items E (iq_append E q r) = iq_items E q @ iq_items E r"
    and "iq_items E (iq_moved_from E q) = []"
  using assms by (simp_all add: ext_ok_def intrusive_queue_ok_def)

lemma iq_pop:
  assumes "ext_ok E" and "iq_items E q = x # xs"
  shows "\<exists>q'. iq_pop_front E q = (x, q') \<and> iq_items E q' = xs"
proof -
  have "iq_items E q = fst (iq_pop_front E q) # iq_items E (snd (iq_pop_front E q))"
    using assms unfolding ext_ok_def intrusive_queue_ok_def by (metis list.distinct(1))
  with assms(2) show ?thesis by (cases "iq_pop_front E q") auto
qed

lemma aiq_init_view [lib_simps]:
  "ext_ok E \<Longrightarrow> aiq_view E (aiq_init E b) = (if b then Active [] else Inactive)"
  by (simp add: ext_ok_def atomic_queue_ok_def)

lemma aiq_enqueue_inactive:
  assumes "ext_ok E" and "aiq_view E rq = Inactive"
  shows "\<exists>rq'. aiq_enqueue E rq p = (True, rq') \<and> aiq_view E rq' = Active [p]"
proof -
  have "fst (aiq_enqueue E rq p) \<and> aiq_view E (snd (aiq_enqueue E rq p)) = Active [p]"
    using assms by (simp add: ext_ok_def atomic_queue_ok_def)
  then show ?thesis by (cases "aiq_enqueue E rq p") auto
qed

lemma aiq_enqueue_active:
  assumes "ext_ok E" and "aiq_view E rq = Active xs"
  shows "\<exists>rq'. aiq_enqueue E rq p = (False, rq') \<and> aiq_view E rq' = Active (xs @ [p])"
proof -
  have "\<not> fst (aiq_enqueue E rq p) \<and> aiq_view E (snd (aiq_enqueue E rq p)) = Active (xs @ [p])"
    using assms by (simp add: ext_ok_def atomic_queue_ok_def)
  then show ?thesis by (cases "aiq_enqueue E rq p") auto
qed

lemma aiq_try:
  assumes "ext_ok E" and "aiq_view E rq = Active xs"
  shows "\<exists>q rq'. aiq_try_mark_inactive_or_dequeue_all E rq = (q, rq') \<and> iq_items E q = xs \<and>
    aiq_view E rq' = (if xs = [] then Inactive else Active [])"
proof -
  let ?r = "aiq_try_mark_inactive_or_dequeue_all E rq"
  have "iq_items E (fst ?r) = xs \<and> aiq_view E (snd ?r) = (if xs = [] then Inactive else Active [])"
    using assms by (simp add: ext_ok_def atomic_queue_ok_def)
  then show ?thesis by (cases ?r) auto
qed

lemma cq_nextD:
  assumes "ext_ok E" and "cq_next E cq = Some (Event t ok, cq')"
  shows "t \<in># cq_tags E cq" and "cq_tags E cq' = cq_tags E cq - {#t#}" and "cq_down E cq' = cq_down E cq"
  using assms by (simp_all add: ext_ok_def completion_queue_ok_def)

lemma cq_drainedD:
  assumes "ext_ok E" and "cq_next E cq = Some (Drained, cq')"
  shows "cq_tags E cq = {#}" and "cq_down E cq" and "cq_tags E cq' = {#}" and "cq_down E cq'"
  using assms by (simp_all add: ext_ok_def completion_queue_ok_def)

lemma cq_alarm_setD:
  assumes "ext_ok E" and "cq_alarm_set E cq t = Some cq'"
  shows "cq_tags E cq' = add_mset t (cq_tags E cq)" and "cq_down E cq' = cq_down E cq"
  using assms by (simp_all add: ext_ok_def completion_queue_ok_def)

lemma cq_alarm_set_allowed:
  "ext_ok E \<Longrightarrow> \<not> cq_down E cq \<Longrightarrow> t \<notin># cq_tags E cq \<Longrightarrow> \<exists>cq'. cq_alarm_set E cq t = Some cq'"
  by (auto simp: ext_ok_def completion_queue_ok_def)

lemma cq_start_callD:
  assumes "ext_ok E" and "cq_start_call E cq c = Some cq'"
  shows "cq_tags E cq' = add_mset (Some (call_tag c)) (cq_tags E cq)" and "cq_down E cq' = cq_down E cq"
  using assms by (simp_all add: ext_ok_def completion_queue_ok_def)

lemma cq_shutdown_laws [lib_simps]:
  assumes "ext_ok E"
  shows "cq_tags E (cq_shutdown E cq) = cq_tags E cq" and "cq_down E (cq_shutdown E cq)"
  using assms by (simp_all add: ext_ok_def completion_queue_ok_def)

lemma cq_progress_laws:
  assumes "ext_ok E" and "cq_progress E cq cq'"
  shows "cq_tags E cq' = cq_tags E cq" and "cq_down E cq' = cq_down E cq"
  using assms by (simp_all add: ext_ok_def completion_queue_ok_def)

end
