(* ===== verification/Grpc_Context.thy ===== *)
theory Grpc_Context
  imports Externals
begin

text \<open>
  \<^verbatim>\<open>agrpc/context/grpc_context.h\<close> and \<^verbatim>\<open>grpc_context.cc\<close>: the state of a \<^verbatim>\<open>GrpcContext\<close>, the
  operations that live in its queues, and every member function but the loops (\<^verbatim>\<open>Run_Loop\<close>).
  A world is one context, the storage of the operations that refer to it, the thread-local
  \<^verbatim>\<open>current_thread_context\<close> of every thread, the registered stop callback and the client's
  state. Functions that run on a thread take it as an argument. Trailing underscores of the
  C++ members are dropped. \<open>history\<close> is an observer: it records completions taken from the
  queue and signals sent to receivers, and no operation reads it. The debug log lines are
  added in \<^verbatim>\<open>Loop_Log\<close>, which shows that they change nothing here.
\<close>

section \<open>State\<close>

type_synonym thread = nat

text \<open>The function that \<^verbatim>\<open>execute_\<close> points to; \<open>None\<close> before it is first assigned.\<close>

datatype exec_fn = Stop_execute | OnScheduleComplete | OnRequestComplete

datatype 'r op_body =
    StopOperation (should_stop: bool)
  | AsyncOperation (rpc: sender) (receiver: 'r)

record 'r operation =
  execute :: "exec_fn option"
  body :: "'r op_body"

record GrpcCompletionQueueEvent =
  tag :: "op_ptr option"
  ok :: bool

text \<open>
  What is observed: completions taken from the queue, and the three signals that a receiver can be
  sent, the error with the type of its argument.
\<close>

datatype sent = Bool | Error_code | Exception_ptr

datatype observation =
    Acquired op_ptr bool
  | Set_value op_ptr bool
  | Set_error op_ptr sent
  | Set_done op_ptr

record ('q, 'rq, 'cq, 'r, 'u) world =
  this_context :: ctx_ref
  current_thread_context :: "thread \<Rightarrow> ctx_ref option"
  event :: GrpcCompletionQueueEvent
  completion_queue :: 'cq
  remote_queue_read_submitted :: bool
  local_queue :: 'q
  remote_queue :: 'rq
  heap :: "op_ptr \<Rightarrow> 'r operation option"
  stop_callback :: "op_ptr option"
  client :: 'u
  history :: "observation list"

text \<open>
  The constructor: members get their default initialisers, the completion queue is the one
  passed in. \<open>stop_callback\<close> is the stop operation of the callback that \<^verbatim>\<open>Run\<close> has registered
  with its stop token and that has not been invoked yet.
\<close>

definition GrpcContext_new ::
  "('q, 'rq, 'cq, 'r, 'u) ext \<Rightarrow> ctx_ref \<Rightarrow> (thread \<Rightarrow> ctx_ref option) \<Rightarrow> 'cq \<Rightarrow> 'u \<Rightarrow>
   ('q, 'rq, 'cq, 'r, 'u) world" where
  "GrpcContext_new E this tls cq u =
     \<lparr>this_context = this, current_thread_context = tls,
      event = \<lparr>tag = None, ok = False\<rparr>, completion_queue = cq,
      remote_queue_read_submitted = False, local_queue = iq_init E,
      remote_queue = aiq_init E False, heap = (\<lambda>_. None), stop_callback = None,
      client = u, history = []\<rparr>"

section \<open>Operation objects\<close>

definition new_stop_operation :: "'r operation" where
  "new_stop_operation = \<lparr>execute = Some Stop_execute, body = StopOperation False\<rparr>"

text \<open>
  The constructor of \<^verbatim>\<open>Operation\<close> copies the sender's lambda and takes the receiver; \<^verbatim>\<open>execute_\<close> is left
  unassigned. \<^verbatim>\<open>connect\<close> constructs one.
\<close>

definition Operation_new :: "sender \<Rightarrow> 'r \<Rightarrow> 'r operation" where
  [simp]: "Operation_new s r = \<lparr>execute = None, body = AsyncOperation s r\<rparr>"

definition new_async_operation :: "sender \<Rightarrow> 'r \<Rightarrow> 'r operation" where
  "new_async_operation s r = Operation_new s r"

text \<open>Storage: an object is constructed over free storage, and released when it dies.\<close>

definition place ::
  "op_ptr \<Rightarrow> 'r operation \<Rightarrow> ('q, 'rq, 'cq, 'r, 'u) world \<Rightarrow> ('q, 'rq, 'cq, 'r, 'u) world res" where
  "place p op w =
     (if heap w p = None then Inr (w\<lparr>heap := (heap w)(p \<mapsto> op)\<rparr>) else Inl BadObject)"

definition release ::
  "op_ptr \<Rightarrow> ('q, 'rq, 'cq, 'r, 'u) world \<Rightarrow> ('q, 'rq, 'cq, 'r, 'u) world" where
  "release p w = w\<lparr>heap := (heap w)(p := None)\<rparr>"

section \<open>Scheduling\<close>

definition IsRunningOnThisThread :: "thread \<Rightarrow> ('q, 'rq, 'cq, 'r, 'u) world \<Rightarrow> bool" where
  "IsRunningOnThisThread t w \<longleftrightarrow> current_thread_context w t = Some (this_context w)"

definition ScheduleLocal ::
  "('q, 'rq, 'cq, 'r, 'u) ext \<Rightarrow> op_ptr \<Rightarrow> ('q, 'rq, 'cq, 'r, 'u) world \<Rightarrow>
   ('q, 'rq, 'cq, 'r, 'u) world" where
  "ScheduleLocal E p w = w\<lparr>local_queue := iq_push_back E (local_queue w) p\<rparr>"

definition ScheduleLocal_queue ::
  "('q, 'rq, 'cq, 'r, 'u) ext \<Rightarrow> 'q \<Rightarrow> ('q, 'rq, 'cq, 'r, 'u) world \<Rightarrow>
   ('q, 'rq, 'cq, 'r, 'u) world" where
  "ScheduleLocal_queue E q w = w\<lparr>local_queue := iq_append E (local_queue w) q\<rparr>"

definition SignalRemoteQueue ::
  "('q, 'rq, 'cq, 'r, 'u) ext \<Rightarrow> ('q, 'rq, 'cq, 'r, 'u) world \<Rightarrow>
   ('q, 'rq, 'cq, 'r, 'u) world res" where
  "SignalRemoteQueue E w =
     (case cq_alarm_set E (completion_queue w) None of
       None \<Rightarrow> Inl QueueMisuse
     | Some cq \<Rightarrow> Inr (w\<lparr>completion_queue := cq\<rparr>))"

text \<open>
  \<^verbatim>\<open>ScheduleRemote\<close> has two atomic actions, and other threads may run between them: the
  enqueue, whose result says whether the processing thread was inactive, and the signal.
\<close>

definition remote_enqueue ::
  "('q, 'rq, 'cq, 'r, 'u) ext \<Rightarrow> op_ptr \<Rightarrow> ('q, 'rq, 'cq, 'r, 'u) world \<Rightarrow>
   bool \<times> ('q, 'rq, 'cq, 'r, 'u) world" where
  "remote_enqueue E p w =
     (let (was_inactive, rq) = aiq_enqueue E (remote_queue w) p
      in (was_inactive, w\<lparr>remote_queue := rq\<rparr>))"

definition ScheduleRemote ::
  "('q, 'rq, 'cq, 'r, 'u) ext \<Rightarrow> op_ptr \<Rightarrow> ('q, 'rq, 'cq, 'r, 'u) world \<Rightarrow>
   ('q, 'rq, 'cq, 'r, 'u) world res" where
  "ScheduleRemote E p w =
     (let (processing_thread_was_inactive, w') = remote_enqueue E p w
      in if processing_thread_was_inactive then SignalRemoteQueue E w' else Inr w')"

definition ScheduleImpl ::
  "('q, 'rq, 'cq, 'r, 'u) ext \<Rightarrow> thread \<Rightarrow> op_ptr option \<Rightarrow> ('q, 'rq, 'cq, 'r, 'u) world \<Rightarrow>
   ('q, 'rq, 'cq, 'r, 'u) world res" where
  "ScheduleImpl E t op w =
     (case op of
       None \<Rightarrow> Inl CheckFailed
     | Some p \<Rightarrow>
         if IsRunningOnThisThread t w then Inr (ScheduleLocal E p w) else ScheduleRemote E p w)"

definition ShutDown ::
  "('q, 'rq, 'cq, 'r, 'u) ext \<Rightarrow> ('q, 'rq, 'cq, 'r, 'u) world \<Rightarrow>
   ('q, 'rq, 'cq, 'r, 'u) world" where
  "ShutDown E w = w\<lparr>completion_queue := cq_shutdown E (completion_queue w)\<rparr>"

text \<open>The callback that \<^verbatim>\<open>Run\<close> registers; the stop token invokes it at most once.\<close>

definition on_stop_requested ::
  "('q, 'rq, 'cq, 'r, 'u) ext \<Rightarrow> thread \<Rightarrow> ('q, 'rq, 'cq, 'r, 'u) world \<Rightarrow>
   ('q, 'rq, 'cq, 'r, 'u) world res" where
  "on_stop_requested E t w =
     (case stop_callback w of
       None \<Rightarrow> Inr w
     | Some p \<Rightarrow> ScheduleImpl E t (Some p) (w\<lparr>stop_callback := None\<rparr>))"

section \<open>RPC operations\<close>

text \<open>
  \<^verbatim>\<open>StartAsyncRPC\<close>. The readers and writers of the RPCs were made with the context's own queue,
  so a call owes that queue its event.
\<close>

definition StartAsyncRPC ::
  "('q, 'rq, 'cq, 'r, 'u) ext \<Rightarrow> thread \<Rightarrow> op_ptr \<Rightarrow> ('q, 'rq, 'cq, 'r, 'u) world \<Rightarrow>
   ('q, 'rq, 'cq, 'r, 'u) world res" where
  "StartAsyncRPC E t p w =
     (if \<not> IsRunningOnThisThread t w then Inl CheckFailed
      else case heap w p of
        None \<Rightarrow> Inl BadObject
      | Some op \<Rightarrow>
          (case body op of
            StopOperation b \<Rightarrow> Inl BadObject
          | AsyncOperation s r \<Rightarrow>
              (let w1 = w\<lparr>heap := (heap w)(p \<mapsto> op\<lparr>execute := Some OnRequestComplete\<rparr>)\<rparr>
               in bind_res (run_sender s (this_context w) p) (\<lambda>call.
                  case cq_start_call E (completion_queue w1) call of
                    None \<Rightarrow> Inl QueueMisuse
                  | Some cq \<Rightarrow> Inr (w1\<lparr>completion_queue := cq\<rparr>)))))"

text \<open>\<^verbatim>\<open>Operation::start\<close>, with the assignment to \<^verbatim>\<open>execute_\<close> of its remote branch apart.\<close>

definition mark_scheduled ::
  "op_ptr \<Rightarrow> ('q, 'rq, 'cq, 'r, 'u) world \<Rightarrow> ('q, 'rq, 'cq, 'r, 'u) world res" where
  "mark_scheduled p w =
     (case heap w p of
       Some op \<Rightarrow> Inr (w\<lparr>heap := (heap w)(p \<mapsto> op\<lparr>execute := Some OnScheduleComplete\<rparr>)\<rparr>)
     | None \<Rightarrow> Inl BadObject)"

definition start_operation ::
  "('q, 'rq, 'cq, 'r, 'u) ext \<Rightarrow> thread \<Rightarrow> op_ptr \<Rightarrow> ('q, 'rq, 'cq, 'r, 'u) world \<Rightarrow>
   ('q, 'rq, 'cq, 'r, 'u) world res" where
  "start_operation E t p w =
     (if \<not> IsRunningOnThisThread t w
      then bind_res (mark_scheduled p w) (ScheduleRemote E p)
      else StartAsyncRPC E t p w)"

text \<open>What continuations do, one action after the other.\<close>

fun perform ::
  "('q, 'rq, 'cq, 'r, 'u) ext \<Rightarrow> thread \<Rightarrow> 'r action \<Rightarrow> ('q, 'rq, 'cq, 'r, 'u) world \<Rightarrow>
   ('q, 'rq, 'cq, 'r, 'u) world res" where
  "perform E t (Await p s r) w =
     bind_res (place p (new_async_operation s r) w) (start_operation E t p)"
| "perform E t RequestStop w = on_stop_requested E t w"
| "perform E t ShutDown_queue w = Inr (ShutDown E w)"
| "perform E t Abort w = Inl Process_ended"
| "perform E t Run_undefined w = Inl Undefined_behaviour"

fun perform_all ::
  "('q, 'rq, 'cq, 'r, 'u) ext \<Rightarrow> thread \<Rightarrow> 'r action list \<Rightarrow> ('q, 'rq, 'cq, 'r, 'u) world \<Rightarrow>
   ('q, 'rq, 'cq, 'r, 'u) world res" where
  "perform_all E t [] w = Inr w"
| "perform_all E t (a # as) w = bind_res (perform E t a w) (perform_all E t as)"

text \<open>
  \<^verbatim>\<open>OnRequestComplete\<close>: the receiver gets the \<^verbatim>\<open>ok\<close> flag of the context's current event. A
  continuation that ends normally has destroyed the operation before it goes on. One that
  throws leaves it to \<^verbatim>\<open>set_error\<close>, unless \<^verbatim>\<open>set_value\<close> is declared \<^verbatim>\<open>noexcept\<close>: then the process
  terminates.
\<close>

definition signal_error ::
  "('q, 'rq, 'cq, 'r, 'u) ext \<Rightarrow> thread \<Rightarrow> op_ptr \<Rightarrow> 'r \<Rightarrow> ('q, 'rq, 'cq, 'r, 'u) world \<Rightarrow>
   ('q, 'rq, 'cq, 'r, 'u) world res" where
  "signal_error E t p r w =
     (let (as, u) = rcv_set_error E r (client w)
      in perform_all E t as
           (release p (w\<lparr>client := u, history := history w @ [Set_error p Exception_ptr]\<rparr>)))"

definition complete ::
  "('q, 'rq, 'cq, 'r, 'u) ext \<Rightarrow> thread \<Rightarrow> op_ptr \<Rightarrow> 'r \<Rightarrow> ('q, 'rq, 'cq, 'r, 'u) world \<Rightarrow>
   ('q, 'rq, 'cq, 'r, 'u) world res" where
  "complete E t p r w =
     (let result = ok (event w);
          (as, threw, u) = rcv_set_value E r result (client w);
          w1 = w\<lparr>client := u, history := history w @ [Set_value p result]\<rparr>
      in if \<not> threw then perform_all E t as (release p w1)
         else if rcv_noexcept E r then Inl Terminated
         else bind_res (perform_all E t as w1) (signal_error E t p r))"

text \<open>The call \<^verbatim>\<open>item->execute_(item)\<close>, by the function \<^verbatim>\<open>execute_\<close> points to.\<close>

definition execute_op ::
  "('q, 'rq, 'cq, 'r, 'u) ext \<Rightarrow> thread \<Rightarrow> op_ptr \<Rightarrow> ('q, 'rq, 'cq, 'r, 'u) world \<Rightarrow>
   ('q, 'rq, 'cq, 'r, 'u) world res" where
  "execute_op E t p w =
     (case heap w p of
       None \<Rightarrow> Inl BadObject
     | Some op \<Rightarrow>
         (case (execute op, body op) of
           (Some Stop_execute, StopOperation b) \<Rightarrow>
             Inr (w\<lparr>heap := (heap w)(p \<mapsto> op\<lparr>body := StopOperation True\<rparr>)\<rparr>)
         | (Some OnScheduleComplete, AsyncOperation s r) \<Rightarrow> StartAsyncRPC E t p w
         | (Some OnRequestComplete, AsyncOperation s r) \<Rightarrow> complete E t p r w
         | _ \<Rightarrow> Inl BadObject))"

section \<open>The queues of the loop\<close>

text \<open>
  \<^verbatim>\<open>TryScheduleRemoteQueuedItems\<close>, and the conditional assignment of the loop that calls it.
\<close>

definition TryScheduleRemoteQueuedItems ::
  "('q, 'rq, 'cq, 'r, 'u) ext \<Rightarrow> ('q, 'rq, 'cq, 'r, 'u) world \<Rightarrow>
   bool \<times> ('q, 'rq, 'cq, 'r, 'u) world" where
  "TryScheduleRemoteQueuedItems E w =
     (let (queued_items, rq) = aiq_try_mark_inactive_or_dequeue_all E (remote_queue w);
          w1 = w\<lparr>remote_queue := rq\<rparr>
      in if \<not> iq_is_empty E queued_items then (False, ScheduleLocal_queue E queued_items w1)
         else (True, w1))"

definition check_remote_queue ::
  "('q, 'rq, 'cq, 'r, 'u) ext \<Rightarrow> ('q, 'rq, 'cq, 'r, 'u) world \<Rightarrow>
   ('q, 'rq, 'cq, 'r, 'u) world" where
  "check_remote_queue E w =
     (if \<not> remote_queue_read_submitted w
      then (let (b, w') = TryScheduleRemoteQueuedItems E w
            in w'\<lparr>remote_queue_read_submitted := b\<rparr>)
      else w)"

text \<open>\<^verbatim>\<open>AcquireCompletionQueueItems\<close>; \<open>None\<close> while \<^verbatim>\<open>Next\<close> blocks.\<close>

definition AcquireCompletionQueueItems ::
  "('q, 'rq, 'cq, 'r, 'u) ext \<Rightarrow> ('q, 'rq, 'cq, 'r, 'u) world \<Rightarrow>
   (bool \<times> ('q, 'rq, 'cq, 'r, 'u) world) option" where
  "AcquireCompletionQueueItems E w =
     (case cq_next E (completion_queue w) of
       None \<Rightarrow> None
     | Some (Drained, cq) \<Rightarrow> Some (False, w\<lparr>completion_queue := cq\<rparr>)
     | Some (Event t b, cq) \<Rightarrow>
         (let w1 = w\<lparr>completion_queue := cq, event := \<lparr>tag = t, ok = b\<rparr>\<rparr>
          in case t of
               None \<Rightarrow> Some (True, w1\<lparr>remote_queue_read_submitted := False\<rparr>)
             | Some p \<Rightarrow>
                 Some (True, ScheduleLocal E p (w1\<lparr>history := history w1 @ [Acquired p b]\<rparr>))))"

end
