(* ===== verification/Ownership.thy ===== *)
theory Ownership
  imports Grpc_Context
begin

text \<open>
  Who may hold a pointer to an operation. An operation is linked into queues through its own
  \<^verbatim>\<open>next_\<close> field, so it can be in one queue at a time, and while gRPC holds it as a tag it must
  be in none. \<open>ownership\<close> says so for the parts of a world it depends on: the storage \<open>H\<close>,
  the registered stop callback \<open>sc\<close>, the items \<open>R\<close> ready to run (the rest of the batch being
  executed, then the local queue), the items \<open>M\<close> of the remote queue and the operations \<open>T\<close>
  whose completion gRPC still owes. One lemma per transition of the context.
\<close>

section \<open>The predicate\<close>

type_synonym 'r store = "op_ptr \<Rightarrow> 'r operation option"

definition exec_of :: "'r store \<Rightarrow> op_ptr \<Rightarrow> exec_fn option" where
  "exec_of H p = (case H p of None \<Rightarrow> None | Some op \<Rightarrow> execute op)"

fun is_stop_body :: "'r op_body \<Rightarrow> bool" where
  "is_stop_body (StopOperation b) = True"
| "is_stop_body (AsyncOperation s r) = False"

definition typed :: "'r store \<Rightarrow> bool" where
  "typed H \<longleftrightarrow> (\<forall>p op. H p = Some op \<longrightarrow> (execute op = Some Stop_execute \<longleftrightarrow> is_stop_body (body op)))"

definition stopped :: "'r store \<Rightarrow> op_ptr \<Rightarrow> bool" where
  "stopped H p \<longleftrightarrow>
     (case H p of
       None \<Rightarrow> False
     | Some op \<Rightarrow> (case body op of StopOperation b \<Rightarrow> b | AsyncOperation s r \<Rightarrow> False))"

lemma stopped_iff: "stopped H p \<longleftrightarrow> (\<exists>op. H p = Some op \<and> body op = StopOperation True)"
  by (auto simp: stopped_def split: option.splits op_body.splits)

definition held :: "op_ptr list \<Rightarrow> op_ptr list \<Rightarrow> op_ptr multiset \<Rightarrow> op_ptr multiset" where
  "held R M T = mset R + mset M + T"

definition ownership ::
  "'r store \<Rightarrow> op_ptr option \<Rightarrow> op_ptr list \<Rightarrow> op_ptr list \<Rightarrow> op_ptr multiset \<Rightarrow> bool" where
  "ownership H sc R M T \<longleftrightarrow>
     typed H \<and> uniq (held R M T) \<and>
     (\<forall>p \<in> set R. exec_of H p \<noteq> None) \<and>
     (\<forall>p \<in> set M. exec_of H p = Some Stop_execute \<or> exec_of H p = Some OnScheduleComplete) \<and>
     (\<forall>p \<in># T. exec_of H p = Some OnRequestComplete) \<and>
     (\<forall>p. sc = Some p \<longrightarrow> H p = Some new_stop_operation \<and> p \<notin># held R M T) \<and>
     (\<forall>p. stopped H p \<longrightarrow> p \<notin># held R M T)"

text \<open>A live RPC operation that nobody holds: the one whose code is running.\<close>

definition loose ::
  "'r store \<Rightarrow> op_ptr list \<Rightarrow> op_ptr list \<Rightarrow> op_ptr multiset \<Rightarrow> op_ptr \<Rightarrow> bool" where
  "loose H R M T p \<longleftrightarrow> (\<exists>op. H p = Some op \<and> \<not> is_stop_body (body op)) \<and> p \<notin># held R M T"

section \<open>Reading it\<close>

lemma in_held [simp]: "p \<in># held R M T \<longleftrightarrow> p \<in> set R \<or> p \<in> set M \<or> p \<in># T"
  by (simp add: held_def)

lemma held_simps [simp]:
  "held (p # R) M T = add_mset p (held R M T)"
  "held (R @ [p]) M T = add_mset p (held R M T)"
  "held R (M @ [p]) T = add_mset p (held R M T)"
  "held R M (add_mset p T) = add_mset p (held R M T)"
  "held (R @ M) [] T = held R M T"
  by (simp_all add: held_def ac_simps)

lemma exec_of_update [simp]:
  "exec_of (H(p \<mapsto> op)) q = (if q = p then execute op else exec_of H q)"
  "exec_of (H(p := None)) q = (if q = p then None else exec_of H q)"
  by (simp_all add: exec_of_def)

lemma stopped_update [simp]:
  "stopped (H(p \<mapsto> op)) q \<longleftrightarrow> (if q = p then body op = StopOperation True else stopped H q)"
  "stopped (H(p := None)) q \<longleftrightarrow> q \<noteq> p \<and> stopped H q"
  by (auto simp: stopped_iff)

lemma typed_update:
  "typed H \<Longrightarrow> execute op = Some Stop_execute \<longleftrightarrow> is_stop_body (body op) \<Longrightarrow> typed (H(p \<mapsto> op))"
  "typed H \<Longrightarrow> typed (H(p := None))"
  by (simp_all add: typed_def)

lemma ownership_live:
  assumes "ownership H sc R M T" and "p \<in># held R M T"
  shows "\<exists>op. H p = Some op"
  using assms by (force simp: ownership_def exec_of_def split: option.splits)

lemma ownership_fresh:
  assumes "ownership H sc R M T" and "H p = None"
  shows "p \<notin># held R M T" and "sc \<noteq> Some p"
proof -
  show "p \<notin># held R M T" using ownership_live [OF assms(1), of p] assms(2) by auto
  show "sc \<noteq> Some p" using assms by (auto simp: ownership_def)
qed

lemma ownership_exclusive:
  "ownership H sc R M T \<Longrightarrow> distinct R \<and> distinct M \<and> uniq T \<and> set R \<inter> set M = {} \<and>
     set R \<inter> set_mset T = {} \<and> set M \<inter> set_mset T = {}"
proof -
  assume "ownership H sc R M T"
  then have U: "uniq (mset R + mset M + T)" by (simp add: ownership_def held_def)
  have "distinct R" "distinct M" "uniq T"
    by (auto intro: uniq_subset [OF U] simp flip: uniq_mset_iff simp: subset_mset.add_increasing
        subset_mset.add_increasing2)
  moreover have "p \<in> set R \<Longrightarrow> p \<notin> set M \<and> p \<notin># T" and "p \<in> set M \<Longrightarrow> p \<notin># T" for p
    using uniq_union_disjoint [of "mset R" "mset M + T" p]
      uniq_union_disjoint [of "mset R + mset M" T p] U by (auto simp: ac_simps)
  ultimately show ?thesis by blast
qed

section \<open>Transitions\<close>

text \<open>An operation constructed and started on the loop's thread: its completion is owed.\<close>

lemma ownership_start_local:
  assumes "ownership H sc R M T" and "H p = None"
    and "execute op = Some OnRequestComplete" and "\<not> is_stop_body (body op)"
  shows "ownership (H(p \<mapsto> op)) sc R M (add_mset p T)"
  using assms ownership_fresh [OF assms(1,2)]
  by (auto simp: ownership_def typed_update)

text \<open>An operation constructed and started elsewhere: it is enqueued remotely.\<close>

lemma ownership_start_remote:
  assumes "ownership H sc R M T" and "H p = None"
    and "execute op = Some OnScheduleComplete" and "\<not> is_stop_body (body op)"
  shows "ownership (H(p \<mapsto> op)) sc R (M @ [p]) T"
  using assms ownership_fresh [OF assms(1,2)]
  by (auto simp: ownership_def typed_update)

text \<open>The stop callback runs: its operation is queued, locally or remotely.\<close>

lemma ownership_stop_local:
  assumes "ownership H (Some p) R M T"
  shows "ownership H None (R @ [p]) M T"
  using assms by (auto simp: ownership_def exec_of_def new_stop_operation_def stopped_iff)

lemma ownership_stop_remote:
  assumes "ownership H (Some p) R M T"
  shows "ownership H None R (M @ [p]) T"
  using assms by (auto simp: ownership_def exec_of_def new_stop_operation_def stopped_iff)

text \<open>The loop takes the remote items, takes a completion, takes the next ready item.\<close>

lemma ownership_poll:
  "ownership H sc R M T \<Longrightarrow> ownership H sc (R @ M) [] T"
  by (auto simp: ownership_def)

lemma ownership_acquire:
  "ownership H sc R M (add_mset p T) \<Longrightarrow> ownership H sc (R @ [p]) M T"
  by (auto simp: ownership_def)

lemma ownership_pop:
  assumes "ownership H sc (p # R) M T"
  shows "ownership H sc R M T" and "p \<notin># held R M T" and "sc \<noteq> Some p" and "\<not> stopped H p"
    and "\<exists>op. H p = Some op \<and> execute op \<noteq> None"
  using assms by (auto simp: ownership_def exec_of_def split: option.splits)

text \<open>The popped item runs.\<close>

lemma ownership_run_stop:
  assumes "ownership H sc R M T" and "p \<notin># held R M T" and "sc \<noteq> Some p"
    and "H p = Some op" and "execute op = Some Stop_execute"
  shows "ownership (H(p \<mapsto> op\<lparr>body := StopOperation True\<rparr>)) sc R M T"
  using assms by (auto simp: ownership_def typed_update)

lemma ownership_run_start:
  assumes "ownership H sc R M T" and "p \<notin># held R M T" and "sc \<noteq> Some p"
    and "H p = Some op" and "\<not> is_stop_body (body op)"
  shows "ownership (H(p \<mapsto> op\<lparr>execute := Some OnRequestComplete\<rparr>)) sc R M (add_mset p T)"
  using assms by (auto simp: ownership_def typed_update)

lemma ownership_release:
  assumes "ownership H sc R M T" and "p \<notin># held R M T" and "sc \<noteq> Some p"
  shows "ownership (H(p := None)) sc R M T"
  using assms by (auto simp: ownership_def typed_update)

text \<open>\<^verbatim>\<open>Run\<close> constructs its stop operation and registers the callback, and undoes both.\<close>

lemma ownership_register:
  assumes "ownership H None R M T" and "H p = None"
  shows "ownership (H(p \<mapsto> new_stop_operation)) (Some p) R M T"
  using assms ownership_fresh [OF assms]
  by (auto simp: ownership_def typed_update new_stop_operation_def)

lemma ownership_deregister:
  assumes "ownership H sc R M T" and "p \<notin># held R M T" and "sc = None \<or> sc = Some p"
  shows "ownership (H(p := None)) None R M T"
  using assms by (auto simp: ownership_def typed_update)

end
