(* ===== verification/Context_Invariant.thy ===== *)
theory Context_Invariant
  imports Ownership
begin

text \<open>
  What the functions that run on the loop's thread keep. Three aspects of a world are tracked
  separately: who holds which operation (\<open>owns\<close>), which completion is waiting for its receiver
  (\<open>delivery\<close>), and what a function leaves alone (\<open>quiet\<close>): the remote queue, the flag
  \<^verbatim>\<open>remote_queue_read_submitted_\<close>, the current event, the thread-locals and the pending alarm
  belong to the wake-up protocol, and executing operations never touches them.
\<close>

section \<open>Views of a world\<close>

definition ready ::
  "('q, 'rq, 'cq, 'r, 'u) ext \<Rightarrow> op_ptr list \<Rightarrow> ('q, 'rq, 'cq, 'r, 'u) world \<Rightarrow> op_ptr list" where
  "ready E pend w = pend @ iq_items E (local_queue w)"

definition remote_items ::
  "('q, 'rq, 'cq, 'r, 'u) ext \<Rightarrow> ('q, 'rq, 'cq, 'r, 'u) world \<Rightarrow> op_ptr list" where
  "remote_items E w = (case aiq_view E (remote_queue w) of Inactive \<Rightarrow> [] | Active xs \<Rightarrow> xs)"

definition owed ::
  "('q, 'rq, 'cq, 'r, 'u) ext \<Rightarrow> ('q, 'rq, 'cq, 'r, 'u) world \<Rightarrow> op_ptr multiset" where
  "owed E w = op_tags (cq_tags E (completion_queue w))"

definition alarms ::
  "('q, 'rq, 'cq, 'r, 'u) ext \<Rightarrow> ('q, 'rq, 'cq, 'r, 'u) world \<Rightarrow> nat" where
  "alarms E w = count (cq_tags E (completion_queue w)) None"

definition owns ::
  "('q, 'rq, 'cq, 'r, 'u) ext \<Rightarrow> op_ptr list \<Rightarrow> ('q, 'rq, 'cq, 'r, 'u) world \<Rightarrow> bool" where
  "owns E pend w \<longleftrightarrow>
     ownership (heap w) (stop_callback w) (ready E pend w) (remote_items E w) (owed E w)"

definition idle_op ::
  "('q, 'rq, 'cq, 'r, 'u) ext \<Rightarrow> op_ptr list \<Rightarrow> ('q, 'rq, 'cq, 'r, 'u) world \<Rightarrow> op_ptr \<Rightarrow> bool" where
  "idle_op E pend w p \<longleftrightarrow> loose (heap w) (ready E pend w) (remote_items E w) (owed E w) p"

text \<open>Completions taken from the queue, and flags given to receivers, in order.\<close>

fun acquired :: "observation list \<Rightarrow> (op_ptr \<times> bool) list" where
  "acquired [] = []"
| "acquired (Acquired p b # h) = (p, b) # acquired h"
| "acquired (_ # h) = acquired h"

fun delivered :: "observation list \<Rightarrow> (op_ptr \<times> bool) list" where
  "delivered [] = []"
| "delivered (Set_value p b # h) = (p, b) # delivered h"
| "delivered (_ # h) = delivered h"

lemma acquired_append [simp]: "acquired (h @ k) = acquired h @ acquired k"
  by (induction h rule: acquired.induct) auto

lemma delivered_append [simp]: "delivered (h @ k) = delivered h @ delivered k"
  by (induction h rule: delivered.induct) auto

definition is_completion :: "('q, 'rq, 'cq, 'r, 'u) world \<Rightarrow> op_ptr \<Rightarrow> bool" where
  "is_completion w p \<longleftrightarrow> exec_of (heap w) p = Some OnRequestComplete"

lemma is_completion_eq: "is_completion w = (\<lambda>p. exec_of (heap w) p = Some OnRequestComplete)"
  by (simp add: fun_eq_iff is_completion_def)

definition completions ::
  "('q, 'rq, 'cq, 'r, 'u) ext \<Rightarrow> op_ptr list \<Rightarrow> ('q, 'rq, 'cq, 'r, 'u) world \<Rightarrow> op_ptr list" where
  "completions E pend w = filter (is_completion w) (ready E pend w)"

text \<open>
  At most one completion is waiting in the loop's queues; it is the operation of the current
  event, and every earlier one has been given to its receiver.
\<close>

definition delivery ::
  "('q, 'rq, 'cq, 'r, 'u) ext \<Rightarrow> op_ptr list \<Rightarrow> ('q, 'rq, 'cq, 'r, 'u) world \<Rightarrow> bool" where
  "delivery E pend w \<longleftrightarrow>
     (completions E pend w = [] \<and> acquired (history w) = delivered (history w)) \<or>
     (\<exists>p. completions E pend w = [p] \<and> tag (event w) = Some p \<and>
        acquired (history w) = delivered (history w) @ [(p, ok (event w))])"

definition quiet ::
  "('q, 'rq, 'cq, 'r, 'u) ext \<Rightarrow> ('q, 'rq, 'cq, 'r, 'u) world \<Rightarrow>
   ('q, 'rq, 'cq, 'r, 'u) world \<Rightarrow> bool" where
  "quiet E w w' \<longleftrightarrow>
     this_context w' = this_context w \<and> current_thread_context w' = current_thread_context w \<and>
     remote_queue_read_submitted w' = remote_queue_read_submitted w \<and>
     remote_queue w' = remote_queue w \<and> event w' = event w \<and> alarms E w' = alarms E w \<and>
     (stop_callback w' = stop_callback w \<or> stop_callback w' = None) \<and>
     (cq_down E (completion_queue w) \<longrightarrow> cq_down E (completion_queue w'))"

lemma quiet_refl [simp]: "quiet E w w"
  by (simp add: quiet_def)

lemma quiet_trans: "quiet E w1 w2 \<Longrightarrow> quiet E w2 w3 \<Longrightarrow> quiet E w1 w3"
  by (auto simp: quiet_def)

lemma quiet_running: "quiet E w w' \<Longrightarrow> IsRunningOnThisThread t w' = IsRunningOnThisThread t w"
  by (simp add: quiet_def IsRunningOnThisThread_def)

lemma quiet_remote_items: "quiet E w w' \<Longrightarrow> remote_items E w' = remote_items E w"
  by (simp add: quiet_def remote_items_def)

section \<open>Continuations on the loop's thread\<close>

text \<open>
  The effect of a continuation's actions: they can add work, but they leave the operation whose
  receiver is running, the completions that wait and the history as they are.
\<close>

definition undisturbed ::
  "('q, 'rq, 'cq, 'r, 'u) ext \<Rightarrow> op_ptr list \<Rightarrow> ('q, 'rq, 'cq, 'r, 'u) world \<Rightarrow>
   ('q, 'rq, 'cq, 'r, 'u) world \<Rightarrow> bool" where
  "undisturbed E pend w w' \<longleftrightarrow>
     owns E pend w' \<and> quiet E w w' \<and> history w' = history w \<and>
     completions E pend w' = completions E pend w \<and>
     (\<forall>p. idle_op E pend w p \<longrightarrow> idle_op E pend w' p \<and> heap w' p = heap w p)"

lemma undisturbed_trans:
  "undisturbed E pend w1 w2 \<Longrightarrow> undisturbed E pend w2 w3 \<Longrightarrow> undisturbed E pend w1 w3"
  by (auto simp: undisturbed_def intro: quiet_trans)

lemmas view_defs = ready_def remote_items_def owed_def alarms_def owns_def idle_op_def

lemma run_sender_tag: "run_sender s ctx p = Inr call \<Longrightarrow> call_tag call = p"
  by (auto simp: run_sender_def)

text \<open>\<^verbatim>\<open>StartAsyncRPC\<close> when it returns: the call is made and its completion is owed.\<close>

lemma StartAsyncRPC_Inr:
  assumes "ext_ok E" and "StartAsyncRPC E t p w = Inr w'"
  shows "\<exists>op cq. heap w p = Some op \<and> \<not> is_stop_body (body op) \<and>
    w' = w\<lparr>heap := (heap w)(p \<mapsto> op\<lparr>execute := Some OnRequestComplete\<rparr>), completion_queue := cq\<rparr> \<and>
    cq_tags E cq = add_mset (Some p) (cq_tags E (completion_queue w)) \<and>
    cq_down E cq = cq_down E (completion_queue w)"
proof -
  obtain op s r where op: "heap w p = Some op" "body op = AsyncOperation s r"
    using assms(2) by (auto simp: StartAsyncRPC_def split: if_split_asm option.split_asm op_body.split_asm)
  let ?w1 = "w\<lparr>heap := (heap w)(p \<mapsto> op\<lparr>execute := Some OnRequestComplete\<rparr>)\<rparr>"
  have "bind_res (run_sender s (this_context w) p) (\<lambda>call.
      case cq_start_call E (completion_queue ?w1) call of None \<Rightarrow> Inl QueueMisuse
      | Some cq \<Rightarrow> Inr (?w1\<lparr>completion_queue := cq\<rparr>)) = Inr w'"
    using assms(2) op by (simp add: StartAsyncRPC_def split: if_split_asm)
  then obtain call cq where "run_sender s (this_context w) p = Inr call"
    and "cq_start_call E (completion_queue w) call = Some cq"
    and "w' = ?w1\<lparr>completion_queue := cq\<rparr>"
    by (auto split: option.split_asm)
  with op cq_start_callD [OF assms(1) this(2)] run_sender_tag [OF this(1)] show ?thesis
    by auto
qed

lemma Await_local:
  assumes "ext_ok E" and "IsRunningOnThisThread t w" and "owns E pend w"
    and "perform E t (Await p s r) w = Inr w'"
  shows "undisturbed E pend w w'"
proof -
  have free: "heap w p = None"
    using assms(4) by (auto simp: place_def split: if_split_asm)
  then have "StartAsyncRPC E t p (w\<lparr>heap := (heap w)(p \<mapsto> new_async_operation s r)\<rparr>) = Inr w'"
    using assms(2,4) by (simp add: place_def start_operation_def IsRunningOnThisThread_def)
  from StartAsyncRPC_Inr [OF assms(1) this] obtain op cq where
    w': "w' = w\<lparr>heap := (heap w)(p \<mapsto> op), completion_queue := cq\<rparr>"
    and op: "execute op = Some OnRequestComplete" "\<not> is_stop_body (body op)"
    and cq: "cq_tags E cq = add_mset (Some p) (cq_tags E (completion_queue w))"
      "cq_down E cq = cq_down E (completion_queue w)"
    by auto
  have own: "owns E pend w'"
    using ownership_start_local [OF assms(3) [unfolded owns_def] free op] cq
    by (simp add: w' view_defs)
  have p: "p \<notin># held (ready E pend w) (remote_items E w) (owed E w)"
    using ownership_fresh [OF assms(3) [unfolded owns_def] free] by simp
  then have "q \<in> set (ready E pend w) \<Longrightarrow> is_completion w' q = is_completion w q" for q
    by (auto simp: is_completion_def w')
  then have "completions E pend w' = completions E pend w"
    unfolding completions_def by (intro filter_cong) (simp_all add: w' ready_def)
  moreover have "idle_op E pend w q \<Longrightarrow> idle_op E pend w' q \<and> heap w' q = heap w q" for q
    using free cq by (auto simp: w' view_defs loose_def)
  ultimately show ?thesis
    using own cq by (simp add: undisturbed_def quiet_def w' alarms_def)
qed

lemma on_stop_requested_local:
  assumes "ext_ok E" and "IsRunningOnThisThread t w" and "owns E pend w"
    and "on_stop_requested E t w = Inr w'"
  shows "undisturbed E pend w w'"
proof (cases "stop_callback w")
  case None
  then have "w' = w" using assms(4) by (simp add: on_stop_requested_def)
  with assms(3) show ?thesis by (simp add: undisturbed_def)
next
  case (Some p)
  then have w': "w' = ScheduleLocal E p (w\<lparr>stop_callback := None\<rparr>)"
    using assms(2,4) by (simp add: on_stop_requested_def ScheduleImpl_def IsRunningOnThisThread_def)
  have o: "ownership (heap w) (Some p) (ready E pend w) (remote_items E w) (owed E w)"
    using assms(3) Some by (simp add: owns_def)
  then have "heap w p = Some new_stop_operation"
    by (simp add: ownership_def)
  then have "\<not> is_completion w p" and "\<not> loose (heap w) R M T p" for R M T
    by (simp_all add: is_completion_def exec_of_def new_stop_operation_def loose_def)
  then show ?thesis
    using ownership_stop_local [OF o]
    by (auto simp: undisturbed_def quiet_def completions_def is_completion_eq view_defs
        ScheduleLocal_def w' lib_simps assms(1) loose_def)
qed

lemma perform_local:
  assumes "ext_ok E" and "IsRunningOnThisThread t w" and "owns E pend w"
    and "perform E t a w = Inr w'"
  shows "undisturbed E pend w w'"
proof (cases a)
  case (Await p s r)
  then show ?thesis using Await_local [OF assms(1-3)] assms(4) by simp
next
  case RequestStop
  then show ?thesis using on_stop_requested_local [OF assms(1-3)] assms(4) by simp
next
  case ShutDown_queue
  then show ?thesis using assms(1,3,4)
    by (auto simp: undisturbed_def quiet_def completions_def is_completion_eq view_defs
        ShutDown_def lib_simps)
qed (use assms in simp_all)

lemma perform_all_local:
  assumes "ext_ok E" and "IsRunningOnThisThread t w" and "owns E pend w"
    and "perform_all E t as w = Inr w'"
  shows "undisturbed E pend w w'"
  using assms(2-4)
proof (induction as arbitrary: w)
  case Nil
  then show ?case by (simp add: undisturbed_def)
next
  case (Cons a as)
  then obtain w1 where w1: "perform E t a w = Inr w1" "perform_all E t as w1 = Inr w'" by auto
  have u: "undisturbed E pend w w1"
    using perform_local [OF assms(1) Cons.prems(1,2) w1(1)] .
  then have "IsRunningOnThisThread t w1" and "owns E pend w1"
    using Cons.prems(1) by (auto simp: undisturbed_def quiet_running)
  from undisturbed_trans [OF u Cons.IH [OF this w1(2)]] show ?case .
qed

section \<open>Executing one item\<close>

text \<open>A world whose client state and history changed: nothing that is tracked depends on them.\<close>

lemma observe_simps [simp]:
  "owns E pend (w\<lparr>client := u, history := h\<rparr>) = owns E pend w"
  "idle_op E pend (w\<lparr>client := u, history := h\<rparr>) = idle_op E pend w"
  "completions E pend (w\<lparr>client := u, history := h\<rparr>) = completions E pend w"
  "quiet E w0 (w\<lparr>client := u, history := h\<rparr>) = quiet E w0 w"
  "IsRunningOnThisThread t (w\<lparr>client := u, history := h\<rparr>) = IsRunningOnThisThread t w"
  by (simp_all add: view_defs fun_eq_iff completions_def is_completion_eq quiet_def
      IsRunningOnThisThread_def)

lemma release_idle:
  assumes "owns E pend w" and "idle_op E pend w p"
  shows "owns E pend (release p w)" and "completions E pend (release p w) = completions E pend w"
    and "quiet E w (release p w)" and "history (release p w) = history w"
    and "IsRunningOnThisThread t (release p w) = IsRunningOnThisThread t w"
    and "event (release p w) = event w"
proof -
  have "stop_callback w \<noteq> Some p"
    using assms by (auto simp: owns_def ownership_def idle_op_def loose_def new_stop_operation_def)
  then show "owns E pend (release p w)"
    using assms ownership_release [of "heap w" "stop_callback w"]
    by (simp add: view_defs loose_def release_def)
  have "q \<in> set (ready E pend w) \<Longrightarrow> is_completion (release p w) q = is_completion w q" for q
    using assms(2) by (auto simp: is_completion_def release_def idle_op_def loose_def)
  then show "completions E pend (release p w) = completions E pend w"
    unfolding completions_def by (intro filter_cong) (simp_all add: release_def ready_def)
qed (simp_all add: release_def quiet_def alarms_def IsRunningOnThisThread_def)

text \<open>
  A completion is delivered: its receiver gets the current event's flag, once, whether the
  continuation returns or throws.
\<close>

lemma complete_local:
  assumes E: "ext_ok E" and run: "IsRunningOnThisThread t w" and own: "owns E pend w"
    and idle: "idle_op E pend w p" and res: "complete E t p r w = Inr w'"
  shows "owns E pend w' \<and> quiet E w w' \<and> completions E pend w' = completions E pend w \<and>
    acquired (history w') = acquired (history w) \<and>
    delivered (history w') = delivered (history w) @ [(p, ok (event w))]"
proof -
  obtain as threw u where v: "rcv_set_value E r (ok (event w)) (client w) = (as, threw, u)"
    by (cases "rcv_set_value E r (ok (event w)) (client w)")
  define w1 where "w1 = w\<lparr>client := u, history := history w @ [Set_value p (ok (event w))]\<rparr>"
  have w1: "owns E pend w1" "idle_op E pend w1 p" "quiet E w w1" "IsRunningOnThisThread t w1"
    "completions E pend w1 = completions E pend w" "event w1 = event w"
    "acquired (history w1) = acquired (history w)"
    "delivered (history w1) = delivered (history w) @ [(p, ok (event w))]"
    using own idle run by (simp_all add: w1_def)
  show ?thesis
  proof (cases threw)
    case False
    then have "perform_all E t as (release p w1) = Inr w'"
      using res v by (simp add: complete_def w1_def)
    from perform_all_local [OF E _ release_idle(1) [OF w1(1,2)] this]
    have "undisturbed E pend (release p w1) w'"
      using w1(4) by (simp add: release_idle(5) [OF w1(1,2)])
    then show ?thesis
      using release_idle [OF w1(1,2)] w1 unfolding undisturbed_def by (metis quiet_trans)
  next
    case True
    then obtain w2 where w2: "perform_all E t as w1 = Inr w2" "signal_error E t p r w2 = Inr w'"
      using res v by (auto simp: complete_def w1_def split: if_split_asm)
    from perform_all_local [OF E w1(4,1) w2(1)] have u2: "undisturbed E pend w1 w2" .
    obtain as2 u2 where e: "rcv_set_error E r (client w2) = (as2, u2)"
      by (cases "rcv_set_error E r (client w2)")
    define w3 where "w3 = w2\<lparr>client := u2, history := history w2 @ [Set_error p Exception_ptr]\<rparr>"
    have w3: "owns E pend w3" "idle_op E pend w3 p" "quiet E w w3" "IsRunningOnThisThread t w3"
      "completions E pend w3 = completions E pend w"
      "acquired (history w3) = acquired (history w)"
      "delivered (history w3) = delivered (history w) @ [(p, ok (event w))]"
      using u2 w1 quiet_trans [OF w1(3), of w2] quiet_running [of E w1 w2 t]
      by (auto simp: w3_def undisturbed_def)
    have "perform_all E t as2 (release p w3) = Inr w'"
      using w2(2) e by (simp add: signal_error_def w3_def)
    from perform_all_local [OF E _ release_idle(1) [OF w3(1,2)] this]
    have "undisturbed E pend (release p w3) w'"
      using w3(4) by (simp add: release_idle(5) [OF w3(1,2)])
    then show ?thesis
      using release_idle [OF w3(1,2)] w3 unfolding undisturbed_def by (metis quiet_trans)
  qed
qed

lemma owns_pop:
  assumes "owns E (p # pend) w"
  shows "owns E pend w" and "p \<notin># held (ready E pend w) (remote_items E w) (owed E w)"
    and "stop_callback w \<noteq> Some p" and "\<exists>op. heap w p = Some op \<and> execute op \<noteq> None"
    and "typed (heap w)" and "\<not> stopped (heap w) p"
proof -
  have o: "ownership (heap w) (stop_callback w) (p # ready E pend w) (remote_items E w) (owed E w)"
    using assms by (simp add: owns_def ready_def)
  note P = ownership_pop [OF o]
  show "owns E pend w" using P(1) by (simp add: owns_def)
  show "p \<notin># held (ready E pend w) (remote_items E w) (owed E w)"
    "stop_callback w \<noteq> Some p" "\<exists>op. heap w p = Some op \<and> execute op \<noteq> None"
    "\<not> stopped (heap w) p"
    by (fact P)+
  show "typed (heap w)" using o by (simp add: ownership_def)
qed

lemma completions_Cons:
  "completions E (p # pend) w =
     (if is_completion w p then p # completions E pend w else completions E pend w)"
  by (simp add: completions_def ready_def)

text \<open>Changing the storage of an operation that is not ready leaves the completions as they are.\<close>

lemma completions_heap_update:
  assumes "p \<notin> set (ready E pend w)"
  shows "completions E pend (w\<lparr>heap := (heap w)(p \<mapsto> op), completion_queue := cq\<rparr>) = completions E pend w"
    and "completions E pend (w\<lparr>heap := (heap w)(p \<mapsto> op)\<rparr>) = completions E pend w"
  unfolding completions_def using assms
  by (auto simp: ready_def is_completion_eq intro!: filter_cong arg_cong2 [where f = "(@)"])

lemma execute_op_local:
  assumes E: "ext_ok E" and run: "IsRunningOnThisThread t w" and own: "owns E (p # pend) w"
    and del: "delivery E (p # pend) w" and res: "execute_op E t p w = Inr w'"
  shows "owns E pend w' \<and> delivery E pend w' \<and> quiet E w w' \<and>
    completions E pend w' = completions E pend w"
proof -
  note pop = owns_pop [OF own]
  obtain op where op: "heap w p = Some op" using pop(4) by blast
  have ty: "execute op = Some Stop_execute \<longleftrightarrow> is_stop_body (body op)"
    using pop(5) op by (simp add: typed_def)
  have notin: "p \<notin> set (ready E pend w)" using pop(2) by simp
  show ?thesis
  proof (cases "is_completion w p")
    case True
    then obtain s r where b: "execute op = Some OnRequestComplete" "body op = AsyncOperation s r"
      using op ty by (cases "body op") (auto simp: is_completion_def exec_of_def)
    have "complete E t p r w = Inr w'" using res op b by (simp add: execute_op_def)
    moreover have "idle_op E pend w p" using op b pop(2) by (simp add: idle_op_def loose_def)
    ultimately have *: "owns E pend w' \<and> quiet E w w' \<and> completions E pend w' = completions E pend w \<and>
        acquired (history w') = acquired (history w) \<and>
        delivered (history w') = delivered (history w) @ [(p, ok (event w))]"
      using complete_local [OF E run pop(1)] by blast
    have "completions E pend w = []"
      and "acquired (history w) = delivered (history w) @ [(p, ok (event w))]"
      using del True by (auto simp: delivery_def completions_Cons)
    with * show ?thesis by (simp add: delivery_def)
  next
    case False
    then have del': "delivery E pend w" using del by (simp add: delivery_def completions_Cons)
    have "execute op = Some Stop_execute \<and> w' = w\<lparr>heap := (heap w)(p \<mapsto> op\<lparr>body := StopOperation True\<rparr>)\<rparr> \<or>
        \<not> is_stop_body (body op) \<and> StartAsyncRPC E t p w = Inr w'"
      using res op False
      by (auto simp: execute_op_def is_completion_def exec_of_def
          split: option.split_asm exec_fn.split_asm op_body.split_asm)
    then show ?thesis
    proof (elim disjE conjE)
      assume x: "execute op = Some Stop_execute"
        and w': "w' = w\<lparr>heap := (heap w)(p \<mapsto> op\<lparr>body := StopOperation True\<rparr>)\<rparr>"
      have "owns E pend w'"
        using ownership_run_stop [OF pop(1) [unfolded owns_def] pop(2,3) op x]
        by (simp add: w' view_defs)
      moreover have "delivery E pend w'"
        using del' by (simp add: delivery_def w' completions_heap_update [OF notin])
      ultimately show ?thesis
        by (simp add: quiet_def alarms_def w' completions_heap_update [OF notin])
    next
      assume x: "\<not> is_stop_body (body op)" and st: "StartAsyncRPC E t p w = Inr w'"
      obtain cq where
        w': "w' = w\<lparr>heap := (heap w)(p \<mapsto> op\<lparr>execute := Some OnRequestComplete\<rparr>), completion_queue := cq\<rparr>"
        and cq: "cq_tags E cq = add_mset (Some p) (cq_tags E (completion_queue w))"
          "cq_down E cq = cq_down E (completion_queue w)"
        using StartAsyncRPC_Inr [OF E st] op by auto
      have "owns E pend w'"
        using ownership_run_start [OF pop(1) [unfolded owns_def] pop(2,3) op x] cq
        by (simp add: w' view_defs)
      moreover have "delivery E pend w'"
        using del' by (simp add: delivery_def w' completions_heap_update [OF notin])
      ultimately show ?thesis
        using cq by (simp add: quiet_def alarms_def w' completions_heap_update [OF notin])
    qed
  qed
qed

end
