(* ===== verification/Run_Loop.thy ===== *)
theory Run_Loop
  imports Context_Invariant
begin

text \<open>
  The loops of \<^verbatim>\<open>grpc_context.cc\<close> as sequential code: \<^verbatim>\<open>ExecutePendingLocal\<close>, \<^verbatim>\<open>RunImpl\<close> and
  \<^verbatim>\<open>Run\<close>. The library's queues have no termination order of their own and \<^verbatim>\<open>Next\<close> may block, so
  the loops are partial functions into \<open>option\<close>: \<open>None\<close> is a call that does not return. That
  \<^verbatim>\<open>ExecutePendingLocal\<close> always returns is a theorem below. The interleaving of the loop with
  other threads is the subject of \<^verbatim>\<open>Loop_System\<close>.
\<close>

section \<open>Executing the local queue\<close>

text \<open>The inner loop, with the batch \<open>pending\<close> and the number of items processed so far.\<close>

partial_function (option) run_pending ::
  "('q, 'rq, 'cq, 'r, 'u) ext \<Rightarrow> thread \<Rightarrow> 'q \<Rightarrow> nat \<Rightarrow> ('q, 'rq, 'cq, 'r, 'u) world \<Rightarrow>
   (nat \<times> ('q, 'rq, 'cq, 'r, 'u) world) res option" where
  "run_pending E t pending n w =
     (if iq_is_empty E pending then Some (Inr (n, w))
      else case iq_pop_front E pending of (item, pending') \<Rightarrow>
        (case execute_op E t item w of
          Inl e \<Rightarrow> Some (Inl e)
        | Inr w' \<Rightarrow> run_pending E t pending' (Suc n) w'))"

definition ExecutePendingLocal ::
  "('q, 'rq, 'cq, 'r, 'u) ext \<Rightarrow> thread \<Rightarrow> ('q, 'rq, 'cq, 'r, 'u) world \<Rightarrow>
   (nat \<times> ('q, 'rq, 'cq, 'r, 'u) world) res option" where
  "ExecutePendingLocal E t w =
     (if iq_is_empty E (local_queue w) then Some (Inr (0, w))
      else run_pending E t (local_queue w) 0
             (w\<lparr>local_queue := iq_moved_from E (local_queue w)\<rparr>))"

text \<open>The specification: the items of a fixed list, one after the other.\<close>

fun execute_all ::
  "('q, 'rq, 'cq, 'r, 'u) ext \<Rightarrow> thread \<Rightarrow> op_ptr list \<Rightarrow> ('q, 'rq, 'cq, 'r, 'u) world \<Rightarrow>
   ('q, 'rq, 'cq, 'r, 'u) world res" where
  "execute_all E t [] w = Inr w"
| "execute_all E t (p # ps) w = bind_res (execute_op E t p w) (execute_all E t ps)"

lemma run_pending_is_execute_all:
  assumes "ext_ok E"
  shows "run_pending E t q n w =
    Some (bind_res (execute_all E t (iq_items E q) w) (\<lambda>w'. Inr (n + length (iq_items E q), w')))"
proof (induction "iq_items E q" arbitrary: q n w)
  case Nil
  then show ?case
    using assms by (subst run_pending.simps) (simp add: lib_simps flip: Nil)
next
  case (Cons p ps)
  obtain q' where q': "iq_pop_front E q = (p, q')" "iq_items E q' = ps"
    using iq_pop [OF assms, of q p ps] Cons.hyps(2) by auto
  have "\<not> iq_is_empty E q" using Cons.hyps(2) assms by (simp add: lib_simps flip: Cons.hyps(2))
  then show ?case
    using Cons.hyps(1) [of q'] q'
    by (subst run_pending.simps) (simp add: split: sum.split flip: Cons.hyps(2))
qed

section \<open>The run loop\<close>

partial_function (option) run_loop ::
  "('q, 'rq, 'cq, 'r, 'u) ext \<Rightarrow> thread \<Rightarrow> op_ptr \<Rightarrow> ('q, 'rq, 'cq, 'r, 'u) world \<Rightarrow>
   ('q, 'rq, 'cq, 'r, 'u) world res option" where
  "run_loop E t stop_op w =
     (case ExecutePendingLocal E t w of
       None \<Rightarrow> None
     | Some (Inl e) \<Rightarrow> Some (Inl e)
     | Some (Inr (n, w1)) \<Rightarrow>
         if stopped (heap w1) stop_op then Some (Inr w1)
         else
           (case AcquireCompletionQueueItems E (check_remote_queue E w1) of
             None \<Rightarrow> None
           | Some (b, w2) \<Rightarrow> if \<not> b then Some (Inr w2) else run_loop E t stop_op w2))"

declare run_pending.simps [code] run_loop.simps [code]

text \<open>\<^verbatim>\<open>RunImpl\<close>: the scope guard restores the thread's former context when the loop is left.\<close>

definition enter_context ::
  "thread \<Rightarrow> ctx_ref option \<Rightarrow> ('q, 'rq, 'cq, 'r, 'u) world \<Rightarrow> ('q, 'rq, 'cq, 'r, 'u) world" where
  "enter_context t c w = w\<lparr>current_thread_context := (current_thread_context w)(t := c)\<rparr>"

definition RunImpl ::
  "('q, 'rq, 'cq, 'r, 'u) ext \<Rightarrow> thread \<Rightarrow> op_ptr \<Rightarrow> ('q, 'rq, 'cq, 'r, 'u) world \<Rightarrow>
   ('q, 'rq, 'cq, 'r, 'u) world res option" where
  "RunImpl E t stop_op w =
     (let old_context = current_thread_context w t
      in map_option (\<lambda>r. bind_res r (\<lambda>w'. Inr (enter_context t old_context w')))
           (run_loop E t stop_op (enter_context t (Some (this_context w)) w)))"

text \<open>
  \<^verbatim>\<open>Run\<close>: the stop operation lives on the stack while the callback is registered; both go when
  \<^verbatim>\<open>RunImpl\<close> has returned.
\<close>

definition begin_run ::
  "op_ptr \<Rightarrow> ('q, 'rq, 'cq, 'r, 'u) world \<Rightarrow> ('q, 'rq, 'cq, 'r, 'u) world res" where
  "begin_run stop_op w =
     bind_res (place stop_op new_stop_operation w) (\<lambda>w1. Inr (w1\<lparr>stop_callback := Some stop_op\<rparr>))"

definition end_run ::
  "op_ptr \<Rightarrow> ('q, 'rq, 'cq, 'r, 'u) world \<Rightarrow> ('q, 'rq, 'cq, 'r, 'u) world" where
  "end_run stop_op w = release stop_op (w\<lparr>stop_callback := None\<rparr>)"

definition Run ::
  "('q, 'rq, 'cq, 'r, 'u) ext \<Rightarrow> thread \<Rightarrow> op_ptr \<Rightarrow> ('q, 'rq, 'cq, 'r, 'u) world \<Rightarrow>
   ('q, 'rq, 'cq, 'r, 'u) world res option" where
  "Run E t stop_op w =
     (case begin_run stop_op w of
       Inl e \<Rightarrow> Some (Inl e)
     | Inr w1 \<Rightarrow>
         map_option (\<lambda>r. bind_res r (\<lambda>w2. Inr (end_run stop_op w2))) (RunImpl E t stop_op w1))"

section \<open>A batch keeps the invariants\<close>

text \<open>
  Running a whole batch: every completion of the batch is delivered, none is left over.
\<close>

lemma execute_all_local:
  assumes E: "ext_ok E" and run: "IsRunningOnThisThread t w" and own: "owns E ps w"
    and del: "delivery E ps w" and sub: "set (completions E ps w) \<subseteq> set ps"
    and res: "execute_all E t ps w = Inr w'"
  shows "owns E [] w' \<and> delivery E [] w' \<and> quiet E w w' \<and> completions E [] w' = []"
  using run own del sub res
proof (induction ps arbitrary: w)
  case Nil
  then show ?case by simp
next
  case (Cons p ps)
  then obtain w1 where w1: "execute_op E t p w = Inr w1" "execute_all E t ps w1 = Inr w'" by auto
  have one: "owns E ps w1 \<and> delivery E ps w1 \<and> quiet E w w1 \<and> completions E ps w1 = completions E ps w"
    using execute_op_local [OF E Cons.prems(1-3) w1(1)] .
  have "p \<notin> set (ready E ps w)"
    using owns_pop(2) [OF Cons.prems(2)] by simp
  then have "p \<notin> set (completions E ps w)" by (simp add: completions_def)
  moreover have "set (completions E ps w) \<subseteq> insert p (set ps)"
    using Cons.prems(4) by (auto simp: completions_Cons split: if_split_asm)
  ultimately have "set (completions E ps w1) \<subseteq> set ps" using one by auto
  then show ?case
    using Cons.IH [of w1] one w1(2) Cons.prems(1) by (metis quiet_running quiet_trans)
qed

end
