(* ===== verification/Loop_System.thy ===== *)
theory Loop_System
  imports Run_Loop
begin

text \<open>
  The context among threads. One thread may be inside \<^verbatim>\<open>Run\<close>; any other may start operations,
  request a stop or shut the queue down at any moment, and the gRPC runtime makes progress on
  its own. Other contexts may be run on the other threads, which changes the thread-local
  \<^verbatim>\<open>current_thread_context\<close> there. A step is one atomic action of one of them: for the loop, one call
  that touches shared state or one executed item; for a remote thread, the enqueue or the signal of
  \<^verbatim>\<open>ScheduleRemote\<close>.
\<close>

section \<open>States\<close>

text \<open>
  Where the loop's thread is: outside \<^verbatim>\<open>Run\<close>; in \<^verbatim>\<open>Run\<close> with the stop callback registered; at the
  top of the loop; executing a batch; at the test of \<^verbatim>\<open>should_stop\<close>; at the check of the remote
  queue; in \<^verbatim>\<open>AcquireCompletionQueueItems\<close>; or out of \<^verbatim>\<open>Run\<close> because the queue is drained.
\<close>

datatype 'q pc =
    Outside | Registered | Loop_top | Executing 'q | Check_stop | Check_remote | Acquiring | Exited

record ('q, 'rq, 'cq, 'r, 'u) sys =
  wld :: "('q, 'rq, 'cq, 'r, 'u) world"
  pc :: "'q pc"
  run_thread :: thread
  run_stop :: op_ptr
  old_context :: "ctx_ref option"
  signalling :: "thread list"

text \<open>
  \<open>signalling\<close> holds the threads that enqueued on an inactive queue and have not yet set the
  alarm. The first half of a remote \<^verbatim>\<open>start\<close>, and of a stop request from another thread:
\<close>

definition enqueue_from ::
  "('q, 'rq, 'cq, 'r, 'u) ext \<Rightarrow> thread \<Rightarrow> op_ptr \<Rightarrow> ('q, 'rq, 'cq, 'r, 'u) sys \<Rightarrow>
   ('q, 'rq, 'cq, 'r, 'u) world \<Rightarrow> ('q, 'rq, 'cq, 'r, 'u) sys" where
  "enqueue_from E i p s w =
     (let (was_inactive, w') = remote_enqueue E p w
      in s\<lparr>wld := w', signalling := (if was_inactive then i # signalling s else signalling s)\<rparr>)"

definition start_from ::
  "('q, 'rq, 'cq, 'r, 'u) ext \<Rightarrow> thread \<Rightarrow> op_ptr \<Rightarrow> sender \<Rightarrow> 'r \<Rightarrow>
   ('q, 'rq, 'cq, 'r, 'u) sys \<Rightarrow> ('q, 'rq, 'cq, 'r, 'u) sys res" where
  "start_from E i p sd r s =
     bind_res (place p (new_async_operation sd r) (wld s)) (\<lambda>w1.
     bind_res (mark_scheduled p w1) (\<lambda>w2. Inr (enqueue_from E i p s w2)))"

definition leave_run ::
  "('q, 'rq, 'cq, 'r, 'u) sys \<Rightarrow> ('q, 'rq, 'cq, 'r, 'u) world \<Rightarrow> ('q, 'rq, 'cq, 'r, 'u) world" where
  "leave_run s w = end_run (run_stop s) (enter_context (run_thread s) (old_context s) w)"

text \<open>Between the entry of \<^verbatim>\<open>RunImpl\<close> and its end the loop's thread has this context as its own.\<close>

definition in_loop :: "'q pc \<Rightarrow> bool" where
  "in_loop c = (case c of Outside \<Rightarrow> False | Registered \<Rightarrow> False | Exited \<Rightarrow> False | _ \<Rightarrow> True)"

section \<open>Steps\<close>

text \<open>
  Which thread may take the remote branches of \<^verbatim>\<open>start\<close> and of \<^verbatim>\<open>ScheduleImpl\<close>: one that is not in this
  context's loop; or the loop's own thread while an item runs the loop of another context, which
  then is the current one of the thread (\<^verbatim>\<open>Context_Nesting\<close>). A state does not record whether an item does,
  so the steps are more than those of a context alone, and the invariants hold of all of them; the
  moves of \<^verbatim>\<open>Loop_Schedule\<close> always test \<^verbatim>\<open>IsRunningOnThisThread\<close>.
\<close>

definition from_outside :: "thread \<Rightarrow> ('q, 'rq, 'cq, 'r, 'u) sys \<Rightarrow> bool" where
  "from_outside i s \<longleftrightarrow> \<not> IsRunningOnThisThread i (wld s) \<or> i = run_thread s \<and> (\<exists>q. pc s = Executing q)"

inductive loop_step ::
  "('q, 'rq, 'cq, 'r, 'u) ext \<Rightarrow> ('q, 'rq, 'cq, 'r, 'u) sys \<Rightarrow> ('q, 'rq, 'cq, 'r, 'u) sys \<Rightarrow> bool"
  for E where
  remote_start: "i \<notin> set (signalling s) \<Longrightarrow> from_outside i s \<Longrightarrow>
     start_from E i p sd r s = Inr s' \<Longrightarrow> loop_step E s s'"
| remote_stop: "i \<notin> set (signalling s) \<Longrightarrow> from_outside i s \<Longrightarrow>
     stop_callback (wld s) = Some p \<Longrightarrow>
     loop_step E s (enqueue_from E i p s ((wld s)\<lparr>stop_callback := None\<rparr>))"
| remote_signal: "i \<in> set (signalling s) \<Longrightarrow> SignalRemoteQueue E (wld s) = Inr w' \<Longrightarrow>
     loop_step E s (s\<lparr>wld := w', signalling := remove1 i (signalling s)\<rparr>)"
| remote_shutdown: "i \<notin> set (signalling s) \<Longrightarrow> loop_step E s (s\<lparr>wld := ShutDown E (wld s)\<rparr>)"
| grpc_progress: "cq_progress E (completion_queue (wld s)) cq \<Longrightarrow>
     loop_step E s (s\<lparr>wld := (wld s)\<lparr>completion_queue := cq\<rparr>\<rparr>)"
| other_context: "\<not> (in_loop (pc s) \<and> t = run_thread s) \<Longrightarrow> c \<noteq> Some (this_context (wld s)) \<Longrightarrow>
     loop_step E s (s\<lparr>wld := (wld s)\<lparr>current_thread_context := (current_thread_context (wld s))(t := c)\<rparr>\<rparr>)"
| run_enter: "pc s = Outside \<Longrightarrow> t \<notin> set (signalling s) \<Longrightarrow> begin_run p (wld s) = Inr w' \<Longrightarrow>
     loop_step E s (s\<lparr>wld := w', pc := Registered, run_thread := t, run_stop := p\<rparr>)"
| impl_enter: "pc s = Registered \<Longrightarrow> run_thread s \<notin> set (signalling s) \<Longrightarrow>
     loop_step E s (s\<lparr>wld := enter_context (run_thread s) (Some (this_context (wld s))) (wld s),
       pc := Loop_top, old_context := current_thread_context (wld s) (run_thread s)\<rparr>)"
| local_empty: "pc s = Loop_top \<Longrightarrow> iq_is_empty E (local_queue (wld s)) \<Longrightarrow>
     loop_step E s (s\<lparr>pc := Check_stop\<rparr>)"
| local_batch: "pc s = Loop_top \<Longrightarrow> \<not> iq_is_empty E (local_queue (wld s)) \<Longrightarrow>
     loop_step E s (s\<lparr>wld := (wld s)\<lparr>local_queue := iq_moved_from E (local_queue (wld s))\<rparr>,
       pc := Executing (local_queue (wld s))\<rparr>)"
| execute_item: "pc s = Executing q \<Longrightarrow> \<not> iq_is_empty E q \<Longrightarrow> iq_pop_front E q = (p, q') \<Longrightarrow>
     execute_op E (run_thread s) p (wld s) = Inr w' \<Longrightarrow>
     loop_step E s (s\<lparr>wld := w', pc := Executing q'\<rparr>)"
| batch_done: "pc s = Executing q \<Longrightarrow> iq_is_empty E q \<Longrightarrow> loop_step E s (s\<lparr>pc := Check_stop\<rparr>)"
| stop: "pc s = Check_stop \<Longrightarrow> stopped (heap (wld s)) (run_stop s) \<Longrightarrow>
     loop_step E s (s\<lparr>wld := leave_run s (wld s), pc := Outside\<rparr>)"
| go_on: "pc s = Check_stop \<Longrightarrow> \<not> stopped (heap (wld s)) (run_stop s) \<Longrightarrow>
     loop_step E s (s\<lparr>pc := Check_remote\<rparr>)"
| poll: "pc s = Check_remote \<Longrightarrow>
     loop_step E s (s\<lparr>wld := check_remote_queue E (wld s), pc := Acquiring\<rparr>)"
| acquire: "pc s = Acquiring \<Longrightarrow> AcquireCompletionQueueItems E (wld s) = Some (True, w') \<Longrightarrow>
     loop_step E s (s\<lparr>wld := w', pc := Loop_top\<rparr>)"
| drained: "pc s = Acquiring \<Longrightarrow> AcquireCompletionQueueItems E (wld s) = Some (False, w') \<Longrightarrow>
     loop_step E s (s\<lparr>wld := leave_run s w', pc := Exited\<rparr>)"

text \<open>
  Executions start with a new context on whose completion queue nothing is outstanding, and
  that no thread runs, right after the first remote start: the clients of the repository start
  an operation before they call \<^verbatim>\<open>Run\<close>. (\<^verbatim>\<open>fresh_poll_outside_contract\<close> shows what happens
  otherwise.)
\<close>

definition new_context :: "('q, 'rq, 'cq, 'r, 'u) ext \<Rightarrow> ('q, 'rq, 'cq, 'r, 'u) world \<Rightarrow> bool" where
  "new_context E w \<longleftrightarrow> (\<exists>this tls cq u. w = GrpcContext_new E this tls cq u \<and>
     cq_tags E cq = {#} \<and> (\<forall>t. tls t \<noteq> Some this))"

definition fresh_sys :: "('q, 'rq, 'cq, 'r, 'u) world \<Rightarrow> ('q, 'rq, 'cq, 'r, 'u) sys" where
  "fresh_sys w = \<lparr>wld = w, pc = Outside, run_thread = 0, run_stop = 0, old_context = None,
     signalling = []\<rparr>"

definition start_sys :: "('q, 'rq, 'cq, 'r, 'u) ext \<Rightarrow> ('q, 'rq, 'cq, 'r, 'u) sys \<Rightarrow> bool" where
  "start_sys E s \<longleftrightarrow> (\<exists>w i p sd r. new_context E w \<and> start_from E i p sd r (fresh_sys w) = Inr s)"

definition reachable :: "('q, 'rq, 'cq, 'r, 'u) ext \<Rightarrow> ('q, 'rq, 'cq, 'r, 'u) sys \<Rightarrow> bool" where
  "reachable E s \<longleftrightarrow> (\<exists>s0. start_sys E s0 \<and> (loop_step E)\<^sup>*\<^sup>* s0 s)"

section \<open>The invariant\<close>

definition batch :: "('q, 'rq, 'cq, 'r, 'u) ext \<Rightarrow> ('q, 'rq, 'cq, 'r, 'u) sys \<Rightarrow> op_ptr list" where
  "batch E s = (case pc s of Executing q \<Rightarrow> iq_items E q | _ \<Rightarrow> [])"

text \<open>The completion that waits, if any, is in the batch or about to be.\<close>

definition waiting_place :: "('q, 'rq, 'cq, 'r, 'u) ext \<Rightarrow> ('q, 'rq, 'cq, 'r, 'u) sys \<Rightarrow> bool" where
  "waiting_place E s \<longleftrightarrow>
     (case pc s of
       Loop_top \<Rightarrow> True
     | Executing q \<Rightarrow> set (completions E (batch E s) (wld s)) \<subseteq> set (iq_items E q)
     | _ \<Rightarrow> completions E (batch E s) (wld s) = [])"

definition runs_alone :: "('q, 'rq, 'cq, 'r, 'u) sys \<Rightarrow> bool" where
  "runs_alone s \<longleftrightarrow>
     (\<forall>t. IsRunningOnThisThread t (wld s) \<longleftrightarrow> in_loop (pc s) \<and> t = run_thread s) \<and>
     (if in_loop (pc s) then old_context s \<noteq> Some (this_context (wld s)) else True) \<and>
     (case stop_callback (wld s) of None \<Rightarrow> True | Some p \<Rightarrow> pc s \<noteq> Outside \<and> p = run_stop s)"

text \<open>
  The wake-up protocol. A wake-up is under way while a thread is about to set the alarm or the
  alarm is pending; there is never more than one. With an inactive queue the loop has nothing to
  read and waits for a wake-up that will come with the next item; with an active one it either
  has the read flag set, and then items are there and a wake-up is under way, or it will poll by
  itself. The first wake-up is special: the queue starts inactive with the read flag clear, so
  the loop polls before the event of the first item arrives (\<open>starting\<close>), and nothing else can
  arrive before it.
\<close>

definition wakeups :: "('q, 'rq, 'cq, 'r, 'u) ext \<Rightarrow> ('q, 'rq, 'cq, 'r, 'u) sys \<Rightarrow> nat" where
  "wakeups E s = length (signalling s) + alarms E (wld s)"

definition starting ::
  "('q, 'rq, 'cq, 'r, 'u) ext \<Rightarrow> ('q, 'rq, 'cq, 'r, 'u) sys \<Rightarrow> bool" where
  "starting E s \<longleftrightarrow> owed E (wld s) = {#} \<and>
     (case pc s of
       Acquiring \<Rightarrow> True
     | Executing q \<Rightarrow> False
     | _ \<Rightarrow> iq_items E (local_queue (wld s)) = [] \<and> remote_items E (wld s) \<noteq> [])"

definition wakeup_inv :: "('q, 'rq, 'cq, 'r, 'u) ext \<Rightarrow> ('q, 'rq, 'cq, 'r, 'u) sys \<Rightarrow> bool" where
  "wakeup_inv E s \<longleftrightarrow>
     (case aiq_view E (remote_queue (wld s)) of
       Inactive \<Rightarrow> remote_queue_read_submitted (wld s) \<and> wakeups E s = 0
     | Active xs \<Rightarrow>
         if remote_queue_read_submitted (wld s) then xs \<noteq> [] \<and> wakeups E s = 1
         else wakeups E s = 0 \<or> wakeups E s = 1 \<and> starting E s)"

definition loop_inv :: "('q, 'rq, 'cq, 'r, 'u) ext \<Rightarrow> ('q, 'rq, 'cq, 'r, 'u) sys \<Rightarrow> bool" where
  "loop_inv E s \<longleftrightarrow> pc s \<noteq> Exited \<longrightarrow>
     owns E (batch E s) (wld s) \<and> delivery E (batch E s) (wld s) \<and> waiting_place E s \<and>
     runs_alone s \<and> wakeup_inv E s"

end
