(* ===== verification/Loop_Invariant.thy ===== *)
theory Loop_Invariant
  imports Loop_System
begin

text \<open>
  Every step of the system keeps \<open>loop_inv\<close>: one lemma per group of rules, then the
  interpretation of the invariant locale on the context's step relation.
\<close>

section \<open>Access\<close>

lemma loop_invD:
  assumes "loop_inv E s" and "pc s \<noteq> Exited"
  shows "owns E (batch E s) (wld s)" and "delivery E (batch E s) (wld s)" and "waiting_place E s"
    and "runs_alone s" and "wakeup_inv E s"
  using assms by (simp_all add: loop_inv_def)

lemma loop_invI:
  "owns E (batch E s) (wld s) \<Longrightarrow> delivery E (batch E s) (wld s) \<Longrightarrow> waiting_place E s \<Longrightarrow>
   runs_alone s \<Longrightarrow> wakeup_inv E s \<Longrightarrow> loop_inv E s"
  by (simp add: loop_inv_def)

text \<open>A step that moves only the program counter keeps what depends on the batch alone.\<close>

lemma delivery_cong:
  assumes "completions E b w' = completions E b' w" and "history w' = history w" and "event w' = event w"
  shows "delivery E b w' = delivery E b' w"
  using assms by (simp add: delivery_def)

text \<open>What the wake-up protocol reads.\<close>

lemma wakeup_inv_cong:
  assumes "wakeup_inv E s" and "remote_queue (wld s') = remote_queue (wld s)"
    and "remote_queue_read_submitted (wld s') = remote_queue_read_submitted (wld s)"
    and "wakeups E s' = wakeups E s" and "starting E s \<Longrightarrow> starting E s'"
  shows "wakeup_inv E s'"
  using assms by (auto simp: wakeup_inv_def split: queue_view.splits if_splits)

section \<open>Remote threads\<close>

lemma remote_enqueue_effect:
  assumes "ext_ok E" and "remote_enqueue E p w = (b, w')"
  shows "\<exists>rq. w' = w\<lparr>remote_queue := rq\<rparr> \<and>
    aiq_view E rq = Active (remote_items E w @ [p]) \<and> (b \<longleftrightarrow> aiq_view E (remote_queue w) = Inactive)"
proof (cases "aiq_view E (remote_queue w)")
  case Inactive
  with aiq_enqueue_inactive [OF assms(1) Inactive, of p] assms(2) show ?thesis
    by (auto simp: remote_enqueue_def remote_items_def)
next
  case (Active xs)
  with aiq_enqueue_active [OF assms(1) Active, of p] assms(2) show ?thesis
    by (auto simp: remote_enqueue_def remote_items_def)
qed

lemma enqueue_from_inv:
  assumes E: "ext_ok E" and inv: "loop_inv E s" and pc: "pc s \<noteq> Exited"
    and w1: "w1 = (wld s)\<lparr>heap := H, stop_callback := sc\<rparr>"
    and own: "ownership H sc (ready E (batch E s) (wld s)) (remote_items E (wld s) @ [p])
      (owed E (wld s))"
    and same: "\<And>q. q \<in> set (ready E (batch E s) (wld s)) \<Longrightarrow>
      exec_of H q = exec_of (heap (wld s)) q"
    and sc: "sc = stop_callback (wld s) \<or> sc = None"
  shows "loop_inv E (enqueue_from E i p s w1)"
proof -
  obtain b w2 where bw: "remote_enqueue E p w1 = (b, w2)" by (cases "remote_enqueue E p w1")
  from remote_enqueue_effect [OF E this] obtain rq where
    w2: "w2 = (wld s)\<lparr>heap := H, stop_callback := sc, remote_queue := rq\<rparr>" and
    rq: "aiq_view E rq = Active (remote_items E (wld s) @ [p])" and
    b: "b \<longleftrightarrow> aiq_view E (remote_queue (wld s)) = Inactive"
    by (auto simp: w1 remote_items_def)
  let ?s = "enqueue_from E i p s w1"
  have s: "?s = s\<lparr>wld := w2, signalling := (if b then i # signalling s else signalling s)\<rparr>"
    by (simp add: enqueue_from_def bw)
  have bt: "batch E ?s = batch E s" by (simp add: s batch_def)
  have rd: "ready E (batch E s) w2 = ready E (batch E s) (wld s)" by (simp add: w2 ready_def)
  have rm: "remote_items E w2 = remote_items E (wld s) @ [p]" using rq by (simp add: w2 remote_items_def)
  have comp: "completions E (batch E s) w2 = completions E (batch E s) (wld s)"
    unfolding completions_def rd using same
    by (intro filter_cong) (simp_all add: is_completion_def w2)
  have "owns E (batch E ?s) (wld ?s)"
    unfolding bt using own by (simp add: s owns_def rd rm) (simp add: w2 owed_def)
  moreover have "delivery E (batch E ?s) (wld ?s)"
    unfolding bt using loop_invD(2) [OF inv pc]
    by (simp add: s) (simp add: delivery_def comp, simp add: w2)
  moreover have "waiting_place E ?s"
    using loop_invD(3) [OF inv pc] comp bt
    by (simp add: s waiting_place_def batch_def split: pc.splits)
  moreover have "runs_alone ?s"
    using loop_invD(4) [OF inv pc] sc
    by (auto simp: s w2 runs_alone_def IsRunningOnThisThread_def split: option.splits)
  moreover have "wakeup_inv E ?s"
  proof -
    have "starting E s \<Longrightarrow> starting E ?s"
      using rm by (auto simp: s starting_def split: pc.splits) (auto simp: w2 owed_def)
    then show ?thesis
      using loop_invD(5) [OF inv pc] b rq
      by (auto simp: s w2 wakeup_inv_def wakeups_def alarms_def split: queue_view.splits if_split_asm)
  qed
  ultimately show ?thesis by (rule loop_invI)
qed

lemma start_from_effect:
  assumes "start_from E i p sd r s = Inr s'"
  shows "heap (wld s) p = None \<and>
    s' = enqueue_from E i p s ((wld s)\<lparr>heap := (heap (wld s))(p \<mapsto>
      \<lparr>execute = Some OnScheduleComplete, body = AsyncOperation sd r\<rparr>)\<rparr>)"
  using assms
  by (auto simp: start_from_def place_def mark_scheduled_def new_async_operation_def split: if_split_asm)

lemma remote_start_inv:
  assumes E: "ext_ok E" and inv: "loop_inv E s" and pc: "pc s \<noteq> Exited"
    and st: "start_from E i p sd r s = Inr s'"
  shows "loop_inv E s'"
proof -
  let ?op = "\<lparr>execute = Some OnScheduleComplete, body = AsyncOperation sd r\<rparr>"
  have free: "heap (wld s) p = None"
    and s': "s' = enqueue_from E i p s ((wld s)\<lparr>heap := (heap (wld s))(p \<mapsto> ?op)\<rparr>)"
    using start_from_effect [OF st] by simp_all
  note own = loop_invD(1) [OF inv pc, unfolded owns_def]
  have "p \<notin> set (ready E (batch E s) (wld s))"
    using ownership_fresh(1) [OF own free] by simp
  then show ?thesis
    unfolding s' using ownership_start_remote [OF own free, of ?op]
    by (intro enqueue_from_inv [OF E inv pc, where sc = "stop_callback (wld s)"
          and H = "(heap (wld s))(p \<mapsto> ?op)"]) auto
qed

lemma remote_stop_inv:
  assumes E: "ext_ok E" and inv: "loop_inv E s" and pc: "pc s \<noteq> Exited"
    and sc: "stop_callback (wld s) = Some p"
  shows "loop_inv E (enqueue_from E i p s ((wld s)\<lparr>stop_callback := None\<rparr>))"
proof (rule enqueue_from_inv [OF E inv pc])
  show "(wld s)\<lparr>stop_callback := None\<rparr> = (wld s)\<lparr>heap := heap (wld s), stop_callback := None\<rparr>"
    by simp
  show "ownership (heap (wld s)) None (ready E (batch E s) (wld s)) (remote_items E (wld s) @ [p])
      (owed E (wld s))"
    using loop_invD(1) [OF inv pc] sc by (simp add: owns_def ownership_stop_remote)
qed simp_all

text \<open>Steps that change the completion queue only, and keep what it owes.\<close>

lemma queue_change_inv:
  assumes inv: "loop_inv E s" and pc: "pc s \<noteq> Exited"
    and tags: "op_tags (cq_tags E cq) = owed E (wld s)"
    and n: "length sg + count (cq_tags E cq) None = wakeups E s"
  shows "loop_inv E (s\<lparr>wld := (wld s)\<lparr>completion_queue := cq\<rparr>, signalling := sg\<rparr>)"
proof -
  let ?s = "s\<lparr>wld := (wld s)\<lparr>completion_queue := cq\<rparr>, signalling := sg\<rparr>"
  have bt: "batch E ?s = batch E s" by (simp add: batch_def)
  have comp: "completions E b (wld ?s) = completions E b (wld s)" for b
    by (simp add: completions_def is_completion_eq ready_def)
  have "owns E (batch E ?s) (wld ?s)"
    using loop_invD(1) [OF inv pc] tags by (simp add: bt owns_def ready_def remote_items_def owed_def)
  moreover have "delivery E (batch E ?s) (wld ?s)"
    using loop_invD(2) [OF inv pc] comp by (simp add: bt delivery_def)
  moreover have "waiting_place E ?s"
    using loop_invD(3) [OF inv pc] comp by (simp add: bt waiting_place_def split: pc.splits)
  moreover have "runs_alone ?s"
    using loop_invD(4) [OF inv pc]
    by (simp add: runs_alone_def IsRunningOnThisThread_def split: option.splits)
  moreover have "wakeup_inv E ?s"
  proof -
    have "starting E ?s = starting E s"
      using tags by (simp add: starting_def owed_def remote_items_def split: pc.splits)
    moreover have "wakeups E ?s = wakeups E s" using n by (simp add: wakeups_def alarms_def)
    ultimately show ?thesis
      by (intro wakeup_inv_cong [OF loop_invD(5) [OF inv pc]]) simp_all
  qed
  ultimately show ?thesis by (rule loop_invI)
qed

lemma remote_signal_inv:
  assumes E: "ext_ok E" and inv: "loop_inv E s" and pc: "pc s \<noteq> Exited"
    and i: "i \<in> set (signalling s)" and sg: "SignalRemoteQueue E (wld s) = Inr w'"
  shows "loop_inv E (s\<lparr>wld := w', signalling := remove1 i (signalling s)\<rparr>)"
proof -
  obtain cq where cq: "cq_alarm_set E (completion_queue (wld s)) None = Some cq"
    and w': "w' = (wld s)\<lparr>completion_queue := cq\<rparr>"
    using sg by (auto simp: SignalRemoteQueue_def split: option.split_asm)
  have "0 < length (signalling s)" using i by (auto simp: length_pos_if_in_set)
  then show ?thesis
    unfolding w' using cq_alarm_setD [OF E cq] i
    by (intro queue_change_inv [OF inv pc]) (simp_all add: owed_def wakeups_def alarms_def length_remove1)
qed

lemma queue_only_inv:
  assumes inv: "loop_inv E s" and pc: "pc s \<noteq> Exited"
    and "cq_tags E cq = cq_tags E (completion_queue (wld s))"
  shows "loop_inv E (s\<lparr>wld := (wld s)\<lparr>completion_queue := cq\<rparr>\<rparr>)"
  using queue_change_inv [OF inv pc, of cq "signalling s"] assms(3)
  by (simp add: owed_def wakeups_def alarms_def)

section \<open>Entering and leaving \<^verbatim>\<open>Run\<close>\<close>

lemma run_enter_inv:
  assumes inv: "loop_inv E s" and pc: "pc s = Outside" and br: "begin_run p (wld s) = Inr w'"
  shows "loop_inv E (s\<lparr>wld := w', pc := Registered, run_thread := t, run_stop := p\<rparr>)"
    (is "loop_inv E ?s")
proof -
  have pcE: "pc s \<noteq> Exited" using pc by simp
  note D = loop_invD [OF inv pcE]
  have free: "heap (wld s) p = None"
    and w': "w' = (wld s)\<lparr>heap := (heap (wld s))(p \<mapsto> new_stop_operation), stop_callback := Some p\<rparr>"
    using br by (auto simp: begin_run_def place_def split: if_split_asm)
  have bt: "batch E ?s = []" "batch E s = []" by (simp_all add: batch_def pc)
  have sc: "stop_callback (wld s) = None"
    using D(4) pc by (auto simp: runs_alone_def split: option.splits)
  have own: "ownership (heap (wld s)) None (ready E [] (wld s)) (remote_items E (wld s)) (owed E (wld s))"
    using D(1) sc by (simp add: bt owns_def)
  have "owns E (batch E ?s) (wld ?s)"
    using ownership_register [OF own free] unfolding bt
    by (simp add: owns_def w' ready_def remote_items_def owed_def)
  moreover have comp: "completions E [] w' = []"
  proof -
    have "completions E [] (wld s) = []" using D(3) by (simp add: waiting_place_def pc bt)
    moreover have "p \<notin> set (ready E [] (wld s))" using ownership_fresh(1) [OF own free] by simp
    ultimately show ?thesis
      by (auto simp: completions_def filter_empty_conv is_completion_def w' ready_def)
  qed
  moreover have "delivery E (batch E ?s) (wld ?s)"
    using D(2,3) comp unfolding bt
    by (simp add: delivery_def waiting_place_def pc bt(2)) (simp add: w')
  moreover have "waiting_place E ?s" using comp by (simp add: waiting_place_def bt)
  moreover have "runs_alone ?s"
    using D(4) by (simp add: runs_alone_def pc in_loop_def w' IsRunningOnThisThread_def)
  moreover have "wakeup_inv E ?s"
    by (rule wakeup_inv_cong [OF D(5)]) (simp_all add: wakeups_def alarms_def starting_def pc owed_def
        remote_items_def lib_simps w')
  ultimately show ?thesis by (simp add: loop_invI)
qed

lemma impl_enter_inv:
  assumes inv: "loop_inv E s" and pc: "pc s = Registered"
  shows "loop_inv E (s\<lparr>wld := enter_context (run_thread s) (Some (this_context (wld s))) (wld s),
    pc := Loop_top, old_context := current_thread_context (wld s) (run_thread s)\<rparr>)"
    (is "loop_inv E ?s")
proof -
  have pcE: "pc s \<noteq> Exited" using pc by simp
  note D = loop_invD [OF inv pcE]
  have bt: "batch E ?s = []" "batch E s = []" by (simp_all add: batch_def pc)
  have "owns E (batch E ?s) (wld ?s)"
    using D(1) unfolding bt by (simp add: owns_def ready_def remote_items_def owed_def enter_context_def)
  moreover have "delivery E (batch E ?s) (wld ?s)"
    using D(2) unfolding bt by (simp add: delivery_def completions_def is_completion_eq ready_def enter_context_def)
  moreover have "waiting_place E ?s" by (simp add: waiting_place_def)
  moreover have "runs_alone ?s"
    using D(4) by (auto simp: runs_alone_def pc in_loop_def enter_context_def
        IsRunningOnThisThread_def split: option.splits)
  moreover have "wakeup_inv E ?s"
    by (rule wakeup_inv_cong [OF D(5)]) (simp_all add: wakeups_def alarms_def starting_def pc owed_def
        remote_items_def lib_simps enter_context_def)
  ultimately show ?thesis by (rule loop_invI)
qed

lemma stop_inv:
  assumes inv: "loop_inv E s" and pc: "pc s = Check_stop"
    and st: "stopped (heap (wld s)) (run_stop s)"
  shows "loop_inv E (s\<lparr>wld := leave_run s (wld s), pc := Outside\<rparr>)"
    (is "loop_inv E ?s")
proof -
  have pcE: "pc s \<noteq> Exited" using pc by simp
  note D = loop_invD [OF inv pcE]
  let ?w = "leave_run s (wld s)"
  have bt: "batch E ?s = []" "batch E s = []" by (simp_all add: batch_def pc)
  have w: "?w = (wld s)\<lparr>current_thread_context :=
      (current_thread_context (wld s))(run_thread s := old_context s),
      stop_callback := None, heap := (heap (wld s))(run_stop s := None)\<rparr>"
    by (simp add: leave_run_def end_run_def enter_context_def release_def)
  have sc: "stop_callback (wld s) = None \<or> stop_callback (wld s) = Some (run_stop s)"
    using D(4) by (auto simp: runs_alone_def split: option.splits)
  have own: "ownership (heap (wld s)) (stop_callback (wld s)) (ready E [] (wld s))
      (remote_items E (wld s)) (owed E (wld s))"
    using D(1) by (simp add: bt owns_def)
  have nh: "run_stop s \<notin># held (ready E [] (wld s)) (remote_items E (wld s)) (owed E (wld s))"
    using own st by (simp add: ownership_def)
  have "owns E (batch E ?s) (wld ?s)"
    using ownership_deregister [OF own nh sc] unfolding bt
    by (simp add: owns_def w ready_def remote_items_def owed_def)
  moreover have comp: "completions E [] ?w = []"
  proof -
    have "completions E [] (wld s) = []" using D(3) by (simp add: waiting_place_def pc bt)
    then show ?thesis
      by (auto simp: completions_def filter_empty_conv is_completion_def w ready_def)
  qed
  moreover have "delivery E (batch E ?s) (wld ?s)"
    using D(2,3) comp unfolding bt
    by (simp add: delivery_def waiting_place_def pc bt(2)) (simp add: w)
  moreover have "waiting_place E ?s" using comp by (simp add: waiting_place_def bt)
  moreover have "runs_alone ?s"
    using D(4) by (simp add: runs_alone_def pc in_loop_def w IsRunningOnThisThread_def)
  moreover have "wakeup_inv E ?s"
    by (rule wakeup_inv_cong [OF D(5)]) (simp_all add: wakeups_def alarms_def starting_def pc owed_def
        remote_items_def lib_simps w)
  ultimately show ?thesis by (simp add: loop_invI)
qed

section \<open>The loop\<close>

text \<open>Steps between the places of the loop that change nothing else.\<close>

lemma move_pc_inv:
  assumes inv: "loop_inv E s" and pcE: "pc s \<noteq> Exited" and il: "in_loop (pc s)" and il': "in_loop c"
    and bt: "batch E (s\<lparr>pc := c\<rparr>) = batch E s"
    and wp: "waiting_place E (s\<lparr>pc := c\<rparr>)"
    and st: "starting E s \<Longrightarrow> starting E (s\<lparr>pc := c\<rparr>)"
  shows "loop_inv E (s\<lparr>pc := c\<rparr>)"
proof -
  note D = loop_invD [OF inv pcE]
  have "runs_alone (s\<lparr>pc := c\<rparr>)"
    using D(4) il il' by (auto simp: runs_alone_def in_loop_def split: option.splits pc.splits)
  moreover have "wakeup_inv E (s\<lparr>pc := c\<rparr>)"
    using D(5) st by (auto simp: wakeup_inv_def wakeups_def split: queue_view.splits if_splits)
  ultimately show ?thesis
    using D(1,2) bt wp by (intro loop_invI) simp_all
qed

lemma local_empty_inv:
  assumes E: "ext_ok E" and inv: "loop_inv E s" and pc: "pc s = Loop_top"
    and em: "iq_is_empty E (local_queue (wld s))"
  shows "loop_inv E (s\<lparr>pc := Check_stop\<rparr>)"
  using em E
  by (intro move_pc_inv [OF inv])
    (simp_all add: pc in_loop_def batch_def waiting_place_def completions_def ready_def lib_simps
      starting_def)

lemma batch_done_inv:
  assumes E: "ext_ok E" and inv: "loop_inv E s" and pc: "pc s = Executing q"
    and em: "iq_is_empty E q"
  shows "loop_inv E (s\<lparr>pc := Check_stop\<rparr>)"
  using em E loop_invD(3) [OF inv]
  by (intro move_pc_inv [OF inv])
    (simp_all add: pc in_loop_def batch_def waiting_place_def lib_simps starting_def)

lemma go_on_inv:
  assumes inv: "loop_inv E s" and pc: "pc s = Check_stop"
  shows "loop_inv E (s\<lparr>pc := Check_remote\<rparr>)"
  using loop_invD(3) [OF inv]
  by (intro move_pc_inv [OF inv])
    (simp_all add: pc in_loop_def batch_def waiting_place_def starting_def)

lemma local_batch_inv:
  assumes E: "ext_ok E" and inv: "loop_inv E s" and pc: "pc s = Loop_top"
    and ne: "\<not> iq_is_empty E (local_queue (wld s))"
  shows "loop_inv E (s\<lparr>wld := (wld s)\<lparr>local_queue := iq_moved_from E (local_queue (wld s))\<rparr>,
    pc := Executing (local_queue (wld s))\<rparr>)"
    (is "loop_inv E ?s")
proof -
  have pcE: "pc s \<noteq> Exited" using pc by simp
  note D = loop_invD [OF inv pcE]
  let ?q = "local_queue (wld s)"
  have bt: "batch E ?s = iq_items E ?q" "batch E s = []" by (simp_all add: batch_def pc)
  have rd: "ready E (iq_items E ?q) (wld ?s) = ready E [] (wld s)"
    using E by (simp add: ready_def lib_simps)
  have comp: "completions E (iq_items E ?q) (wld ?s) = completions E [] (wld s)"
    by (simp only: completions_def rd) (simp add: is_completion_eq)
  have "owns E (batch E ?s) (wld ?s)"
    using D(1) rd unfolding bt by (simp add: owns_def remote_items_def owed_def)
  moreover have "delivery E (batch E ?s) (wld ?s)"
    using D(2) comp unfolding bt by (simp add: delivery_def)
  moreover have "waiting_place E ?s"
    using comp by (simp add: waiting_place_def bt) (simp add: completions_def ready_def)
  moreover have "runs_alone ?s"
    using D(4) by (auto simp: runs_alone_def pc in_loop_def IsRunningOnThisThread_def split: option.splits)
  moreover have "wakeup_inv E ?s"
    by (rule wakeup_inv_cong [OF D(5)]) (use ne E in \<open>simp_all add: wakeups_def alarms_def starting_def pc owed_def
        remote_items_def lib_simps\<close>)
  ultimately show ?thesis by (rule loop_invI)
qed

lemma execute_item_inv:
  assumes E: "ext_ok E" and inv: "loop_inv E s" and pc: "pc s = Executing q"
    and ne: "\<not> iq_is_empty E q" and pop: "iq_pop_front E q = (p, q')"
    and ex: "execute_op E (run_thread s) p (wld s) = Inr w'"
  shows "loop_inv E (s\<lparr>wld := w', pc := Executing q'\<rparr>)"
    (is "loop_inv E ?s")
proof -
  have pcE: "pc s \<noteq> Exited" using pc by simp
  note D = loop_invD [OF inv pcE]
  obtain x xs where "iq_items E q = x # xs" using ne E by (cases "iq_items E q") (auto simp: lib_simps)
  with iq_pop [OF E this] pop have q: "iq_items E q = p # iq_items E q'" by simp
  let ?ps = "iq_items E q'"
  have bt: "batch E ?s = ?ps" "batch E s = p # ?ps" by (simp_all add: batch_def pc q)
  have run: "IsRunningOnThisThread (run_thread s) (wld s)"
    using D(4) by (simp add: runs_alone_def pc in_loop_def)
  have one: "owns E ?ps w'" "delivery E ?ps w'" "quiet E (wld s) w'"
    "completions E ?ps w' = completions E ?ps (wld s)"
    using execute_op_local [OF E run _ _ ex] D(1,2) by (simp_all add: bt)
  have "p \<notin> set (ready E ?ps (wld s))"
    using owns_pop(2) D(1) unfolding bt by (metis in_held)
  then have "p \<notin> set (completions E ?ps (wld s))" by (simp add: completions_def)
  moreover have "set (completions E ?ps (wld s)) \<subseteq> insert p (set ?ps)"
    using D(3) by (auto simp: waiting_place_def pc bt q completions_Cons split: if_split_asm)
  ultimately have "waiting_place E ?s"
    using one(4) by (auto simp: waiting_place_def bt)
  moreover have "runs_alone ?s"
    using D(4) one(3)
    by (auto simp: runs_alone_def pc in_loop_def quiet_def IsRunningOnThisThread_def split: option.splits)
  moreover have "wakeup_inv E ?s"
    using one(3)
    by (intro wakeup_inv_cong [OF D(5)]) (simp_all add: wakeups_def quiet_def starting_def pc)
  ultimately show ?thesis using one(1,2) by (intro loop_invI) (simp_all only: bt, simp_all)
qed

text \<open>
  The check of the remote queue. When the read flag is clear the queue is active, so the call is
  within the library's contract.
\<close>

lemma unread_is_active:
  assumes "wakeup_inv E s" and "\<not> remote_queue_read_submitted (wld s)"
  shows "\<exists>xs. aiq_view E (remote_queue (wld s)) = Active xs"
  using assms by (auto simp: wakeup_inv_def split: queue_view.splits)

lemma check_remote_effect:
  assumes E: "ext_ok E" and r: "\<not> remote_queue_read_submitted w"
    and v: "aiq_view E (remote_queue w) = Active xs"
  shows "\<exists>rq lq. check_remote_queue E w =
      w\<lparr>remote_queue := rq, local_queue := lq, remote_queue_read_submitted := (xs = [])\<rparr> \<and>
    aiq_view E rq = (if xs = [] then Inactive else Active []) \<and>
    iq_items E lq = iq_items E (local_queue w) @ xs"
proof -
  obtain q rq where q: "aiq_try_mark_inactive_or_dequeue_all E (remote_queue w) = (q, rq)"
    "iq_items E q = xs" "aiq_view E rq = (if xs = [] then Inactive else Active [])"
    using aiq_try [OF E v] by auto
  let ?lq = "if xs = [] then local_queue w else iq_append E (local_queue w) q"
  have "check_remote_queue E w =
      w\<lparr>remote_queue := rq, local_queue := ?lq, remote_queue_read_submitted := (xs = [])\<rparr>"
    using q r E by (auto simp: check_remote_queue_def TryScheduleRemoteQueuedItems_def
        ScheduleLocal_queue_def lib_simps)
  moreover have "iq_items E ?lq = iq_items E (local_queue w) @ xs"
    using q E by (simp add: lib_simps)
  ultimately show ?thesis using q(3) by blast
qed

lemma poll_inv:
  assumes E: "ext_ok E" and inv: "loop_inv E s" and pc: "pc s = Check_remote"
  shows "loop_inv E (s\<lparr>wld := check_remote_queue E (wld s), pc := Acquiring\<rparr>)"
    (is "loop_inv E ?s")
proof (cases "remote_queue_read_submitted (wld s)")
  case True
  then have "?s = s\<lparr>pc := Acquiring\<rparr>" by (simp add: check_remote_queue_def)
  then show ?thesis using loop_invD(3) [OF inv] pc
    by (simp only:) (intro move_pc_inv [OF inv];
      simp add: pc in_loop_def batch_def waiting_place_def starting_def)
next
  case False
  have pcE: "pc s \<noteq> Exited" using pc by simp
  note D = loop_invD [OF inv pcE]
  obtain xs where v: "aiq_view E (remote_queue (wld s)) = Active xs"
    using unread_is_active [OF D(5) False] by blast
  obtain rq lq where w': "check_remote_queue E (wld s) = (wld s)\<lparr>remote_queue := rq,
      local_queue := lq, remote_queue_read_submitted := (xs = [])\<rparr>"
    and rq: "aiq_view E rq = (if xs = [] then Inactive else Active [])"
    and lq: "iq_items E lq = iq_items E (local_queue (wld s)) @ xs"
    using check_remote_effect [OF E False v] by blast
  have bt: "batch E ?s = []" "batch E s = []" by (simp_all add: batch_def pc)
  have rm: "remote_items E (wld s) = xs" "remote_items E (wld ?s) = []"
    using v rq by (simp_all add: remote_items_def w')
  have rd: "ready E [] (wld ?s) = ready E [] (wld s) @ xs"
    using lq by (simp add: ready_def w')
  have own: "ownership (heap (wld s)) (stop_callback (wld s)) (ready E [] (wld s)) xs (owed E (wld s))"
    using D(1) by (simp add: bt owns_def rm)
  have "owns E (batch E ?s) (wld ?s)"
    using ownership_poll [OF own] rd rm(2) unfolding bt owns_def by (simp add: w' owed_def)
  moreover have comp: "completions E [] (wld ?s) = []"
  proof -
    have "completions E [] (wld s) = []" using D(3) by (simp add: waiting_place_def pc bt)
    moreover have "\<forall>p \<in> set xs. \<not> is_completion (wld s) p"
      using own by (auto simp: ownership_def is_completion_def)
    ultimately show ?thesis
      unfolding completions_def rd by (simp add: w' is_completion_eq filter_empty_conv)
  qed
  moreover have "delivery E (batch E ?s) (wld ?s)"
    using D(2,3) comp unfolding bt
    by (simp add: delivery_def waiting_place_def pc bt(2)) (simp add: w')
  moreover have "waiting_place E ?s" using comp by (simp add: waiting_place_def bt)
  moreover have "runs_alone ?s"
    using D(4) by (auto simp: runs_alone_def pc in_loop_def w' IsRunningOnThisThread_def split: option.splits)
  moreover have "wakeup_inv E ?s"
    using D(5) v rq False
    by (auto simp: wakeup_inv_def wakeups_def alarms_def starting_def pc w' owed_def rm)
  ultimately show ?thesis by (simp add: loop_invI)
qed

text \<open>What \<^verbatim>\<open>AcquireCompletionQueueItems\<close> does with the event it gets.\<close>

lemma AcquireCompletionQueueItems_True:
  "AcquireCompletionQueueItems E w = Some (True, w') \<longleftrightarrow>
     (\<exists>t b cq. cq_next E (completion_queue w) = Some (Event t b, cq) \<and>
        w' = (case t of
            None \<Rightarrow> w\<lparr>completion_queue := cq, event := \<lparr>tag = None, ok = b\<rparr>,
                      remote_queue_read_submitted := False\<rparr>
          | Some p \<Rightarrow> w\<lparr>completion_queue := cq, event := \<lparr>tag = Some p, ok = b\<rparr>,
                      history := history w @ [Acquired p b],
                      local_queue := iq_push_back E (local_queue w) p\<rparr>))"
proof (cases "cq_next E (completion_queue w)")
  case None
  then show ?thesis by (simp add: AcquireCompletionQueueItems_def)
next
  case (Some r)
  obtain e cq where r: "r = (e, cq)" by (cases r)
  show ?thesis
  proof (cases e)
    case (Event t b)
    then show ?thesis
      using Some r by (cases t) (auto simp: AcquireCompletionQueueItems_def ScheduleLocal_def Let_def)
  next
    case Drained
    then show ?thesis using Some r by (simp add: AcquireCompletionQueueItems_def)
  qed
qed

lemma AcquireCompletionQueueItems_False:
  "AcquireCompletionQueueItems E w = Some (False, w') \<longleftrightarrow>
     (\<exists>cq. cq_next E (completion_queue w) = Some (Drained, cq) \<and> w' = w\<lparr>completion_queue := cq\<rparr>)"
  by (auto simp: AcquireCompletionQueueItems_def Let_def split: option.splits next_result.splits)

lemma acquire_alarm_inv:
  assumes E: "ext_ok E" and inv: "loop_inv E s" and pc: "pc s = Acquiring"
    and nx: "cq_next E (completion_queue (wld s)) = Some (Event None b, cq)"
  shows "loop_inv E (s\<lparr>wld := (wld s)\<lparr>completion_queue := cq, event := \<lparr>tag = None, ok = b\<rparr>,
    remote_queue_read_submitted := False\<rparr>, pc := Loop_top\<rparr>)"
    (is "loop_inv E ?s")
proof -
  have pcE: "pc s \<noteq> Exited" using pc by simp
  note D = loop_invD [OF inv pcE]
  note cq = cq_nextD [OF E nx]
  have bt: "batch E ?s = []" "batch E s = []" by (simp_all add: batch_def pc)
  have comp: "completions E [] (wld ?s) = []" "completions E [] (wld s) = []"
    using D(3) by (simp_all add: waiting_place_def pc bt completions_def is_completion_eq ready_def)
  have "owns E (batch E ?s) (wld ?s)"
    using D(1) cq unfolding bt by (simp add: owns_def ready_def remote_items_def owed_def)
  moreover have "delivery E (batch E ?s) (wld ?s)"
    using D(2) comp unfolding bt by (simp add: delivery_def)
  moreover have "waiting_place E ?s" by (simp add: waiting_place_def)
  moreover have "runs_alone ?s"
    using D(4) by (auto simp: runs_alone_def pc in_loop_def IsRunningOnThisThread_def split: option.splits)
  moreover have "wakeup_inv E ?s"
  proof -
    have "alarms E (wld s) = Suc (count (cq_tags E cq) None)"
      using cq(1,2) by (simp add: alarms_def count_greater_zero_iff)
    then have "0 < wakeups E s" and "wakeups E ?s = wakeups E s - 1"
      by (simp_all add: wakeups_def alarms_def)
    then show ?thesis
      using D(5) by (auto simp: wakeup_inv_def split: queue_view.splits if_splits)
  qed
  ultimately show ?thesis by (rule loop_invI)
qed

lemma acquire_op_inv:
  assumes E: "ext_ok E" and inv: "loop_inv E s" and pc: "pc s = Acquiring"
    and nx: "cq_next E (completion_queue (wld s)) = Some (Event (Some p) b, cq)"
  shows "loop_inv E (s\<lparr>wld := (wld s)\<lparr>completion_queue := cq, event := \<lparr>tag = Some p, ok = b\<rparr>,
    history := history (wld s) @ [Acquired p b],
    local_queue := iq_push_back E (local_queue (wld s)) p\<rparr>, pc := Loop_top\<rparr>)"
    (is "loop_inv E ?s")
proof -
  have pcE: "pc s \<noteq> Exited" using pc by simp
  note D = loop_invD [OF inv pcE]
  note cq = cq_nextD [OF E nx]
  have bt: "batch E ?s = []" "batch E s = []" by (simp_all add: batch_def pc)
  have owed: "owed E (wld s) = add_mset p (owed E (wld ?s))"
    using op_tags_take [OF cq(1)] cq(2) by (simp add: owed_def)
  have rd: "ready E [] (wld ?s) = ready E [] (wld s) @ [p]"
    using E by (simp add: ready_def lib_simps)
  have own: "ownership (heap (wld s)) (stop_callback (wld s)) (ready E [] (wld s))
      (remote_items E (wld s)) (add_mset p (owed E (wld ?s)))"
    using D(1) by (simp only: bt owns_def owed)
  have "owns E (batch E ?s) (wld ?s)"
    using ownership_acquire [OF own] unfolding bt owns_def rd by (simp add: remote_items_def)
  moreover have comp: "completions E [] (wld ?s) = [p]" "completions E [] (wld s) = []"
  proof -
    show e: "completions E [] (wld s) = []" using D(3) by (simp add: waiting_place_def pc bt)
    have "exec_of (heap (wld s)) p = Some OnRequestComplete" using own by (simp add: ownership_def)
    then show "completions E [] (wld ?s) = [p]"
      using e unfolding completions_def rd by (simp add: is_completion_eq filter_empty_conv)
  qed
  moreover have "delivery E (batch E ?s) (wld ?s)"
    using D(2) comp unfolding bt delivery_def by simp
  moreover have "waiting_place E ?s" by (simp add: waiting_place_def)
  moreover have "runs_alone ?s"
    using D(4) by (auto simp: runs_alone_def pc in_loop_def IsRunningOnThisThread_def split: option.splits)
  moreover have "wakeup_inv E ?s"
  proof -
    have "\<not> starting E s" using owed by (simp add: starting_def)
    moreover have "wakeups E ?s = wakeups E s" using cq(2) by (simp add: wakeups_def alarms_def)
    ultimately show ?thesis by (intro wakeup_inv_cong [OF D(5)]) simp_all
  qed
  ultimately show ?thesis by (intro loop_invI)
qed

lemma acquire_inv:
  assumes E: "ext_ok E" and inv: "loop_inv E s" and pc: "pc s = Acquiring"
    and aq: "AcquireCompletionQueueItems E (wld s) = Some (True, w')"
  shows "loop_inv E (s\<lparr>wld := w', pc := Loop_top\<rparr>)"
proof -
  from aq obtain t b cq where nx: "cq_next E (completion_queue (wld s)) = Some (Event t b, cq)"
    and w': "w' = (case t of
        None \<Rightarrow> (wld s)\<lparr>completion_queue := cq, event := \<lparr>tag = None, ok = b\<rparr>,
                  remote_queue_read_submitted := False\<rparr>
      | Some p \<Rightarrow> (wld s)\<lparr>completion_queue := cq, event := \<lparr>tag = Some p, ok = b\<rparr>,
                  history := history (wld s) @ [Acquired p b],
                  local_queue := iq_push_back E (local_queue (wld s)) p\<rparr>)"
    unfolding AcquireCompletionQueueItems_True by blast
  show ?thesis
    using acquire_alarm_inv [OF E inv pc] acquire_op_inv [OF E inv pc] nx
    by (cases t) (simp_all add: w')
qed

section \<open>Every step\<close>

text \<open>A thread that is not in this loop enters or leaves another context.\<close>

lemma other_context_inv:
  assumes inv: "loop_inv E s" and pcE: "pc s \<noteq> Exited"
    and t: "\<not> (in_loop (pc s) \<and> t = run_thread s)" and c: "c \<noteq> Some (this_context (wld s))"
  shows "loop_inv E (s\<lparr>wld := (wld s)\<lparr>current_thread_context := (current_thread_context (wld s))(t := c)\<rparr>\<rparr>)"
    (is "loop_inv E ?s")
proof -
  note D = loop_invD [OF inv pcE]
  have bt: "batch E ?s = batch E s" by (simp add: batch_def split: pc.split)
  have comp: "completions E ps (wld ?s) = completions E ps (wld s)" for ps
    by (simp add: completions_def ready_def is_completion_eq)
  have "owns E (batch E ?s) (wld ?s)"
    using D(1) unfolding bt by (simp add: owns_def ready_def remote_items_def owed_def)
  moreover have "delivery E (batch E ?s) (wld ?s)"
    using D(2) comp unfolding bt by (simp add: delivery_def)
  moreover have "waiting_place E ?s"
    using D(3) comp unfolding waiting_place_def bt by (cases "pc s") simp_all
  moreover have "runs_alone ?s"
    using D(4) t c by (auto simp: runs_alone_def IsRunningOnThisThread_def split: option.splits)
  moreover have "wakeup_inv E ?s"
  proof (rule wakeup_inv_cong [OF D(5)])
    show "starting E s \<Longrightarrow> starting E ?s" by (cases "pc s") (simp_all add: starting_def owed_def remote_items_def)
  qed (simp_all add: wakeups_def alarms_def)
  ultimately show ?thesis by (rule loop_invI)
qed

lemma exited_stays: "loop_step E s s' \<Longrightarrow> pc s = Exited \<Longrightarrow> pc s' = Exited"
  by (induction rule: loop_step.induct)
    (auto simp: enqueue_from_def split_def Let_def dest!: start_from_effect)

lemma loop_step_inv:
  assumes E: "ext_ok E" and st: "loop_step E s s'" and inv: "loop_inv E s"
  shows "loop_inv E s'"
proof (cases "pc s = Exited")
  case True
  then show ?thesis using exited_stays [OF st] by (simp add: loop_inv_def)
next
  case False
  from st show ?thesis
  proof cases
    case (remote_shutdown i)
    then show ?thesis
      using queue_only_inv [OF inv False, of "cq_shutdown E (completion_queue (wld s))"] E
      by (simp add: ShutDown_def lib_simps)
  next
    case (grpc_progress cq)
    then show ?thesis
      using queue_only_inv [OF inv False] cq_progress_laws [OF E] by blast
  next
    case (drained w')
    then show ?thesis by (simp add: loop_inv_def)
  qed (use E inv False in \<open>blast intro: remote_start_inv remote_stop_inv remote_signal_inv run_enter_inv
      impl_enter_inv local_empty_inv local_batch_inv execute_item_inv batch_done_inv stop_inv
      go_on_inv poll_inv acquire_inv other_context_inv\<close>)+
qed

section \<open>The start, and the interpretation\<close>

lemma start_inv:
  assumes E: "ext_ok E" and st: "start_sys E s"
  shows "loop_inv E s"
proof -
  obtain this tls cq u i p sd r where cq: "cq_tags E cq = {#}" and tls: "\<And>t. tls t \<noteq> Some this"
    and sf: "start_from E i p sd r (fresh_sys (GrpcContext_new E this tls cq u)) = Inr s"
    using st unfolding start_sys_def new_context_def by metis
  let ?w = "GrpcContext_new E this tls cq u"
  let ?op = "\<lparr>execute = Some OnScheduleComplete, body = AsyncOperation sd r\<rparr>"
  obtain rq where rq: "aiq_enqueue E (remote_queue ?w) p = (True, rq)" "aiq_view E rq = Active [p]"
    using aiq_enqueue_inactive [OF E, of "remote_queue ?w" p] E
    by (auto simp: GrpcContext_new_def lib_simps)
  have s: "s = (fresh_sys ?w)\<lparr>wld := ?w\<lparr>heap := [p \<mapsto> ?op], remote_queue := rq\<rparr>, signalling := [i]\<rparr>"
    using start_from_effect [OF sf] rq(1)
    by (simp add: enqueue_from_def remote_enqueue_def fresh_sys_def GrpcContext_new_def)
  have bt: "batch E s = []" and pc: "pc s = Outside" by (simp_all add: s fresh_sys_def batch_def)
  have ready: "ready E [] (wld s) = []" and rm: "remote_items E (wld s) = [p]"
    and owed: "owed E (wld s) = {#}"
    using rq(2) cq E by (simp_all add: s GrpcContext_new_def lib_simps ready_def remote_items_def owed_def)
  have "owns E (batch E s) (wld s)"
    unfolding owns_def bt ready rm owed
    by (simp add: s GrpcContext_new_def ownership_def typed_def exec_of_def stopped_iff held_def)
  moreover have comp: "completions E [] (wld s) = []" using ready by (simp add: completions_def)
  moreover have "delivery E (batch E s) (wld s)"
    using comp by (simp add: bt delivery_def) (simp add: s GrpcContext_new_def)
  moreover have "waiting_place E s" using comp by (simp add: waiting_place_def pc bt)
  moreover have "runs_alone s"
    using tls by (simp add: runs_alone_def pc in_loop_def)
      (simp add: s GrpcContext_new_def IsRunningOnThisThread_def)
  moreover have "wakeup_inv E s"
  proof -
    have "iq_items E (local_queue (wld s)) = []" using ready by (simp add: ready_def)
    then have "starting E s" using owed rm pc by (simp add: starting_def)
    moreover have "wakeups E s = 1"
      using cq by (simp add: wakeups_def alarms_def s GrpcContext_new_def fresh_sys_def)
    moreover have "aiq_view E (remote_queue (wld s)) = Active [p]" using rq(2) by (simp add: s)
    ultimately show ?thesis
      by (simp add: wakeup_inv_def)
  qed
  ultimately show ?thesis by (intro loop_invI)
qed

interpretation loop: inductive_invariant "\<lambda>s. ext_ok E \<and> start_sys E s" "loop_step E"
    "\<lambda>s. ext_ok E \<and> loop_inv E s"
  for E :: "('q, 'rq, 'cq, 'r, 'u) ext"
  by unfold_locales (auto intro: start_inv loop_step_inv)

lemma reachable_inv:
  assumes "ext_ok E" and "reachable E s"
  shows "loop_inv E s"
  using loop.holds_from_start [of E] assms by (auto simp: reachable_def)

lemma reachable_step: "reachable E s \<Longrightarrow> loop_step E s s' \<Longrightarrow> reachable E s'"
  unfolding reachable_def by (meson rtranclp.rtrancl_into_rtrancl)

lemma reachable_steps: "reachable E s \<Longrightarrow> (loop_step E)\<^sup>*\<^sup>* s s' \<Longrightarrow> reachable E s'"
  unfolding reachable_def by (meson rtranclp_trans)

lemmas reachableD = loop_invD [OF reachable_inv]

end
