(* ===== verification/Loop_Schedule.thy ===== *)
theory Loop_Schedule
  imports Loop_Invariant
begin

text \<open>
  The step relation as a function: given who moves, the next state, or \<open>None\<close> when the move is
  not possible or its code faults. Concrete executions are evaluated with it, and every state it
  reaches is reachable in the relation.
\<close>

section \<open>The loop's own step\<close>

fun loop_next ::
  "('q, 'rq, 'cq, 'r, 'u) ext \<Rightarrow> ('q, 'rq, 'cq, 'r, 'u) sys \<Rightarrow> 'q pc \<Rightarrow>
   ('q, 'rq, 'cq, 'r, 'u) sys option" where
  "loop_next E s Registered =
     (if run_thread s \<in> set (signalling s) then None
      else Some (s\<lparr>wld := enter_context (run_thread s) (Some (this_context (wld s))) (wld s),
        pc := Loop_top, old_context := current_thread_context (wld s) (run_thread s)\<rparr>))"
| "loop_next E s Loop_top =
     (if iq_is_empty E (local_queue (wld s)) then Some (s\<lparr>pc := Check_stop\<rparr>)
      else Some (s\<lparr>wld := (wld s)\<lparr>local_queue := iq_moved_from E (local_queue (wld s))\<rparr>,
        pc := Executing (local_queue (wld s))\<rparr>))"
| "loop_next E s (Executing q) =
     (if iq_is_empty E q then Some (s\<lparr>pc := Check_stop\<rparr>)
      else case iq_pop_front E q of (p, q') \<Rightarrow>
        (case execute_op E (run_thread s) p (wld s) of
          Inl e \<Rightarrow> None
        | Inr w' \<Rightarrow> Some (s\<lparr>wld := w', pc := Executing q'\<rparr>)))"
| "loop_next E s Check_stop =
     (if stopped (heap (wld s)) (run_stop s) then Some (s\<lparr>wld := leave_run s (wld s), pc := Outside\<rparr>)
      else Some (s\<lparr>pc := Check_remote\<rparr>))"
| "loop_next E s Check_remote = Some (s\<lparr>wld := check_remote_queue E (wld s), pc := Acquiring\<rparr>)"
| "loop_next E s Acquiring =
     (case AcquireCompletionQueueItems E (wld s) of
       None \<Rightarrow> None
     | Some (b, w') \<Rightarrow>
         if b then Some (s\<lparr>wld := w', pc := Loop_top\<rparr>)
         else Some (s\<lparr>wld := leave_run s w', pc := Exited\<rparr>))"
| "loop_next E s Outside = None"
| "loop_next E s Exited = None"

lemma loop_next_step:
  assumes "loop_next E s c = Some s'" and "pc s = c"
  shows "loop_step E s s'"
proof (cases c)
  case (Executing q)
  show ?thesis
  proof (cases "iq_is_empty E q")
    case True
    then show ?thesis using assms Executing by (auto intro: loop_step.batch_done)
  next
    case False
    then obtain p q' w' where "iq_pop_front E q = (p, q')" "execute_op E (run_thread s) p (wld s) = Inr w'"
      "s' = s\<lparr>wld := w', pc := Executing q'\<rparr>"
      using assms Executing by (auto split: prod.split_asm sum.split_asm)
    then show ?thesis using False assms Executing by (auto intro: loop_step.execute_item)
  qed
qed (use assms in \<open>auto split: if_split_asm option.split_asm prod.split_asm intro: loop_step.intros\<close>)

section \<open>Moves and schedules\<close>

datatype ('cq, 'r) move =
    Loop
  | Enter thread op_ptr
  | Start thread op_ptr sender 'r
  | Signal thread
  | Stop_request thread
  | Shut_down thread
  | Progress 'cq
  | Other_context thread "ctx_ref option"

fun exec_move ::
  "('q, 'rq, 'cq, 'r, 'u) ext \<Rightarrow> ('cq, 'r) move \<Rightarrow> ('q, 'rq, 'cq, 'r, 'u) sys \<Rightarrow>
   ('q, 'rq, 'cq, 'r, 'u) sys option" where
  "exec_move E Loop s = loop_next E s (pc s)"
| "exec_move E (Enter t p) s =
     (if pc s = Outside \<and> t \<notin> set (signalling s)
      then (case begin_run p (wld s) of
        Inl e \<Rightarrow> None
      | Inr w' \<Rightarrow> Some (s\<lparr>wld := w', pc := Registered, run_thread := t, run_stop := p\<rparr>))
      else None)"
| "exec_move E (Start i p sd r) s =
     (if i \<notin> set (signalling s) \<and> \<not> IsRunningOnThisThread i (wld s)
      then (case start_from E i p sd r s of Inl e \<Rightarrow> None | Inr s' \<Rightarrow> Some s') else None)"
| "exec_move E (Signal i) s =
     (if i \<in> set (signalling s)
      then (case SignalRemoteQueue E (wld s) of
        Inl e \<Rightarrow> None
      | Inr w' \<Rightarrow> Some (s\<lparr>wld := w', signalling := remove1 i (signalling s)\<rparr>))
      else None)"
| "exec_move E (Stop_request i) s =
     (if i \<notin> set (signalling s) \<and> \<not> IsRunningOnThisThread i (wld s)
      then (case stop_callback (wld s) of
        None \<Rightarrow> None
      | Some p \<Rightarrow> Some (enqueue_from E i p s ((wld s)\<lparr>stop_callback := None\<rparr>)))
      else None)"
| "exec_move E (Shut_down i) s =
     (if i \<notin> set (signalling s) then Some (s\<lparr>wld := ShutDown E (wld s)\<rparr>) else None)"
| "exec_move E (Progress cq) s =
     (if cq_progress E (completion_queue (wld s)) cq
      then Some (s\<lparr>wld := (wld s)\<lparr>completion_queue := cq\<rparr>\<rparr>) else None)"
| "exec_move E (Other_context t c) s =
     (if \<not> (in_loop (pc s) \<and> t = run_thread s) \<and> c \<noteq> Some (this_context (wld s))
      then Some (s\<lparr>wld := (wld s)\<lparr>current_thread_context := (current_thread_context (wld s))(t := c)\<rparr>\<rparr>)
      else None)"

fun exec_moves ::
  "('q, 'rq, 'cq, 'r, 'u) ext \<Rightarrow> ('cq, 'r) move list \<Rightarrow> ('q, 'rq, 'cq, 'r, 'u) sys \<Rightarrow>
   ('q, 'rq, 'cq, 'r, 'u) sys option" where
  "exec_moves E [] s = Some s"
| "exec_moves E (m # ms) s =
     (case exec_move E m s of None \<Rightarrow> None | Some s' \<Rightarrow> exec_moves E ms s')"

lemma exec_move_step: "exec_move E m s = Some s' \<Longrightarrow> loop_step E s s'"
  by (cases m) (auto split: if_split_asm option.split_asm sum.split_asm
      simp: from_outside_def intro: loop_next_step loop_step.intros)

lemma exec_moves_steps: "exec_moves E ms s = Some s' \<Longrightarrow> (loop_step E)\<^sup>*\<^sup>* s s'"
  by (induction ms arbitrary: s)
    (auto split: option.split_asm intro: exec_move_step converse_rtranclp_into_rtranclp)

text \<open>From a new context: the first start, then a schedule.\<close>

definition scheduled ::
  "('q, 'rq, 'cq, 'r, 'u) ext \<Rightarrow> ('cq, 'r) move list \<Rightarrow> ('q, 'rq, 'cq, 'r, 'u) world \<Rightarrow> thread \<Rightarrow>
   op_ptr \<Rightarrow> sender \<Rightarrow> 'r \<Rightarrow> ('q, 'rq, 'cq, 'r, 'u) sys option" where
  "scheduled E ms w i p sd r =
     (case start_from E i p sd r (fresh_sys w) of Inl e \<Rightarrow> None | Inr s \<Rightarrow> exec_moves E ms s)"

lemma scheduled_reachable:
  assumes "new_context E w" and "scheduled E ms w i p sd r = Some s"
  shows "reachable E s"
proof -
  obtain s0 where "start_from E i p sd r (fresh_sys w) = Inr s0" "exec_moves E ms s0 = Some s"
    using assms(2) by (auto simp: scheduled_def split: sum.split_asm)
  with assms(1) show ?thesis
    unfolding reachable_def start_sys_def by (blast intro: exec_moves_steps)
qed

end
