(* ===== verification/Reference_Libs.thy ===== *)
theory Reference_Libs
  imports Loop_Schedule
begin

text \<open>
  An instance of the called libraries that keeps their contracts: queues are lists, a completion
  queue is the list of its undelivered events in the order they will be reported, with the
  shutdown flag, and a receiver is a script. It shows that \<open>ext_ok\<close> can hold, and the witnesses
  and the concrete executions run on it.
\<close>

section \<open>The instance\<close>

text \<open>A receiver that performs some actions and then returns or throws.\<close>

datatype script = Script "script action list" bool

type_synonym ref_cq = "(op_ptr option \<times> bool) list \<times> bool"

fun ref_enqueue :: "queue_view \<Rightarrow> op_ptr \<Rightarrow> bool \<times> queue_view" where
  "ref_enqueue Inactive p = (True, Active [p])"
| "ref_enqueue (Active xs) p = (False, Active (xs @ [p]))"

fun ref_try :: "queue_view \<Rightarrow> op_ptr list \<times> queue_view" where
  "ref_try Inactive = ([], Inactive)"
| "ref_try (Active []) = ([], Inactive)"
| "ref_try (Active (x # xs)) = (x # xs, Active [])"

fun ref_next :: "ref_cq \<Rightarrow> (next_result \<times> ref_cq) option" where
  "ref_next ([], down) = (if down then Some (Drained, ([], down)) else None)"
| "ref_next ((t, b) # es, down) = Some (Event t b, (es, down))"

fun ref_alarm_set :: "ref_cq \<Rightarrow> op_ptr option \<Rightarrow> ref_cq option" where
  "ref_alarm_set (es, down) t =
     (if down \<or> t \<in> fst ` set es then None else Some (es @ [(t, True)], down))"

fun ref_start_call :: "ref_cq \<Rightarrow> grpc_call \<Rightarrow> ref_cq option" where
  "ref_start_call (es, down) c = (if down then None else Some (es @ [(Some (call_tag c), True)], down))"

fun ref_set_value :: "script \<Rightarrow> bool \<Rightarrow> nat \<Rightarrow> script action list \<times> bool \<times> nat" where
  "ref_set_value (Script as threw) b u = (as, threw, Suc u)"

text \<open>The libraries with receivers that behave as given and never signal an error.\<close>

definition ref_libs ::
  "('r \<Rightarrow> bool \<Rightarrow> 'u \<Rightarrow> 'r action list \<times> bool \<times> 'u) \<Rightarrow> (op_ptr list, queue_view, ref_cq, 'r, 'u) ext" where
  "ref_libs set_value =
     \<lparr>iq_init = [], iq_is_empty = (\<lambda>q. q = []), iq_push_back = (\<lambda>q p. q @ [p]), iq_append = (@),
      iq_pop_front = (\<lambda>q. (hd q, tl q)), iq_moved_from = (\<lambda>q. []), iq_items = (\<lambda>q. q),
      aiq_init = (\<lambda>b. if b then Active [] else Inactive), aiq_enqueue = ref_enqueue,
      aiq_try_mark_inactive_or_dequeue_all = ref_try, aiq_view = (\<lambda>rq. rq),
      cq_next = ref_next, cq_alarm_set = ref_alarm_set, cq_start_call = ref_start_call,
      cq_shutdown = (\<lambda>(es, down). (es, True)),
      cq_progress = (\<lambda>(es, down) (es', down'). mset es = mset es' \<and> down = down'),
      cq_tags = (\<lambda>(es, down). mset (map fst es)), cq_down = snd,
      rcv_noexcept = (\<lambda>r. False), rcv_set_value = set_value, rcv_set_error = (\<lambda>r u. ([], u))\<rparr>"

definition ref_ext :: "(op_ptr list, queue_view, ref_cq, script, nat) ext" where
  "ref_ext = ref_libs ref_set_value"

lemma ref_libs_simps [simp]:
  "iq_init (ref_libs set_value) = []" "iq_is_empty (ref_libs set_value) = (\<lambda>q. q = [])"
  "iq_push_back (ref_libs set_value) = (\<lambda>q p. q @ [p])" "iq_append (ref_libs set_value) = (@)"
  "iq_pop_front (ref_libs set_value) = (\<lambda>q. (hd q, tl q))" "iq_moved_from (ref_libs set_value) = (\<lambda>q. [])"
  "iq_items (ref_libs set_value) = (\<lambda>q. q)" "aiq_init (ref_libs set_value) = (\<lambda>b. if b then Active [] else Inactive)"
  "aiq_enqueue (ref_libs set_value) = ref_enqueue" "aiq_try_mark_inactive_or_dequeue_all (ref_libs set_value) = ref_try"
  "aiq_view (ref_libs set_value) = (\<lambda>rq. rq)" "cq_next (ref_libs set_value) = ref_next" "cq_alarm_set (ref_libs set_value) = ref_alarm_set"
  "cq_start_call (ref_libs set_value) = ref_start_call" "cq_shutdown (ref_libs set_value) = (\<lambda>(es, down). (es, True))"
  "cq_progress (ref_libs set_value) = (\<lambda>(es, down) (es', down'). mset es = mset es' \<and> down = down')"
  "cq_tags (ref_libs set_value) = (\<lambda>(es, down). mset (map fst es))" "cq_down (ref_libs set_value) = snd"
  "rcv_noexcept (ref_libs set_value) = (\<lambda>r. False)" "rcv_set_value (ref_libs set_value) = set_value"
  "rcv_set_error (ref_libs set_value) = (\<lambda>r u. ([], u))"
  by (simp_all add: ref_libs_def)

lemma ref_ext_simps [simp]:
  "iq_init ref_ext = []" "iq_is_empty ref_ext = (\<lambda>q. q = [])"
  "iq_push_back ref_ext = (\<lambda>q p. q @ [p])" "iq_append ref_ext = (@)"
  "iq_pop_front ref_ext = (\<lambda>q. (hd q, tl q))" "iq_moved_from ref_ext = (\<lambda>q. [])"
  "iq_items ref_ext = (\<lambda>q. q)" "aiq_init ref_ext = (\<lambda>b. if b then Active [] else Inactive)"
  "aiq_enqueue ref_ext = ref_enqueue" "aiq_try_mark_inactive_or_dequeue_all ref_ext = ref_try"
  "aiq_view ref_ext = (\<lambda>rq. rq)" "cq_next ref_ext = ref_next" "cq_alarm_set ref_ext = ref_alarm_set"
  "cq_start_call ref_ext = ref_start_call" "cq_shutdown ref_ext = (\<lambda>(es, down). (es, True))"
  "cq_progress ref_ext = (\<lambda>(es, down) (es', down'). mset es = mset es' \<and> down = down')"
  "cq_tags ref_ext = (\<lambda>(es, down). mset (map fst es))" "cq_down ref_ext = snd"
  "rcv_noexcept ref_ext = (\<lambda>r. False)" "rcv_set_value ref_ext = ref_set_value"
  "rcv_set_error ref_ext = (\<lambda>r u. ([], u))"
  by (simp_all only: ref_ext_def ref_libs_simps)

section \<open>It keeps the contracts\<close>

lemma ref_try_view: "ref_try (Active xs) = (xs, if xs = [] then Inactive else Active [])"
  by (cases xs) simp_all

lemma ref_next_event: "ref_next cq = Some (Event t b, cq') \<longleftrightarrow> (\<exists>es. fst cq = (t, b) # es \<and> cq' = (es, snd cq))"
  by (cases cq; cases "fst cq") auto

lemma ref_next_drained: "ref_next cq = Some (Drained, cq') \<longleftrightarrow> fst cq = [] \<and> snd cq \<and> cq' = cq"
  by (cases cq; cases "fst cq") auto

lemma ref_libs_ok: "ext_ok (ref_libs set_value)"
proof -
  have "intrusive_queue_ok (ref_libs set_value)" by (simp add: intrusive_queue_ok_def)
  moreover have "atomic_queue_ok (ref_libs set_value)" by (simp add: atomic_queue_ok_def ref_try_view)
  moreover have "completion_queue_ok (ref_libs set_value)"
    unfolding completion_queue_ok_def
    by (intro conjI allI impI)
      (auto simp: ref_next_event ref_next_drained split: prod.splits if_split_asm
        dest: arg_cong [where f = "image_mset fst"])
  ultimately show ?thesis by (simp add: ext_ok_def)
qed

lemma ref_ok: "ext_ok ref_ext"
  unfolding ref_ext_def by (rule ref_libs_ok)

section \<open>A first execution\<close>

text \<open>
  Thread 1 starts a read (operation 5) on a new context, and thread 0 runs the loop with its
  stop operation at 8. The first parameter is the receiver of the read.
\<close>

definition demo_sender :: sender where
  "demo_sender = \<lparr>snd_method = Read_method, snd_object = ByRef 10, snd_operands = [ByRef 11],
     snd_server_cq = False\<rparr>"

abbreviation (input) quiet_receiver :: script where "quiet_receiver \<equiv> Script [] False"

definition demo_world :: "(op_ptr list, queue_view, ref_cq, script, nat) world" where
  "demo_world = GrpcContext_new ref_ext 7 (\<lambda>t. None) ([], False) 0"

lemma demo_new: "new_context ref_ext demo_world"
  unfolding new_context_def demo_world_def
  by (intro exI [of _ 7] exI [of _ "\<lambda>t. None"] exI [of _ "([], False)"] exI [of _ 0]) simp

definition demo_run ::
  "script \<Rightarrow> (ref_cq, script) move list \<Rightarrow>
   (op_ptr list, queue_view, ref_cq, script, nat) sys option" where
  "demo_run r ms = scheduled ref_ext ms demo_world 1 5 demo_sender r"

lemma demo_reachable: "demo_run r ms = Some s \<Longrightarrow> reachable ref_ext s"
  unfolding demo_run_def by (rule scheduled_reachable [OF demo_new])

lemma demo_the: "demo_run r ms \<noteq> None \<Longrightarrow> reachable ref_ext (the (demo_run r ms))"
  by (metis demo_reachable option.collapse)

end
