(* ===== verification/Context_Properties.thy ===== *)
theory Context_Properties
  imports Reference_Libs
begin

text \<open>
  What the invariant gives for the context: who holds an operation, what is delivered and when,
  how a remote item wakes the loop, and which faults the loop's own code can meet. Each property
  is stated over the reachable states of \<open>loop_step\<close>, for every instance of the called
  libraries that keeps its contracts and every client, and is witnessed on \<open>ref_ext\<close>.
\<close>

section \<open>States for the witnesses\<close>

text \<open>
  \<open>boot\<close> brings the loop to its first execution of the read (operation 5); \<open>again\<close> is one more
  round of an idle loop that got an event with one item to execute.
\<close>

definition boot :: "(ref_cq, script) move list" where
  "boot = [Signal 1, Enter 0 8, Loop, Loop, Loop, Loop, Loop]"

definition at_boot :: "(op_ptr list, queue_view, ref_cq, script, nat) sys" where
  "at_boot = the (demo_run quiet_receiver boot)"

text \<open>The read is executed, the loop marks the queue inactive, and gets the read's completion.\<close>

definition served :: "(ref_cq, script) move list" where
  "served = boot @ [Loop, Loop, Loop, Loop, Loop, Loop]"

definition at_served :: "(op_ptr list, queue_view, ref_cq, script, nat) sys" where
  "at_served = the (demo_run quiet_receiver served)"

text \<open>Thread 1 starts operation 6 while the queue is inactive.\<close>

definition woken :: "(ref_cq, script) move list" where
  "woken = served @ [Loop, Start 1 6 demo_sender quiet_receiver]"

definition at_woken :: "(op_ptr list, queue_view, ref_cq, script, nat) sys" where
  "at_woken = the (demo_run quiet_receiver woken)"

lemmas demo_defs = demo_run_def boot_def served_def woken_def at_boot_def at_served_def at_woken_def

lemma at_reachable:
  "reachable ref_ext at_boot" "reachable ref_ext at_served" "reachable ref_ext at_woken"
proof -
  have "demo_run quiet_receiver boot \<noteq> None" unfolding demo_defs by code_simp
  then show "reachable ref_ext at_boot" unfolding at_boot_def by (rule demo_the)
  have "demo_run quiet_receiver served \<noteq> None" unfolding demo_defs by code_simp
  then show "reachable ref_ext at_served" unfolding at_served_def by (rule demo_the)
  have "demo_run quiet_receiver woken \<noteq> None" unfolding demo_defs by code_simp
  then show "reachable ref_ext at_woken" unfolding at_woken_def by (rule demo_the)
qed

lemma at_boot_values:
  "pc at_boot = Loop_top" "local_queue (wld at_boot) = [5]" "remote_queue (wld at_boot) = Active []"
  unfolding demo_defs by code_simp+

lemma at_served_values:
  "pc at_served = Loop_top" "local_queue (wld at_served) = [5]" "remote_queue (wld at_served) = Inactive"
  "acquired (history (wld at_served)) = [(5, True)]" "delivered (history (wld at_served)) = []"
  "event (wld at_served) = \<lparr>tag = Some 5, ok = True\<rparr>"
  unfolding demo_defs by code_simp+

lemma at_woken_values:
  "pc at_woken = Executing [5]" "remote_queue (wld at_woken) = Active [6]" "signalling at_woken = [1]"
  "completion_queue (wld at_woken) = ([], False)" "remote_queue_read_submitted (wld at_woken)"
  unfolding demo_defs by code_simp+

section \<open>Holding and delivering operations\<close>

text \<open>
  C4. An operation is in one place at a time: in every reachable state in which \<^verbatim>\<open>Run\<close> has not returned on a
  drained queue, no operation occurs twice in the batch being executed, the local queue, the remote queue and the tags that gRPC still
  holds, and each of them is a live object whose \<^verbatim>\<open>execute_\<close> pointer has been assigned.
\<close>
theorem operations_held_once:
  assumes "ext_ok E" and "reachable E s" and "pc s \<noteq> Exited"
  shows "distinct (batch E s @ iq_items E (local_queue (wld s)) @ remote_items E (wld s)) \<and>
    uniq (owed E (wld s)) \<and>
    set (batch E s @ iq_items E (local_queue (wld s)) @ remote_items E (wld s)) \<inter>
      set_mset (owed E (wld s)) = {} \<and>
    (\<forall>p \<in> set (batch E s @ iq_items E (local_queue (wld s)) @ remote_items E (wld s)) \<union>
        set_mset (owed E (wld s)).
      \<exists>op f. heap (wld s) p = Some op \<and> execute op = Some f)"
proof -
  let ?R = "ready E (batch E s) (wld s)"
  have own: "ownership (heap (wld s)) (stop_callback (wld s)) ?R (remote_items E (wld s)) (owed E (wld s))"
    using reachableD(1) [OF assms] by (simp add: owns_def)
  have "exec_of (heap (wld s)) p \<noteq> None" if "p \<in># held ?R (remote_items E (wld s)) (owed E (wld s))" for p
    using own that by (auto simp: ownership_def)
  then have "\<exists>op f. heap (wld s) p = Some op \<and> execute op = Some f"
    if "p \<in># held ?R (remote_items E (wld s)) (owed E (wld s))" for p
    using that by (force simp: exec_of_def split: option.splits)
  then show ?thesis
    using ownership_exclusive [OF own] by (auto simp: ready_def)
qed

theorem operations_held_once_witness:
  "distinct (batch ref_ext at_woken @ iq_items ref_ext (local_queue (wld at_woken)) @
     remote_items ref_ext (wld at_woken)) \<and>
   batch ref_ext at_woken = [5] \<and> remote_items ref_ext (wld at_woken) = [6]"
  using operations_held_once [OF ref_ok at_reachable(3)]
  by (simp add: at_woken_values batch_def remote_items_def)

text \<open>
  C18. The casts of the \<^verbatim>\<open>execute_\<close> functions are right, until \<^verbatim>\<open>Run\<close> has returned on a drained queue. An operation whose \<^verbatim>\<open>execute_\<close> is the one of
  \<^verbatim>\<open>StopOperation\<close> is a stop operation and every other one is an RPC operation; in the remote queue
  there are only stop operations and RPCs that are still to be started, and behind a tag that gRPC
  holds only RPCs that wait for their completion.
\<close>
theorem execute_matches_type:
  assumes "ext_ok E" and "reachable E s" and "pc s \<noteq> Exited" and "heap (wld s) p = Some op"
  shows "(execute op = Some Stop_execute \<longleftrightarrow> is_stop_body (body op)) \<and>
    (p \<in> set (remote_items E (wld s)) \<longrightarrow> execute op \<in> {Some Stop_execute, Some OnScheduleComplete}) \<and>
    (p \<in># owed E (wld s) \<longrightarrow> execute op = Some OnRequestComplete \<and> \<not> is_stop_body (body op))"
proof -
  have own: "ownership (heap (wld s)) (stop_callback (wld s)) (ready E (batch E s) (wld s))
      (remote_items E (wld s)) (owed E (wld s))"
    using reachableD(1) [OF assms(1-3)] by (simp add: owns_def)
  moreover have "exec_of (heap (wld s)) p = execute op" using assms(4) by (simp add: exec_of_def)
  moreover have "execute op = Some Stop_execute \<longleftrightarrow> is_stop_body (body op)"
    using own assms(4) by (auto simp: ownership_def typed_def)
  ultimately show ?thesis by (auto simp: ownership_def)
qed

theorem execute_matches_type_witness:
  "\<exists>op. heap (wld at_boot) 5 = Some op \<and> \<not> is_stop_body (body op) \<and> execute op \<noteq> Some Stop_execute"
proof -
  have v: "pc at_boot \<noteq> Exited"
    "case heap (wld at_boot) 5 of None \<Rightarrow> False | Some op \<Rightarrow> \<not> is_stop_body (body op)"
    unfolding demo_defs by code_simp+
  then obtain op where "heap (wld at_boot) 5 = Some op" "\<not> is_stop_body (body op)"
    by (auto split: option.split_asm)
  with execute_matches_type [OF ref_ok at_reachable(1) v(1)] show ?thesis by blast
qed

text \<open>A second invariant, for the states after \<^verbatim>\<open>Run\<close> has returned on a drained queue.\<close>

definition exit_inv :: "('q, 'rq, 'cq, 'r, 'u) sys \<Rightarrow> bool" where
  "exit_inv s \<longleftrightarrow> pc s = Exited \<longrightarrow> acquired (history (wld s)) = delivered (history (wld s))"

lemma enqueue_from_history:
  "history (wld (enqueue_from E i p s w)) = history w" "pc (enqueue_from E i p s w) = pc s"
  by (simp_all add: enqueue_from_def remote_enqueue_def split_def Let_def)

lemma leave_run_fields [simp]:
  "history (leave_run s w) = history w" "completion_queue (leave_run s w) = completion_queue w"
  "remote_queue (leave_run s w) = remote_queue w" "local_queue (leave_run s w) = local_queue w"
  "event (leave_run s w) = event w" "stop_callback (leave_run s w) = None"
  "heap (leave_run s w) = (heap w)(run_stop s := None)"
  "current_thread_context (leave_run s w) = (current_thread_context w)(run_thread s := old_context s)"
  by (simp_all add: leave_run_def end_run_def release_def enter_context_def)

lemma SignalRemoteQueue_Inr:
  "SignalRemoteQueue E w = Inr w' \<Longrightarrow>
   \<exists>cq. cq_alarm_set E (completion_queue w) None = Some cq \<and> w' = w\<lparr>completion_queue := cq\<rparr>"
  by (auto simp: SignalRemoteQueue_def split: option.split_asm)

lemma exit_inv_step:
  assumes "loop_step E s s'" and "loop_inv E s" and "exit_inv s"
  shows "exit_inv s'"
  using assms(1)
proof cases
  case (remote_start i p sd r)
  then show ?thesis
    using assms(3) start_from_effect [OF remote_start(3)]
    by (auto simp: exit_inv_def enqueue_from_history)
next
  case (drained w')
  then show ?thesis
    using loop_invD(2,3) [OF assms(2)]
    by (auto simp: exit_inv_def AcquireCompletionQueueItems_False waiting_place_def delivery_def)
qed (use assms(3) in \<open>auto simp: exit_inv_def enqueue_from_history ShutDown_def
    dest!: SignalRemoteQueue_Inr\<close>)

interpretation exit: inductive_invariant "\<lambda>s. ext_ok E \<and> start_sys E s" "loop_step E"
    "\<lambda>s. ext_ok E \<and> loop_inv E s \<and> exit_inv s"
  for E :: "('q, 'rq, 'cq, 'r, 'u) ext"
proof unfold_locales
  show "ext_ok E \<and> loop_inv E s \<and> exit_inv s" if "ext_ok E \<and> start_sys E s" for s
  proof -
    have "pc s = Outside"
      using that start_from_effect by (fastforce simp: start_sys_def enqueue_from_history fresh_sys_def)
    then show ?thesis using that loop.holds_start [of E s] by (simp add: exit_inv_def)
  qed
  show "ext_ok E \<and> loop_inv E t \<and> exit_inv t"
    if "loop_step E s t" "ext_ok E \<and> loop_inv E s \<and> exit_inv s" for s t
    using that by (auto intro: loop_step_inv exit_inv_step)
qed

lemma reachable_exit: "ext_ok E \<Longrightarrow> reachable E s \<Longrightarrow> exit_inv s"
  using exit.holds_from_start [of E] by (auto simp: reachable_def)

text \<open>
  C2. Completions are delivered exactly once, in the order they were taken from the queue and
  each with its own \<^verbatim>\<open>ok\<close> flag: at every moment the flags given to receivers are those of the
  completions acquired so far, but for the last one, whose operation then waits in the batch or
  the local queue and whose flag is still the context's current event.
\<close>
theorem completions_in_order:
  assumes "ext_ok E" and "reachable E s"
  shows "acquired (history (wld s)) = delivered (history (wld s)) \<or>
    (\<exists>p. acquired (history (wld s)) = delivered (history (wld s)) @ [(p, ok (event (wld s)))] \<and>
       tag (event (wld s)) = Some p \<and> p \<in> set (batch E s @ iq_items E (local_queue (wld s))))"
proof (cases "pc s = Exited")
  case True
  then show ?thesis using reachable_exit [OF assms] by (simp add: exit_inv_def)
next
  case False
  have "\<And>p. completions E (batch E s) (wld s) = [p] \<Longrightarrow> p \<in> set (ready E (batch E s) (wld s))"
    unfolding completions_def by (metis filter_is_subset list.set_intros(1) subsetD)
  then show ?thesis
    using reachableD(2) [OF assms False] by (auto simp: delivery_def ready_def)
qed

theorem completions_in_order_witness:
  "reachable ref_ext at_served \<and> acquired (history (wld at_served)) = [(5, True)] \<and>
   (\<exists>p. acquired (history (wld at_served)) =
      delivered (history (wld at_served)) @ [(p, ok (event (wld at_served)))])"
  using completions_in_order [OF ref_ok at_reachable(2)] at_reachable(2)
  by (simp add: at_served_values)

text \<open>
  Nothing that was acquired is left undelivered: whenever no thread is inside the loop, before,
  between and after the calls of \<^verbatim>\<open>Run\<close>, every completion taken from the queue has been given to
  its receiver, exactly once and in order.
\<close>
theorem all_delivered_outside_run:
  assumes "ext_ok E" and "reachable E s" and "\<not> in_loop (pc s)"
  shows "acquired (history (wld s)) = delivered (history (wld s))"
proof (cases "pc s = Exited")
  case True
  then show ?thesis using reachable_exit [OF assms(1,2)] by (simp add: exit_inv_def)
next
  case False
  then have "pc s = Outside \<or> pc s = Registered"
    using assms(3) by (cases "pc s") (simp_all add: in_loop_def)
  then show ?thesis
    using reachableD(2,3) [OF assms(1,2) False] by (auto simp: waiting_place_def delivery_def)
qed

text \<open>
  Thread 1 asks the loop to stop before the read is completed; the receiver of the read starts
  another one, whose event lets the loop reach the stop operation, and \<^verbatim>\<open>Run\<close> returns.
\<close>

definition stopped_moves :: "(ref_cq, script) move list" where
  "stopped_moves = served @ [Stop_request 1, Signal 1, Loop, Loop, Loop, Loop, Loop, Loop, Loop,
     Loop, Loop, Loop, Loop, Loop, Loop, Loop]"

definition at_stopped :: "(op_ptr list, queue_view, ref_cq, script, nat) sys" where
  "at_stopped = the (demo_run (Script [Await 6 demo_sender quiet_receiver] False) stopped_moves)"

lemma at_stopped_reachable: "reachable ref_ext at_stopped"
proof -
  have "demo_run (Script [Await 6 demo_sender quiet_receiver] False) stopped_moves \<noteq> None"
    unfolding demo_defs stopped_moves_def by code_simp
  then show ?thesis unfolding at_stopped_def by (rule demo_the)
qed

lemma at_stopped_values:
  "pc at_stopped = Check_stop" "stopped (heap (wld at_stopped)) 8" "run_stop at_stopped = 8"
  "acquired (history (wld at_stopped)) = [(5, True), (6, True)]"
  unfolding demo_defs stopped_moves_def at_stopped_def by code_simp+

lemma stopped_returns:
  "loop_step ref_ext at_stopped (at_stopped\<lparr>wld := leave_run at_stopped (wld at_stopped), pc := Outside\<rparr>)"
  using at_stopped_values by (intro loop_step.stop) simp_all

theorem all_delivered_outside_run_witness:
  "delivered (history (leave_run at_stopped (wld at_stopped))) = [(5, True), (6, True)]"
proof -
  let ?s = "at_stopped\<lparr>wld := leave_run at_stopped (wld at_stopped), pc := Outside\<rparr>"
  have "reachable ref_ext ?s"
    by (rule reachable_step [OF at_stopped_reachable stopped_returns])
  from all_delivered_outside_run [OF ref_ok this] show ?thesis
    by (simp add: in_loop_def at_stopped_values)
qed

section \<open>The loop on its thread\<close>

text \<open>
  One thread runs the context: \<^verbatim>\<open>IsRunningOnThisThread\<close> is true on the thread that is inside
  the loop of \<^verbatim>\<open>Run\<close>, and on no other thread at any time.
\<close>
theorem running_on_one_thread:
  assumes "ext_ok E" and "reachable E s" and "pc s \<noteq> Exited"
  shows "IsRunningOnThisThread t (wld s) \<longleftrightarrow> in_loop (pc s) \<and> t = run_thread s"
  using reachableD(4) [OF assms] by (simp add: runs_alone_def)

theorem running_on_one_thread_witness:
  "IsRunningOnThisThread 0 (wld at_boot) \<and> \<not> IsRunningOnThisThread 1 (wld at_boot)"
proof -
  have "run_thread at_boot = 0" unfolding demo_defs by code_simp
  then show ?thesis
    using running_on_one_thread [OF ref_ok at_reachable(1)] by (simp add: at_boot_values in_loop_def)
qed

text \<open>
  The loop keeps the contract of the atomic queue: whenever it is about to call
  \<^verbatim>\<open>try_mark_inactive_or_dequeue_all\<close> the queue is active, and afterwards either the queue is
  inactive and the read flag set, or the queue is active and all its items are in the local
  queue, in the order in which they were enqueued and after what was there.
\<close>
theorem loop_polls_active_queue:
  assumes "ext_ok E" and "reachable E s" and "pc s \<noteq> Exited"
    and "\<not> remote_queue_read_submitted (wld s)"
  shows "\<exists>xs. aiq_view E (remote_queue (wld s)) = Active xs \<and>
    iq_items E (local_queue (check_remote_queue E (wld s))) = iq_items E (local_queue (wld s)) @ xs \<and>
    remote_queue_read_submitted (check_remote_queue E (wld s)) = (xs = []) \<and>
    aiq_view E (remote_queue (check_remote_queue E (wld s))) = (if xs = [] then Inactive else Active [])"
proof -
  obtain xs where xs: "aiq_view E (remote_queue (wld s)) = Active xs"
    using unread_is_active [OF reachableD(5) [OF assms(1-3)] assms(4)] by blast
  from check_remote_effect [OF assms(1,4) xs] xs show ?thesis by auto
qed

theorem loop_polls_active_queue_witness:
  "remote_queue (wld at_boot) = Active [] \<and>
   remote_queue_read_submitted (check_remote_queue ref_ext (wld at_boot))"
proof -
  have "\<not> remote_queue_read_submitted (wld at_boot)" unfolding demo_defs by code_simp
  then show ?thesis
    using loop_polls_active_queue [OF ref_ok at_reachable(1)] by (simp add: at_boot_values)
qed

section \<open>Waking the loop\<close>

text \<open>
  C19. A wake-up always succeeds: a thread whose enqueue found the queue inactive can set the alarm,
  because the alarm is not pending then; only a queue that was shut down can refuse it.
\<close>
theorem signal_succeeds:
  assumes "ext_ok E" and "reachable E s" and "pc s \<noteq> Exited"
    and "i \<in> set (signalling s)" and "\<not> cq_down E (completion_queue (wld s))"
  shows "alarms E (wld s) = 0 \<and> (\<exists>w'. SignalRemoteQueue E (wld s) = Inr w' \<and> alarms E w' = 1)"
proof -
  have "wakeups E s \<le> 1"
    using reachableD(5) [OF assms(1-3)]
    by (auto simp: wakeup_inv_def split: queue_view.split_asm if_split_asm)
  moreover have "1 \<le> length (signalling s)" using assms(4) by (cases "signalling s") auto
  ultimately have a: "alarms E (wld s) = 0" unfolding wakeups_def by linarith
  then have "None \<notin># cq_tags E (completion_queue (wld s))" by (simp add: alarms_def not_in_iff)
  then obtain cq where "cq_alarm_set E (completion_queue (wld s)) None = Some cq"
    using cq_alarm_set_allowed [OF assms(1,5)] by blast
  then show ?thesis
    using a cq_alarm_setD(1) [OF assms(1)] by (simp add: SignalRemoteQueue_def alarms_def)
qed

theorem signal_succeeds_witness:
  "\<exists>w'. SignalRemoteQueue ref_ext (wld at_woken) = Inr w' \<and> alarms ref_ext w' = 1"
  using signal_succeeds [OF ref_ok at_reachable(3), of 1] by (simp add: at_woken_values)

text \<open>
  C1. No wake-up is lost and none is doubled, until \<^verbatim>\<open>Run\<close> has returned on a drained queue: when the loop has the read flag set, so that it will
  not look at the remote queue by itself, then either the queue is inactive and no wake-up is
  under way, so that the next enqueue starts one, or items are waiting and exactly one wake-up
  is under way: a thread about to set the alarm, or the alarm's event in the queue.
\<close>
theorem no_lost_wakeup:
  assumes "ext_ok E" and "reachable E s" and "pc s \<noteq> Exited"
    and "remote_queue_read_submitted (wld s)"
  shows "(aiq_view E (remote_queue (wld s)) = Inactive \<and> signalling s = [] \<and> alarms E (wld s) = 0) \<or>
    (remote_items E (wld s) \<noteq> [] \<and> length (signalling s) + alarms E (wld s) = 1)"
  using reachableD(5) [OF assms(1-3)] assms(4)
  by (auto simp: wakeup_inv_def wakeups_def remote_items_def split: queue_view.splits)

theorem no_lost_wakeup_witness:
  "remote_items ref_ext (wld at_woken) = [6] \<and>
   length (signalling at_woken) + alarms ref_ext (wld at_woken) = 1"
  using no_lost_wakeup [OF ref_ok at_reachable(3)] by (simp add: at_woken_values remote_items_def)

end
