(* ===== verification/Loop_Execution.thy ===== *)
theory Loop_Execution
  imports Context_Properties
begin

text \<open>
  The sequential code of \<^verbatim>\<open>RunImpl\<close> against the step relation, and what executing one item can
  end in: \<^verbatim>\<open>ExecutePendingLocal\<close> always returns, a call of \<^verbatim>\<open>Run\<close> is a path of the system, and
  the loop's own code neither fails a check nor touches a dead operation.
\<close>

section \<open>One batch\<close>

text \<open>
  C24. \<^verbatim>\<open>ExecutePendingLocal\<close> always returns, and runs exactly the items that were in the local
  queue when it was called, in their order; what they schedule meanwhile goes to the emptied
  queue and waits. On an empty queue it changes nothing.
\<close>
theorem ExecutePendingLocal_runs_entry_batch:
  assumes "ext_ok E"
  shows "ExecutePendingLocal E t w =
    Some (if iq_items E (local_queue w) = [] then Inr (0, w)
          else bind_res (execute_all E t (iq_items E (local_queue w))
                 (w\<lparr>local_queue := iq_moved_from E (local_queue w)\<rparr>))
               (\<lambda>w'. Inr (length (iq_items E (local_queue w)), w')))"
  using assms by (simp add: ExecutePendingLocal_def run_pending_is_execute_all lib_simps)

theorem ExecutePendingLocal_runs_entry_batch_witness:
  "\<exists>w'. ExecutePendingLocal ref_ext 0 (wld at_boot) = Some (Inr (1, w')) \<and>
     cq_tags ref_ext (completion_queue w') = {#Some 5#}"
proof -
  have "case execute_all ref_ext 0 [5] ((wld at_boot)\<lparr>local_queue := []\<rparr>) of
      Inl e \<Rightarrow> False | Inr w' \<Rightarrow> completion_queue w' = ([(Some 5, True)], False)"
    unfolding demo_defs by code_simp
  then obtain w' where "execute_all ref_ext 0 [5] ((wld at_boot)\<lparr>local_queue := []\<rparr>) = Inr w'"
    "completion_queue w' = ([(Some 5, True)], False)"
    by (auto split: sum.split_asm)
  then show ?thesis
    using ExecutePendingLocal_runs_entry_batch [OF ref_ok, of 0 "wld at_boot"]
    by (simp add: at_boot_values)
qed

section \<open>Faults\<close>

lemma read_captures_Inl: "read_captures cs = Inl e \<Longrightarrow> e = DanglingCapture"
proof (induction cs)
  case (Cons c cs)
  then show ?case by (cases c) (auto simp: bind_res_Inl_iff)
qed simp

lemma run_sender_Inl: "run_sender sd ctx p = Inl e \<Longrightarrow> e = DanglingCapture"
  by (cases "snd_object sd") (auto simp: run_sender_def bind_res_Inl_iff dest: read_captures_Inl)

text \<open>gRPC refuses the call that a sender makes.\<close>

definition call_refused ::
  "('q, 'rq, 'cq, 'r, 'u) ext \<Rightarrow> ('q, 'rq, 'cq, 'r, 'u) world \<Rightarrow> op_ptr \<Rightarrow> sender \<Rightarrow> bool" where
  "call_refused E w p sd \<longleftrightarrow> (\<exists>call. run_sender sd (this_context w) p = Inr call \<and>
     cq_start_call E (completion_queue w) call = None)"

lemma StartAsyncRPC_Inl:
  assumes "IsRunningOnThisThread t w" and "heap w p = Some op"
    and "\<not> is_stop_body (body op)" and "StartAsyncRPC E t p w = Inl e"
  shows "\<exists>sd r. body op = AsyncOperation sd r \<and>
    (e = DanglingCapture \<and> run_sender sd (this_context w) p = Inl e \<or> e = QueueMisuse \<and> call_refused E w p sd)"
proof -
  obtain sd r where op: "body op = AsyncOperation sd r"
    using assms(3) by (cases "body op") simp_all
  show ?thesis
  proof (cases "run_sender sd (this_context w) p")
    case (Inl e')
    then show ?thesis using assms op run_sender_Inl [OF Inl] by (simp add: StartAsyncRPC_def)
  next
    case (Inr call)
    then have "cq_start_call E (completion_queue w) call = None \<and> e = QueueMisuse"
      using assms op by (simp add: StartAsyncRPC_def split: option.split_asm)
    then show ?thesis using Inr op by (auto simp: call_refused_def)
  qed
qed

text \<open>Faults a continuation can cause.\<close>

definition client_fault :: "fault \<Rightarrow> bool" where
  "client_fault e \<longleftrightarrow> e = BadObject \<or> e = DanglingCapture \<or> e = QueueMisuse \<or> e = Terminated \<or> e = Process_ended \<or>
     e = Undefined_behaviour"

lemma perform_Inl:
  assumes "ext_ok E" and "IsRunningOnThisThread t w" and "perform E t a w = Inl e"
  shows "client_fault e"
proof (cases a)
  case (Await p sd r)
  let ?w = "w\<lparr>heap := (heap w)(p \<mapsto> new_async_operation sd r)\<rparr>"
  show ?thesis
  proof (cases "heap w p = None")
    case True
    then have "StartAsyncRPC E t p ?w = Inl e"
      using assms Await by (simp add: place_def start_operation_def IsRunningOnThisThread_def)
    from StartAsyncRPC_Inl [OF _ _ _ this] show ?thesis
      using assms(2) by (auto simp: client_fault_def new_async_operation_def IsRunningOnThisThread_def)
  next
    case False
    then show ?thesis using assms Await by (cases "heap w p") (simp_all add: place_def client_fault_def)
  qed
next
  case RequestStop
  then show ?thesis using assms
    by (auto simp: on_stop_requested_def ScheduleImpl_def IsRunningOnThisThread_def split: option.split_asm)
qed (use assms in \<open>simp_all add: client_fault_def\<close>)

lemma perform_all_Inl:
  assumes "ext_ok E" and "IsRunningOnThisThread t w" and "owns E pend w"
    and "perform_all E t as w = Inl e"
  shows "client_fault e"
  using assms(2-4)
proof (induction as arbitrary: w)
  case (Cons a as)
  from Cons.prems(3) consider "perform E t a w = Inl e"
    | w1 where "perform E t a w = Inr w1" "perform_all E t as w1 = Inl e"
    by (auto simp: bind_res_Inl_iff)
  then show ?case
  proof cases
    case 1
    then show ?thesis using perform_Inl [OF assms(1) Cons.prems(1)] by blast
  next
    case 2
    have "undisturbed E pend w w1" using perform_local [OF assms(1) Cons.prems(1,2) 2(1)] .
    then show ?thesis
      using Cons.IH [of w1] 2(2) Cons.prems(1) by (auto simp: undisturbed_def quiet_running)
  qed
qed simp

lemma complete_Inl:
  assumes E: "ext_ok E" and run: "IsRunningOnThisThread t w" and own: "owns E pend w"
    and idle: "idle_op E pend w p" and res: "complete E t p r w = Inl e"
  shows "client_fault e"
proof -
  obtain as threw u where v: "rcv_set_value E r (ok (event w)) (client w) = (as, threw, u)"
    by (cases "rcv_set_value E r (ok (event w)) (client w)")
  define w1 where "w1 = w\<lparr>client := u, history := history w @ [Set_value p (ok (event w))]\<rparr>"
  have w1: "owns E pend w1" "idle_op E pend w1 p" "IsRunningOnThisThread t w1"
    using own idle run by (simp_all add: w1_def)
  have gone: "perform_all E t bs (release p w2) = Inl e \<Longrightarrow> owns E pend w2 \<Longrightarrow> idle_op E pend w2 p \<Longrightarrow>
      IsRunningOnThisThread t w2 \<Longrightarrow> client_fault e" for bs w2
    using perform_all_Inl [OF E _ release_idle(1), of t p w2 pend] release_idle(5) by metis
  consider "perform_all E t as (release p w1) = Inl e" | "e = Terminated"
    | "perform_all E t as w1 = Inl e"
    | w2 where "perform_all E t as w1 = Inr w2" "signal_error E t p r w2 = Inl e"
  proof (cases "\<not> threw \<or> rcv_noexcept E r")
    case True
    then show ?thesis using res v that(1,2) by (cases threw) (simp_all add: complete_def w1_def)
  next
    case False
    then have "bind_res (perform_all E t as w1) (signal_error E t p r) = Inl e"
      using res v by (simp add: complete_def w1_def)
    then show ?thesis using that(3,4) by (auto simp: bind_res_Inl_iff)
  qed
  then show ?thesis
  proof cases
    case 1
    then show ?thesis using gone w1 by blast
  next
    case 2
    then show ?thesis by (simp add: client_fault_def)
  next
    case 3
    then show ?thesis using perform_all_Inl [OF E w1(3,1)] by blast
  next
    case 4
    obtain as2 u2 where x: "rcv_set_error E r (client w2) = (as2, u2)"
      by (cases "rcv_set_error E r (client w2)")
    have "undisturbed E pend w1 w2" using perform_all_local [OF E w1(3,1) 4(1)] .
    then have "owns E pend w2" "idle_op E pend w2 p" "IsRunningOnThisThread t w2"
      using w1 by (auto simp: undisturbed_def quiet_running)
    then show ?thesis
      using 4(2) x by (intro gone [of as2 "w2\<lparr>client := u2, history := history w2 @ [Set_error p Exception_ptr]\<rparr>"])
        (simp_all add: signal_error_def)
  qed
qed

text \<open>
  C8. Which faults executing an item can end in. No \<^verbatim>\<open>AGRPC_CHECK\<close> fails on the loop's thread. A
  stop operation never faults; an RPC that another thread scheduled faults only when its sender
  reads a capture that is gone, or when gRPC itself refuses the call that the sender makes; a
  completion faults only through its receiver, one that does something or throws.
\<close>
theorem executing_item_faults:
  assumes "ext_ok E" and "reachable E s" and "pc s = Executing q"
    and "iq_items E q = p # ps" and "execute_op E (run_thread s) p (wld s) = Inl e"
  shows "e \<noteq> CheckFailed \<and> (\<exists>op sd r. heap (wld s) p = Some op \<and> body op = AsyncOperation sd r \<and>
    (execute op = Some OnRequestComplete \<and>
       (\<forall>u. rcv_set_value E r (ok (event (wld s))) (client (wld s)) \<noteq> ([], False, u)) \<or>
     execute op = Some OnScheduleComplete \<and>
       (e = DanglingCapture \<and> run_sender sd (this_context (wld s)) p = Inl e \<or>
        e = QueueMisuse \<and> call_refused E (wld s) p sd)))"
proof -
  have pcE: "pc s \<noteq> Exited" using assms(3) by simp
  note D = reachableD [OF assms(1,2) pcE]
  have own: "owns E (p # ps) (wld s)" using D(1) assms(3,4) by (simp add: batch_def)
  note pop = owns_pop [OF own]
  have run: "IsRunningOnThisThread (run_thread s) (wld s)"
    using D(4) assms(3) by (simp add: runs_alone_def in_loop_def)
  obtain op f where op: "heap (wld s) p = Some op" "execute op = Some f" using pop(4) by auto
  have ty: "f = Stop_execute \<longleftrightarrow> is_stop_body (body op)"
    using pop(5) op unfolding typed_def by (metis option.inject)
  show ?thesis
  proof (cases f)
    case Stop_execute
    then show ?thesis using assms(5) op ty by (cases "body op") (simp_all add: execute_op_def)
  next
    case OnScheduleComplete
    then have nb: "\<not> is_stop_body (body op)" using ty by simp
    then have "StartAsyncRPC E (run_thread s) p (wld s) = Inl e"
      using assms(5) op OnScheduleComplete by (cases "body op") (simp_all add: execute_op_def)
    from StartAsyncRPC_Inl [OF run op(1) nb this] show ?thesis
      using op OnScheduleComplete by auto
  next
    case OnRequestComplete
    then obtain sd r where b: "body op = AsyncOperation sd r" using ty by (cases "body op") auto
    have "idle_op E ps (wld s) p" using op b pop(2) by (simp add: idle_op_def loose_def)
    moreover have res: "complete E (run_thread s) p r (wld s) = Inl e"
      using assms(5) op b OnRequestComplete by (simp add: execute_op_def)
    ultimately have "client_fault e" using complete_Inl [OF assms(1) run pop(1)] by blast
    moreover have "rcv_set_value E r (ok (event (wld s))) (client (wld s)) \<noteq> ([], False, u)" for u
      using res by (auto simp: complete_def)
    ultimately show ?thesis using op b OnRequestComplete by (auto simp: client_fault_def)
  qed
qed

text \<open>The queue is shut down before the loop gets to the scheduled read.\<close>

definition late_moves :: "(ref_cq, script) move list" where
  "late_moves = boot @ [Loop, Shut_down 1]"

definition at_late :: "(op_ptr list, queue_view, ref_cq, script, nat) sys" where
  "at_late = the (demo_run quiet_receiver late_moves)"

theorem executing_item_faults_witness:
  "execute_op ref_ext 0 5 (wld at_late) = Inl QueueMisuse \<and>
   (\<exists>sd. call_refused ref_ext (wld at_late) 5 sd)"
proof -
  have "demo_run quiet_receiver late_moves \<noteq> None" unfolding demo_defs late_moves_def by code_simp
  then have r: "reachable ref_ext at_late" unfolding at_late_def by (rule demo_the)
  have v: "pc at_late = Executing [5]"
    "case execute_op ref_ext 0 5 (wld at_late) of Inl e \<Rightarrow> e = QueueMisuse | Inr w \<Rightarrow> False"
    "run_thread at_late = 0" "exec_of (heap (wld at_late)) 5 = Some OnScheduleComplete"
    unfolding demo_defs late_moves_def at_late_def by code_simp+
  then have x: "execute_op ref_ext (run_thread at_late) 5 (wld at_late) = Inl QueueMisuse"
    by (simp split: sum.split_asm)
  from executing_item_faults [OF ref_ok r v(1) _ x] v(3,4) x show ?thesis by (auto simp: exec_of_def)
qed

section \<open>A call of Run is a path of the system\<close>

lemma execute_all_path:
  assumes E: "ext_ok E"
  shows "execute_all E (run_thread s) (iq_items E q) (wld s) = Inr w' \<Longrightarrow> pc s = Executing q \<Longrightarrow>
    (loop_step E)\<^sup>*\<^sup>* s (s\<lparr>wld := w', pc := Check_stop\<rparr>)"
proof (induction "iq_items E q" arbitrary: q s)
  case Nil
  from Nil(1) have "iq_is_empty E q" using E by (simp add: lib_simps)
  moreover have "wld s = w'" using Nil(1,2) by (simp flip: Nil(1))
  ultimately show ?case using loop_step.batch_done [OF Nil(3)] by auto
next
  case (Cons p ps)
  obtain q' where q': "iq_pop_front E q = (p, q')" "iq_items E q' = ps"
    using iq_pop [OF E, of q p ps] Cons.hyps(2) by auto
  have ne: "\<not> iq_is_empty E q" using E by (simp add: lib_simps flip: Cons.hyps(2))
  obtain w1 where w1: "execute_op E (run_thread s) p (wld s) = Inr w1"
    "execute_all E (run_thread s) ps w1 = Inr w'"
    using Cons.prems(1) by (auto simp flip: Cons.hyps(2))
  have "loop_step E s (s\<lparr>wld := w1, pc := Executing q'\<rparr>)"
    using loop_step.execute_item [OF Cons.prems(2) ne q'(1) w1(1)] .
  also have "(loop_step E)\<^sup>*\<^sup>* (s\<lparr>wld := w1, pc := Executing q'\<rparr>)
      ((s\<lparr>wld := w1, pc := Executing q'\<rparr>)\<lparr>wld := w', pc := Check_stop\<rparr>)"
    using Cons.hyps(1) [of q' "s\<lparr>wld := w1, pc := Executing q'\<rparr>"] q' w1(2) by simp
  finally show ?case by simp
qed

lemma ExecutePendingLocal_path:
  assumes E: "ext_ok E" and pc: "pc s = Loop_top"
    and ex: "ExecutePendingLocal E (run_thread s) (wld s) = Some (Inr (n, w'))"
  shows "(loop_step E)\<^sup>*\<^sup>* s (s\<lparr>wld := w', pc := Check_stop\<rparr>)"
proof (cases "iq_is_empty E (local_queue (wld s))")
  case True
  then have "w' = wld s" using ex by (simp add: ExecutePendingLocal_def)
  then show ?thesis using loop_step.local_empty [OF pc True] by auto
next
  case False
  let ?q = "local_queue (wld s)"
  let ?s = "s\<lparr>wld := (wld s)\<lparr>local_queue := iq_moved_from E ?q\<rparr>, pc := Executing ?q\<rparr>"
  have "execute_all E (run_thread ?s) (iq_items E ?q) (wld ?s) = Inr w'"
    using ex False by (simp add: ExecutePendingLocal_def run_pending_is_execute_all [OF E])
  from execute_all_path [OF E this] have "(loop_step E)\<^sup>*\<^sup>* ?s (?s\<lparr>wld := w', pc := Check_stop\<rparr>)"
    by simp
  with loop_step.local_batch [OF pc False] show ?thesis
    by (simp add: converse_rtranclp_into_rtranclp)
qed

definition left_run :: "('q, 'rq, 'cq, 'r, 'u) sys \<Rightarrow> ('q, 'rq, 'cq, 'r, 'u) world \<Rightarrow>
    ('q, 'rq, 'cq, 'r, 'u) sys \<Rightarrow> bool" where
  "left_run s w s' \<longleftrightarrow> wld s' = leave_run s w \<and> signalling s' = signalling s \<and>
     (pc s' = Outside \<or> pc s' = Exited)"

text \<open>One round of the loop, up to the call of \<^verbatim>\<open>Next\<close>.\<close>

lemma round_path:
  assumes E: "ext_ok E" and pc: "pc s = Loop_top"
    and ex: "ExecutePendingLocal E (run_thread s) (wld s) = Some (Inr (n, w1))"
  shows "stopped (heap w1) (run_stop s) \<Longrightarrow>
      (loop_step E)\<^sup>*\<^sup>* s (s\<lparr>wld := leave_run s w1, pc := Outside\<rparr>)"
    and "\<not> stopped (heap w1) (run_stop s) \<Longrightarrow>
      (loop_step E)\<^sup>*\<^sup>* s (s\<lparr>wld := check_remote_queue E w1, pc := Acquiring\<rparr>)"
proof -
  let ?s1 = "s\<lparr>wld := w1, pc := Check_stop\<rparr>"
  have p1: "(loop_step E)\<^sup>*\<^sup>* s ?s1" using ExecutePendingLocal_path [OF E pc ex] .
  show "(loop_step E)\<^sup>*\<^sup>* s (s\<lparr>wld := leave_run s w1, pc := Outside\<rparr>)"
    if "stopped (heap w1) (run_stop s)"
    using p1 loop_step.stop [of ?s1 E] that
    by (simp add: leave_run_def rtranclp.rtrancl_into_rtrancl)
  show "(loop_step E)\<^sup>*\<^sup>* s (s\<lparr>wld := check_remote_queue E w1, pc := Acquiring\<rparr>)"
    if "\<not> stopped (heap w1) (run_stop s)"
    using p1 loop_step.go_on [of ?s1 E] loop_step.poll [of "?s1\<lparr>pc := Check_remote\<rparr>" E] that
    by (simp add: rtranclp.rtrancl_into_rtrancl)
qed

lemma run_loop_path:
  fixes s :: "('q, 'rq, 'cq, 'r, 'u) sys"
  assumes E: "ext_ok E" and run: "run_loop E t p w = Some (Inr w')"
    and s: "pc s = Loop_top" "wld s = w" "run_thread s = t" "run_stop s = p"
  shows "\<exists>s'. (loop_step E)\<^sup>*\<^sup>* s s' \<and> left_run s w' s'"
proof -
  have "ext_ok E' \<longrightarrow> (\<forall>w' (s :: ('q, 'rq, 'cq, 'r, 'u) sys). y = Inr w' \<longrightarrow> pc s = Loop_top \<longrightarrow>
      wld s = w \<longrightarrow> run_thread s = t \<longrightarrow> run_stop s = p \<longrightarrow>
      (\<exists>s'. (loop_step E')\<^sup>*\<^sup>* s s' \<and> left_run s w' s'))"
    if "run_loop E' t p w = Some y" for E' :: "('q, 'rq, 'cq, 'r, 'u) ext" and t p w y
    using that
  proof (induction rule: run_loop.raw_induct [rotated 1, consumes 1, case_names round])
    case (round rec E t p w y)
    show ?case
    proof (intro impI allI)
      fix w' and s :: "('q, 'rq, 'cq, 'r, 'u) sys"
      assume E: "ext_ok E" and y: "y = Inr w'" and pc: "pc s = Loop_top"
        and s: "wld s = w" "run_thread s = t" "run_stop s = p"
      obtain n w1 where ex: "ExecutePendingLocal E t w = Some (Inr (n, w1))"
        using round(2) y by (auto split: option.split_asm sum.split_asm prod.split_asm)
      note path = round_path [OF E pc, unfolded s, OF ex]
      let ?s2 = "s\<lparr>wld := check_remote_queue E w1, pc := Acquiring\<rparr>"
      show "\<exists>s'. (loop_step E)\<^sup>*\<^sup>* s s' \<and> left_run s w' s'"
      proof (cases "stopped (heap w1) p")
        case True
        moreover from this have "w' = w1" using round(2) ex y by simp
        ultimately show ?thesis
          using path(1) by (intro exI [of _ "s\<lparr>wld := leave_run s w1, pc := Outside\<rparr>"])
            (simp add: left_run_def)
      next
        case False
        obtain b w2 where aq: "AcquireCompletionQueueItems E (check_remote_queue E w1) = Some (b, w2)"
          using round(2) ex False by (auto split: option.split_asm)
        show ?thesis
        proof (cases b)
          case True
          let ?s3 = "s\<lparr>wld := w2, pc := Loop_top\<rparr>"
          have p3: "(loop_step E)\<^sup>*\<^sup>* s ?s3"
            using path(2) [OF False] loop_step.acquire [of ?s2 E] aq True
            by (simp add: rtranclp.rtrancl_into_rtrancl)
          have "rec E t p w2 = Some y" using round(2) ex False aq True by simp
          from round(1) [OF this, rule_format, OF E y, of ?s3] s
          obtain s' where "(loop_step E)\<^sup>*\<^sup>* ?s3 s'" "left_run ?s3 w' s'"
            by auto
          with p3 show ?thesis by (auto simp: left_run_def leave_run_def intro: rtranclp_trans)
        next
          case nb: False
          then have "w' = w2" using round(2) ex False aq y by simp
          then show ?thesis
            using path(2) [OF False] loop_step.drained [of ?s2 E] aq nb
            by (intro exI [of _ "s\<lparr>wld := leave_run s w2, pc := Exited\<rparr>"])
              (simp add: left_run_def leave_run_def rtranclp.rtrancl_into_rtrancl)
        qed
      qed
    qed
  qed
  from this [OF run] E s show ?thesis by blast
qed

lemma Run_path:
  assumes E: "ext_ok E" and pc: "pc s = Outside" and t: "t \<notin> set (signalling s)"
    and run: "Run E t p (wld s) = Some (Inr w')"
  shows "\<exists>s'. (loop_step E)\<^sup>*\<^sup>* s s' \<and> wld s' = w' \<and> signalling s' = signalling s \<and>
    (pc s' = Outside \<or> pc s' = Exited)"
proof -
  obtain w1 w2 w3 where w1: "begin_run p (wld s) = Inr w1"
    and w3: "run_loop E t p (enter_context t (Some (this_context w1)) w1) = Some (Inr w3)"
    and w': "w' = end_run p (enter_context t (current_thread_context w1 t) w3)"
    using run by (auto simp: Run_def RunImpl_def Let_def split: sum.split_asm)
  let ?s1 = "s\<lparr>wld := w1, pc := Registered, run_thread := t, run_stop := p\<rparr>"
  let ?s2 = "?s1\<lparr>wld := enter_context t (Some (this_context w1)) w1, pc := Loop_top,
    old_context := current_thread_context w1 t\<rparr>"
  have "(loop_step E)\<^sup>*\<^sup>* s ?s2"
    using loop_step.run_enter [OF pc t w1, of E] loop_step.impl_enter [of ?s1 E] t
    by (auto intro: rtranclp.rtrancl_into_rtrancl [OF r_into_rtranclp])
  moreover obtain s' where "(loop_step E)\<^sup>*\<^sup>* ?s2 s'" and "left_run ?s2 w3 s'"
    using run_loop_path [OF E w3, of ?s2] by auto
  ultimately show ?thesis
    by (auto simp: left_run_def leave_run_def w' intro: rtranclp_trans)
qed

text \<open>
  C7. The sequential code of \<^verbatim>\<open>Run\<close> refines the step relation: a call that returns is an
  execution of the system that starts outside \<^verbatim>\<open>Run\<close> and ends outside it, with the same final
  state, so every property of reachable states holds for it.
\<close>
theorem Run_refines_steps:
  assumes "ext_ok E" and "reachable E s" and "pc s = Outside" and "t \<notin> set (signalling s)"
    and "Run E t p (wld s) = Some (Inr w')"
  shows "\<exists>s'. (loop_step E)\<^sup>*\<^sup>* s s' \<and> reachable E s' \<and> wld s' = w' \<and> \<not> in_loop (pc s')"
  using Run_path [OF assms(1,3-5)] reachable_steps [OF assms(2)] by (fastforce simp: in_loop_def)

text \<open>A context whose first read shuts the queue down when it completes: \<^verbatim>\<open>Run\<close> returns.\<close>

definition closing_moves :: "(ref_cq, script) move list" where
  "closing_moves = [Signal 1]"

definition at_closing :: "(op_ptr list, queue_view, ref_cq, script, nat) sys" where
  "at_closing = the (demo_run (Script [ShutDown_queue] False) closing_moves)"

lemma at_closing_reachable: "reachable ref_ext at_closing"
proof -
  have "demo_run (Script [ShutDown_queue] False) closing_moves \<noteq> None"
    unfolding demo_defs closing_moves_def by code_simp
  then show ?thesis unfolding at_closing_def by (rule demo_the)
qed

lemma at_closing_values: "pc at_closing = Outside" "signalling at_closing = []"
  unfolding demo_defs closing_moves_def at_closing_def by code_simp+

lemma at_closing_Run:
  "\<exists>w'. Run ref_ext 0 8 (wld at_closing) = Some (Inr w') \<and> delivered (history w') = [(5, True)]"
proof -
  have "case Run ref_ext 0 8 (wld at_closing) of
      Some (Inr w') \<Rightarrow> delivered (history w') = [(5, True)] | _ \<Rightarrow> False"
    unfolding demo_defs closing_moves_def at_closing_def by code_simp
  then show ?thesis by (auto split: option.split_asm sum.split_asm)
qed

theorem Run_refines_steps_witness:
  "\<exists>s'. (loop_step ref_ext)\<^sup>*\<^sup>* at_closing s' \<and> reachable ref_ext s' \<and>
     delivered (history (wld s')) = [(5, True)] \<and> \<not> in_loop (pc s')"
proof -
  obtain w' where w': "Run ref_ext 0 8 (wld at_closing) = Some (Inr w')" "delivered (history w') = [(5, True)]"
    using at_closing_Run by blast
  from Run_refines_steps [OF ref_ok at_closing_reachable at_closing_values(1) _ w'(1)]
  show ?thesis using w'(2) at_closing_values(2) by auto
qed

text \<open>
  C20. What \<^verbatim>\<open>Run\<close> leaves behind: the thread's former context is current again, the stop callback
  is deregistered, the stop operation is gone, and every completion that was acquired has been
  given to its receiver.
\<close>
theorem Run_result:
  assumes "ext_ok E" and "reachable E s" and "pc s = Outside" and "t \<notin> set (signalling s)"
    and "Run E t p (wld s) = Some (Inr w')"
  shows "current_thread_context w' t = current_thread_context (wld s) t \<and> stop_callback w' = None \<and>
    heap w' p = None \<and> acquired (history w') = delivered (history w')"
proof -
  obtain w1 w2 where "begin_run p (wld s) = Inr w1"
    and "w' = end_run p (enter_context t (current_thread_context w1 t) w2)"
    using assms(5) by (auto simp: Run_def RunImpl_def Let_def split: sum.split_asm)
  then have "current_thread_context w' t = current_thread_context (wld s) t" "stop_callback w' = None"
    "heap w' p = None"
    by (auto simp: begin_run_def end_run_def enter_context_def release_def place_def split: if_split_asm)
  moreover obtain s' where s': "reachable E s'" "wld s' = w'" "pc s' = Outside \<or> pc s' = Exited"
    using Run_path [OF assms(1,3-5)] reachable_steps [OF assms(2)] by blast
  have "acquired (history w') = delivered (history w')"
  proof (cases "pc s' = Exited")
    case True
    then show ?thesis using reachable_exit [OF assms(1) s'(1)] s'(2) by (simp add: exit_inv_def)
  next
    case False
    then show ?thesis
      using reachableD(2,3) [OF assms(1) s'(1) False] s'(2,3) by (auto simp: waiting_place_def delivery_def)
  qed
  ultimately show ?thesis by simp
qed

theorem Run_result_witness:
  "\<exists>w'. Run ref_ext 0 8 (wld at_closing) = Some (Inr w') \<and> acquired (history w') = [(5, True)]"
proof -
  obtain w' where w': "Run ref_ext 0 8 (wld at_closing) = Some (Inr w')" "delivered (history w') = [(5, True)]"
    using at_closing_Run by blast
  from Run_result [OF ref_ok at_closing_reachable at_closing_values(1) _ w'(1)]
  show ?thesis using w' at_closing_values(2) by auto
qed

text \<open>
  C21. Returning on a stop request is safe: when the loop breaks out because \<^verbatim>\<open>should_stop\<close> is
  set, the stop operation, which dies with the stack frame of \<^verbatim>\<open>Run\<close>, is in no queue, is no tag
  of the completion queue and is not registered with the stop token any more; whatever is still
  queued stays queued, and the thread's former context is current again.
\<close>
theorem stop_exit_is_safe:
  assumes "ext_ok E" and "reachable E s" and "pc s = Check_stop"
    and "stopped (heap (wld s)) (run_stop s)"
  shows "run_stop s \<notin> set (iq_items E (local_queue (wld s))) \<and>
    run_stop s \<notin> set (remote_items E (wld s)) \<and> run_stop s \<notin># owed E (wld s) \<and>
    stop_callback (wld s) = None \<and>
    local_queue (leave_run s (wld s)) = local_queue (wld s) \<and>
    remote_queue (leave_run s (wld s)) = remote_queue (wld s) \<and>
    current_thread_context (leave_run s (wld s)) (run_thread s) = old_context s"
proof -
  have pcE: "pc s \<noteq> Exited" using assms(3) by simp
  note D = reachableD [OF assms(1,2) pcE]
  have own: "ownership (heap (wld s)) (stop_callback (wld s)) (ready E [] (wld s))
      (remote_items E (wld s)) (owed E (wld s))"
    using D(1) assms(3) by (simp add: owns_def batch_def)
  have nh: "run_stop s \<notin># held (ready E [] (wld s)) (remote_items E (wld s)) (owed E (wld s))"
    using own assms(4) by (simp add: ownership_def)
  have "stop_callback (wld s) \<noteq> Some p" for p
  proof
    assume p: "stop_callback (wld s) = Some p"
    then have "p = run_stop s" using D(4) by (simp add: runs_alone_def)
    moreover have "heap (wld s) p = Some new_stop_operation" using own p by (simp add: ownership_def)
    ultimately show False using assms(4) by (simp add: stopped_def new_stop_operation_def)
  qed
  then have "stop_callback (wld s) = None" by (cases "stop_callback (wld s)") auto
  with nh show ?thesis by (auto simp: ready_def)
qed

theorem stop_exit_is_safe_witness:
  "run_stop at_stopped \<notin> set (iq_items ref_ext (local_queue (wld at_stopped))) \<and>
   stop_callback (wld at_stopped) = None"
  using stop_exit_is_safe [OF ref_ok at_stopped_reachable] at_stopped_values by simp

end
