(* ===== verification/Loop_Stall.thy ===== *)
theory Loop_Stall
  imports Loop_Execution
begin

text \<open>
  Where the loop falls short. After the check of the remote queue has moved items to the local
  queue, the loop calls \<^verbatim>\<open>Next\<close> before it executes them; with no event owed it blocks with work
  in hand, and since it left the queue active nobody will wake it. On a shut-down queue it leaves
  the ready work behind, the stop operation possibly among it. And a loop that starts before the
  first item was enqueued polls a queue that is already inactive.
\<close>

section \<open>Blocked with work in hand\<close>

definition stalled :: "('q, 'rq, 'cq, 'r, 'u) ext \<Rightarrow> ('q, 'rq, 'cq, 'r, 'u) sys \<Rightarrow> bool" where
  "stalled E s \<longleftrightarrow> pc s = Acquiring \<and> cq_tags E (completion_queue (wld s)) = {#} \<and> signalling s = [] \<and>
     \<not> remote_queue_read_submitted (wld s) \<and> aiq_view E (remote_queue (wld s)) \<noteq> Inactive \<and>
     iq_items E (local_queue (wld s)) \<noteq> []"

definition given_up :: "('q, 'rq, 'cq, 'r, 'u) ext \<Rightarrow> ('q, 'rq, 'cq, 'r, 'u) sys \<Rightarrow> bool" where
  "given_up E s \<longleftrightarrow> pc s = Exited \<and> cq_down E (completion_queue (wld s))"

definition same_work :: "('q, 'rq, 'cq, 'r, 'u) sys \<Rightarrow> ('q, 'rq, 'cq, 'r, 'u) sys \<Rightarrow> bool" where
  "same_work s s' \<longleftrightarrow> local_queue (wld s') = local_queue (wld s) \<and> history (wld s') = history (wld s)"

lemma remote_enqueue_active:
  assumes "ext_ok E" and "aiq_view E (remote_queue w) \<noteq> Inactive"
  shows "\<exists>rq. remote_enqueue E p w = (False, w\<lparr>remote_queue := rq\<rparr>) \<and> aiq_view E rq \<noteq> Inactive"
proof (cases "aiq_view E (remote_queue w)")
  case (Active xs)
  from aiq_enqueue_active [OF assms(1) Active, of p] show ?thesis
    by (auto simp: remote_enqueue_def)
qed (use assms in simp)

lemma stalled_enqueue:
  assumes "ext_ok E" and "stalled E s"
    and "w = (wld s)\<lparr>heap := H, stop_callback := sc\<rparr>"
  shows "stalled E (enqueue_from E i p s w) \<and> same_work s (enqueue_from E i p s w)"
proof -
  have "aiq_view E (remote_queue w) \<noteq> Inactive" using assms(2,3) by (simp add: stalled_def)
  from remote_enqueue_active [OF assms(1) this, of p] show ?thesis
    using assms(2,3) by (auto simp: enqueue_from_def stalled_def same_work_def)
qed

lemma stalled_blocked:
  assumes "ext_ok E" and "stalled E s"
  shows "AcquireCompletionQueueItems E (wld s) \<noteq> Some (True, w')"
    and "AcquireCompletionQueueItems E (wld s) = Some (False, w') \<Longrightarrow>
      \<exists>cq. cq_down E cq \<and> w' = (wld s)\<lparr>completion_queue := cq\<rparr>"
proof -
  have "cq_tags E (completion_queue (wld s)) = {#}" using assms(2) by (simp add: stalled_def)
  then show "AcquireCompletionQueueItems E (wld s) \<noteq> Some (True, w')"
    using cq_nextD(1) [OF assms(1), of "completion_queue (wld s)"]
    unfolding AcquireCompletionQueueItems_True by fastforce
  show "AcquireCompletionQueueItems E (wld s) = Some (False, w') \<Longrightarrow>
      \<exists>cq. cq_down E cq \<and> w' = (wld s)\<lparr>completion_queue := cq\<rparr>"
    using cq_drainedD(4) [OF assms(1)] unfolding AcquireCompletionQueueItems_False by blast
qed

lemma stalled_step:
  assumes E: "ext_ok E" and st: "stalled E s" and step: "loop_step E s s'"
  shows "(stalled E s' \<or> given_up E s') \<and> same_work s s'"
  using step
proof cases
  case (remote_start i p sd r)
  from start_from_effect [OF remote_start(3)] show ?thesis
    using stalled_enqueue [OF E st, where sc = "stop_callback (wld s)"] by auto
next
  case (remote_stop i p)
  then show ?thesis using stalled_enqueue [OF E st, where H = "heap (wld s)" and sc = None] by simp
next
  case (drained w')
  with stalled_blocked(2) [OF E st] show ?thesis
    by (auto simp: given_up_def same_work_def)
next
  case (acquire w')
  with stalled_blocked(1) [OF E st, of w'] show ?thesis by simp
next
  case (remote_shutdown i)
  then show ?thesis using st E by (simp add: stalled_def same_work_def ShutDown_def lib_simps)
next
  case (grpc_progress cq)
  then show ?thesis using st cq_progress_laws [OF E grpc_progress(2)] by (simp add: stalled_def same_work_def)
qed (use st in \<open>simp_all add: stalled_def same_work_def\<close>)

lemma given_up_step:
  assumes E: "ext_ok E" and st: "given_up E s" and step: "loop_step E s s'"
  shows "given_up E s' \<and> same_work s s'"
  using step
proof cases
  case (remote_start i p sd r)
  with start_from_effect [OF remote_start(3)] st show ?thesis
    by (auto simp: given_up_def same_work_def enqueue_from_def remote_enqueue_def split_def Let_def)
next
  case (remote_stop i p)
  with st show ?thesis
    by (auto simp: given_up_def same_work_def enqueue_from_def remote_enqueue_def split_def Let_def)
next
  case (remote_signal i w')
  with st show ?thesis
    by (auto simp: given_up_def same_work_def dest!: SignalRemoteQueue_Inr cq_alarm_setD(2) [OF E])
next
  case (remote_shutdown i)
  then show ?thesis using st E by (simp add: given_up_def same_work_def ShutDown_def lib_simps)
next
  case (grpc_progress cq)
  then show ?thesis using st cq_progress_laws [OF E grpc_progress(2)] by (simp add: given_up_def same_work_def)
qed (use st in \<open>simp_all add: given_up_def same_work_def\<close>)

text \<open>What a stalled loop keeps, whoever moves.\<close>

lemma stalled_moves:
  assumes "ext_ok E" and "stalled E s" and "(loop_step E)\<^sup>*\<^sup>* s s'"
  shows "local_queue (wld s') = local_queue (wld s) \<and> history (wld s') = history (wld s) \<and>
    (stalled E s' \<or> pc s' = Exited \<and> cq_down E (completion_queue (wld s')))"
proof -
  have "(stalled E s' \<or> given_up E s') \<and> same_work s s'"
    using assms(3)
  proof (induction rule: rtranclp_induct)
    case base
    then show ?case using assms(2) by (simp add: same_work_def)
  next
    case (step t u)
    then show ?case
      using stalled_step [OF assms(1) _ step.hyps(2)] given_up_step [OF assms(1) _ step.hyps(2)]
      by (auto simp: same_work_def)
  qed
  then show ?thesis by (auto simp: given_up_def same_work_def)
qed

text \<open>
  C5. A loop that has moved remote items to its local queue, and so has left the remote queue active and
  its read flag clear, and then blocks in \<^verbatim>\<open>Next\<close> with no event owed and no thread about to set the
  alarm, never executes these items: whatever other threads start, however often they ask it to
  stop, the ready items stay where they are and no receiver hears anything; the only way out is
  a shutdown of the queue, on which \<^verbatim>\<open>Run\<close> returns without executing them.
\<close>
theorem stalled_for_ever:
  assumes "ext_ok E" and "pc s = Acquiring" and "iq_items E (local_queue (wld s)) \<noteq> []"
    and "\<not> remote_queue_read_submitted (wld s)" and "aiq_view E (remote_queue (wld s)) \<noteq> Inactive"
    and "cq_tags E (completion_queue (wld s)) = {#}" and "signalling s = []" and "(loop_step E)\<^sup>*\<^sup>* s s'"
  shows "local_queue (wld s') = local_queue (wld s) \<and> history (wld s') = history (wld s) \<and>
    (stalled E s' \<or> pc s' = Exited \<and> cq_down E (completion_queue (wld s')))"
  using stalled_moves [OF assms(1) _ assms(8)] assms(2-7) by (auto simp: stalled_def)

text \<open>
  Thread 1 starts operation 6 after the read (operation 5) has been served: the loop wakes up,
  takes operation 6 into its local queue and blocks.
\<close>

definition stall_moves :: "(ref_cq, script) move list" where
  "stall_moves = woken @ [Signal 1, Loop, Loop, Loop, Loop, Loop, Loop, Loop, Loop]"

definition at_stalled :: "(op_ptr list, queue_view, ref_cq, script, nat) sys" where
  "at_stalled = the (demo_run quiet_receiver stall_moves)"

lemma at_stalled_reachable: "reachable ref_ext at_stalled"
proof -
  have "demo_run quiet_receiver stall_moves \<noteq> None" unfolding demo_defs stall_moves_def by code_simp
  then show ?thesis unfolding at_stalled_def by (rule demo_the)
qed

lemma at_stalled_values:
  "pc at_stalled = Acquiring" "completion_queue (wld at_stalled) = ([], False)"
  "signalling at_stalled = []" "\<not> remote_queue_read_submitted (wld at_stalled)"
  "remote_queue (wld at_stalled) = Active []" "local_queue (wld at_stalled) = [6]"
  unfolding demo_defs stall_moves_def at_stalled_def by code_simp+

lemma at_stalled_stalled: "stalled ref_ext at_stalled"
  by (simp add: stalled_def at_stalled_values)

theorem stalled_for_ever_witness:
  "reachable ref_ext at_stalled \<and>
   (\<exists>s'. exec_moves ref_ext [Start 1 9 demo_sender quiet_receiver, Stop_request 2] at_stalled = Some s' \<and>
      local_queue (wld s') = [6] \<and> stalled ref_ext s' \<and> remote_queue (wld s') = Active [9, 8])"
proof -
  let ?ms = "[Start 1 9 demo_sender quiet_receiver, Stop_request 2]"
  have "case exec_moves ref_ext ?ms at_stalled of
      None \<Rightarrow> False | Some s' \<Rightarrow> remote_queue (wld s') = Active [9, 8] \<and> pc s' = Acquiring"
    unfolding demo_defs stall_moves_def at_stalled_def by code_simp
  then obtain s' where s': "exec_moves ref_ext ?ms at_stalled = Some s'"
    "remote_queue (wld s') = Active [9, 8]" "pc s' = Acquiring"
    by (auto split: option.split_asm)
  from stalled_for_ever [OF ref_ok _ _ _ _ _ _ exec_moves_steps [OF s'(1)]] s'
  show ?thesis using at_stalled_reachable by (auto simp: at_stalled_values)
qed

section \<open>A stop request that is never heard\<close>

definition deaf_moves :: "(ref_cq, script) move list" where
  "deaf_moves = served @ [Loop, Loop, Loop, Loop, Loop, Stop_request 1, Signal 1,
     Loop, Loop, Loop, Loop]"

definition at_deaf :: "(op_ptr list, queue_view, ref_cq, script, nat) sys" where
  "at_deaf = the (demo_run quiet_receiver deaf_moves)"

text \<open>
  C25. A stop request can be lost for good: there is an execution in which an idle loop is asked to
  stop by another thread and takes the stop operation into its local queue, so that the callback
  cannot be invoked again; and in every continuation of this execution, whatever other threads do,
  the operation stays in that queue and is never executed, and the loop stays blocked in \<^verbatim>\<open>Next\<close> unless
  the queue is shut down.
\<close>
theorem stop_request_can_be_lost:
  "reachable ref_ext at_deaf \<and> local_queue (wld at_deaf) = [run_stop at_deaf] \<and>
   stop_callback (wld at_deaf) = None \<and> \<not> stopped (heap (wld at_deaf)) (run_stop at_deaf) \<and>
   (\<forall>s. (loop_step ref_ext)\<^sup>*\<^sup>* at_deaf s \<longrightarrow>
      local_queue (wld s) = [run_stop at_deaf] \<and>
      (pc s = Acquiring \<or> pc s = Exited \<and> cq_down ref_ext (completion_queue (wld s))))"
proof -
  have "demo_run quiet_receiver deaf_moves \<noteq> None" unfolding demo_defs deaf_moves_def by code_simp
  then have "reachable ref_ext at_deaf" unfolding at_deaf_def by (rule demo_the)
  moreover have v: "pc at_deaf = Acquiring" "completion_queue (wld at_deaf) = ([], False)"
    "signalling at_deaf = []" "\<not> remote_queue_read_submitted (wld at_deaf)"
    "remote_queue (wld at_deaf) = Active []" "local_queue (wld at_deaf) = [8]" "run_stop at_deaf = 8"
    "stop_callback (wld at_deaf) = None" "\<not> stopped (heap (wld at_deaf)) 8"
    unfolding demo_defs deaf_moves_def at_deaf_def by code_simp+
  moreover have "stalled ref_ext at_deaf" using v by (simp add: stalled_def)
  note forever = stalled_moves [OF ref_ok this]
  have "local_queue (wld s) = [8] \<and>
      (pc s = Acquiring \<or> pc s = Exited \<and> cq_down ref_ext (completion_queue (wld s)))"
    if "(loop_step ref_ext)\<^sup>*\<^sup>* at_deaf s" for s
    using forever [OF that] v(6) by (auto simp: stalled_def)
  ultimately show ?thesis by simp
qed

theorem stop_request_can_be_lost_witness:
  "\<exists>s. exec_moves ref_ext [Start 1 9 demo_sender quiet_receiver, Shut_down 2, Loop] at_deaf = Some s \<and>
     local_queue (wld s) = [8] \<and> pc s = Exited"
proof -
  let ?ms = "[Start 1 9 demo_sender quiet_receiver, Shut_down 2, Loop]"
  have "case exec_moves ref_ext ?ms at_deaf of None \<Rightarrow> False | Some s \<Rightarrow> pc s = Exited"
    "run_stop at_deaf = 8"
    unfolding demo_defs deaf_moves_def at_deaf_def by code_simp+
  then obtain s where "exec_moves ref_ext ?ms at_deaf = Some s" "pc s = Exited" "run_stop at_deaf = 8"
    by (auto split: option.split_asm)
  with stop_request_can_be_lost exec_moves_steps [of ref_ext ?ms at_deaf s] show ?thesis by auto
qed

section \<open>Leaving on a shut-down queue\<close>

text \<open>The stalled loop is shut down instead: \<^verbatim>\<open>Run\<close> returns.\<close>

definition at_abandoned :: "(op_ptr list, queue_view, ref_cq, script, nat) sys" where
  "at_abandoned = the (demo_run quiet_receiver (deaf_moves @ [Shut_down 1, Loop]))"

text \<open>
  C26. Leaving on a drained queue is not safe: \<^verbatim>\<open>Run\<close> returns with ready operations still in the
  local queue, and one of them can be its own stop operation, whose storage it has just
  released.
\<close>
theorem drained_exit_leaves_dead_item:
  "reachable ref_ext at_abandoned \<and> pc at_abandoned = Exited \<and>
   run_stop at_abandoned \<in> set (iq_items ref_ext (local_queue (wld at_abandoned))) \<and>
   heap (wld at_abandoned) (run_stop at_abandoned) = None"
proof -
  have "demo_run quiet_receiver (deaf_moves @ [Shut_down 1, Loop]) \<noteq> None"
    unfolding demo_defs deaf_moves_def by code_simp
  then have "reachable ref_ext at_abandoned" unfolding at_abandoned_def by (rule demo_the)
  moreover have "pc at_abandoned = Exited" "local_queue (wld at_abandoned) = [8]"
    "run_stop at_abandoned = 8" "heap (wld at_abandoned) 8 = None"
    unfolding demo_defs deaf_moves_def at_abandoned_def by code_simp+
  ultimately show ?thesis by simp
qed

section \<open>A remote start on a shut-down queue\<close>

definition at_late_start :: "(op_ptr list, queue_view, ref_cq, script, nat) sys" where
  "at_late_start = the (demo_run quiet_receiver (woken @ [Shut_down 2]))"

text \<open>
  C27. The wake-up after a shutdown breaks the completion queue's contract: there is an execution in
  which a thread has enqueued its operation and must set the alarm, and the queue, shut down in
  between by another thread, refuses it.
\<close>
theorem wakeup_after_shutdown_misuses_queue:
  "reachable ref_ext at_late_start \<and> signalling at_late_start = [1] \<and>
   SignalRemoteQueue ref_ext (wld at_late_start) = Inl QueueMisuse"
proof -
  have "demo_run quiet_receiver (woken @ [Shut_down 2]) \<noteq> None" unfolding demo_defs by code_simp
  then have "reachable ref_ext at_late_start" unfolding at_late_start_def by (rule demo_the)
  moreover have "signalling at_late_start = [1]" "completion_queue (wld at_late_start) = ([], True)"
    unfolding demo_defs at_late_start_def by code_simp+
  ultimately show ?thesis by (simp add: SignalRemoteQueue_def)
qed

section \<open>A loop that starts first\<close>

text \<open>
  On a new context \<^verbatim>\<open>Run\<close> breaks the contract of the atomic queue before anything was started:
  its first round reaches the check of the remote queue with the read flag clear, and so calls
  \<^verbatim>\<open>try_mark_inactive_or_dequeue_all\<close>, while the queue is inactive.
\<close>
theorem fresh_poll_outside_contract:
  assumes "ext_ok E" and "new_context E w"
  shows "\<exists>s. (loop_step E)\<^sup>*\<^sup>* (fresh_sys w) s \<and> pc s = Check_remote \<and>
    \<not> remote_queue_read_submitted (wld s) \<and> aiq_view E (remote_queue (wld s)) = Inactive"
proof -
  obtain this tls cq u where w: "w = GrpcContext_new E this tls cq u"
    using assms(2) unfolding new_context_def by blast
  let ?w1 = "w\<lparr>heap := [0 \<mapsto> new_stop_operation], stop_callback := Some 0\<rparr>"
  let ?s1 = "(fresh_sys w)\<lparr>wld := ?w1, pc := Registered, run_thread := 0, run_stop := 0\<rparr>"
  let ?s2 = "?s1\<lparr>wld := enter_context 0 (Some this) ?w1, pc := Loop_top, old_context := tls 0\<rparr>"
  have "begin_run 0 w = Inr ?w1" by (simp add: begin_run_def place_def w GrpcContext_new_def)
  then have "loop_step E (fresh_sys w) ?s1"
    using loop_step.run_enter [of "fresh_sys w" 0 0 ?w1 E] by (simp add: fresh_sys_def)
  moreover have "loop_step E ?s1 ?s2"
    using loop_step.impl_enter [of ?s1 E] by (simp add: fresh_sys_def w GrpcContext_new_def)
  moreover have "loop_step E ?s2 (?s2\<lparr>pc := Check_stop\<rparr>)"
    using loop_step.local_empty [of ?s2 E] assms(1)
    by (simp add: enter_context_def w GrpcContext_new_def lib_simps)
  moreover have "loop_step E (?s2\<lparr>pc := Check_stop\<rparr>) (?s2\<lparr>pc := Check_remote\<rparr>)"
    using loop_step.go_on [of "?s2\<lparr>pc := Check_stop\<rparr>" E]
    by (simp add: enter_context_def stopped_def new_stop_operation_def)
  ultimately have "(loop_step E)\<^sup>*\<^sup>* (fresh_sys w) (?s2\<lparr>pc := Check_remote\<rparr>)"
    by (meson converse_rtranclp_into_rtranclp rtranclp.rtrancl_refl)
  then show ?thesis
    using assms(1) by (intro exI [of _ "?s2\<lparr>pc := Check_remote\<rparr>"])
      (simp add: enter_context_def w GrpcContext_new_def lib_simps)
qed

theorem fresh_poll_outside_contract_witness:
  "\<exists>s. (loop_step ref_ext)\<^sup>*\<^sup>* (fresh_sys demo_world) s \<and> pc s = Check_remote \<and>
     remote_queue (wld s) = Inactive"
  using fresh_poll_outside_contract [OF ref_ok demo_new] by auto

end
