(* ===== verification/Log_Format.thy ===== *)
theory Log_Format
  imports Agrpc_Prelude
begin

text \<open>
  \<^verbatim>\<open>agrpc/base/logging.cc\<close> and \<^verbatim>\<open>FormatLog\<close>: the prefix providers, the prefix they write and
  the text of a log line. A provider is a callable that may read the program's state (\<open>'u\<close>),
  may rewrite the string it is given in any way, or may throw (\<open>None\<close>). \<^verbatim>\<open>fmt::format\<close> is a
  library function: its outcome, a text or the \<^verbatim>\<open>what()\<close> of the exception it throws, is a
  parameter.
\<close>

section \<open>Prefix providers\<close>

type_synonym 'u prefix_appender = "'u \<Rightarrow> string \<Rightarrow> string option"

definition InstallPrefixProvider ::
  "'u prefix_appender list \<Rightarrow> 'u prefix_appender \<Rightarrow> 'u prefix_appender list" where
  "InstallPrefixProvider providers cb = providers @ [cb]"

text \<open>
  \<^verbatim>\<open>WritePrefixTo\<close>: the size is compared before and after each provider, and a blank follows
  whenever it changed. \<open>None\<close> is an exception that leaves the function.
\<close>

fun WritePrefixTo :: "'u prefix_appender list \<Rightarrow> 'u \<Rightarrow> string \<Rightarrow> string option" where
  "WritePrefixTo [] u to = Some to"
| "WritePrefixTo (e # es) u to =
     (let was = length to
      in case e u to of
           None \<Rightarrow> None
         | Some to' \<Rightarrow> WritePrefixTo es u (if length to' \<noteq> was then to' @ '' '' else to'))"

text \<open>
  \<^verbatim>\<open>AGRPC_INTERNAL_LOGGING_REGISTER_PREFIX_PROVIDER\<close>: constructor functions with a priority,
  run before \<^verbatim>\<open>main\<close> in ascending priority; those of one priority run in the order of their
  definitions.
\<close>

definition constructor_priority :: "nat \<Rightarrow> nat" where
  "constructor_priority priority = priority + 101"

definition register_providers :: "(nat \<times> 'u prefix_appender) list \<Rightarrow> 'u prefix_appender list" where
  "register_providers regs =
     foldl InstallPrefixProvider [] (map snd (sort_key (\<lambda>(p, cb). constructor_priority p) regs))"

section \<open>The text of a line\<close>

datatype formatted = Text string | Fatal_line string | Aborted

definition format_failure :: "string \<Rightarrow> nat \<Rightarrow> string \<Rightarrow> string" where
  "format_failure file line what =
     ''Failed to format log at ['' @ file @ '':'' @ decimal line @ '']: '' @ what"

text \<open>
  \<^verbatim>\<open>FormatLog\<close> is \<^verbatim>\<open>noexcept\<close>: a provider that throws ends the process (\<open>Aborted\<close>), a format
  string that does not fit the arguments writes a fatal line.
\<close>

definition FormatLog ::
  "'u prefix_appender list \<Rightarrow> 'u \<Rightarrow> string \<Rightarrow> nat \<Rightarrow> string + string \<Rightarrow> formatted" where
  "FormatLog providers u file line formatted_args =
     (case WritePrefixTo providers u [] of
       None \<Rightarrow> Aborted
     | Some result \<Rightarrow>
         (case formatted_args of
           Inl what \<Rightarrow> Fatal_line (format_failure file line what)
         | Inr text \<Rightarrow> Text (result @ text)))"

text \<open>The overload without a format string, which is not \<^verbatim>\<open>noexcept\<close>.\<close>

definition FormatLog_plain :: "'u prefix_appender list \<Rightarrow> 'u \<Rightarrow> string \<Rightarrow> nat \<Rightarrow> string option" where
  "FormatLog_plain providers u file line = WritePrefixTo providers u []"

section \<open>The contract of a provider\<close>

text \<open>
  The header asks of a provider that it leave what is in \<^verbatim>\<open>to\<close> alone and only append its own
  prefix. The contract as a locale, and what it gives for the whole list of providers.
\<close>

locale appending =
  fixes app :: "'u prefix_appender"
    and own_prefix :: "'u \<Rightarrow> string"
  assumes appends: "app u to = Some (to @ own_prefix u)"
begin

lemma keeps_text: "app u to = Some to' \<Longrightarrow> \<exists>p. to' = to @ p"
  by (auto simp: appends)

lemma size_changes_iff: "app u to = Some to' \<Longrightarrow> length to' \<noteq> length to \<longleftrightarrow> own_prefix u \<noteq> []"
  by (auto simp: appends)

lemma write_first:
  "WritePrefixTo (app # es) u to =
     WritePrefixTo es u (to @ (if own_prefix u = [] then [] else own_prefix u @ '' ''))"
  by (simp add: appends Let_def)

end

text \<open>A prefix followed by a blank, nothing for an empty one.\<close>

definition spaced :: "string \<Rightarrow> string" where
  "spaced p = (if p = [] then [] else p @ '' '')"

lemma WritePrefixTo_appending:
  "list_all2 appending ps fs \<Longrightarrow>
   WritePrefixTo ps u to = Some (to @ concat (map (\<lambda>f. spaced (f u)) fs))"
proof (induction arbitrary: to rule: list_all2_induct)
  case (Cons p ps f fs)
  show ?case
    using Cons appending.write_first [OF Cons(1), of ps u to] by (simp add: spaced_def)
qed simp

lemma FormatLog_appending:
  "list_all2 appending ps fs \<Longrightarrow>
   FormatLog ps u file line (Inr text) = Text (concat (map (\<lambda>f. spaced (f u)) fs) @ text)"
  by (simp add: FormatLog_def WritePrefixTo_appending)

section \<open>Registration\<close>

lemma foldl_Install: "foldl InstallPrefixProvider ps cbs = ps @ cbs"
  by (induction cbs arbitrary: ps) (simp_all add: InstallPrefixProvider_def)

lemma insort_constructor: "insort_key (\<lambda>(p, cb). constructor_priority p) x xs = insort_key fst x xs"
  by (induction xs) (auto simp: constructor_priority_def split_def)

lemma register_providers_eq: "register_providers regs = map snd (sort_key fst regs)"
  by (simp add: register_providers_def foldl_Install sort_key_def insort_constructor fun_eq_iff
      cong: foldr_cong)

text \<open>
  C39. The text of a log line when every registered provider only appends: the prefixes of the
  providers that have something to say, each followed by one blank, in ascending order of the
  priorities whatever the order of their definitions, and then the formatted message.
\<close>
theorem log_line_text:
  assumes "list_all2 appending (map snd (sort_key fst regs)) prefixes"
  shows "FormatLog (register_providers regs) u file line (Inr text) =
    Text (concat (map (\<lambda>f. spaced (f u)) prefixes) @ text)"
  using assms by (simp add: register_providers_eq FormatLog_appending)

text \<open>The two providers of \<^verbatim>\<open>logging_test.cc\<close>, which append a global string each.\<close>

record test_globals =
  my_prefix :: string
  my_prefix2 :: string

definition WriteLoggingPrefix :: "test_globals prefix_appender" where
  "WriteLoggingPrefix u s = Some (s @ my_prefix u)"

definition WriteLoggingPrefix2 :: "test_globals prefix_appender" where
  "WriteLoggingPrefix2 u s = Some (s @ my_prefix2 u)"

interpretation prefix1: appending WriteLoggingPrefix my_prefix
  by unfold_locales (simp add: WriteLoggingPrefix_def)

interpretation prefix2: appending WriteLoggingPrefix2 my_prefix2
  by unfold_locales (simp add: WriteLoggingPrefix2_def)

definition test_regs :: "(nat \<times> test_globals prefix_appender) list" where
  "test_regs = [(0, WriteLoggingPrefix), (1, WriteLoggingPrefix2)]"

theorem log_line_text_witness:
  "map (\<lambda>u. FormatLog (register_providers test_regs) u ''logging_test.cc'' 50 (Inr ''something''))
     [\<lparr>my_prefix = [], my_prefix2 = []\<rparr>, \<lparr>my_prefix = ''[prefix]'', my_prefix2 = []\<rparr>,
      \<lparr>my_prefix = ''[prefix1]'', my_prefix2 = []\<rparr>,
      \<lparr>my_prefix = ''[prefix1]'', my_prefix2 = ''[prefix2]''\<rparr>] =
   [Text ''something'', Text ''[prefix] something'', Text ''[prefix1] something'',
    Text ''[prefix1] [prefix2] something'']"
proof -
  have "list_all2 appending (map snd (sort_key fst (rev test_regs))) [my_prefix, my_prefix2]"
    "list_all2 appending (map snd (sort_key fst test_regs)) [my_prefix, my_prefix2]"
    by (simp_all add: test_regs_def prefix1.appending_axioms prefix2.appending_axioms)
  from log_line_text [OF this(2)] show ?thesis by (simp add: spaced_def)
qed

lemma WritePrefixTo_append:
  "WritePrefixTo (ps @ qs) u to = Option.bind (WritePrefixTo ps u to) (WritePrefixTo qs u)"
  by (induction ps arbitrary: to) (simp_all add: Let_def split: option.split)

text \<open>
  A provider installed later writes later: the earlier providers write what they wrote before,
  the new one sees their text, and a blank follows its prefix exactly when it changed the size
  of the text. An earlier provider that throws keeps it from being called at all.
\<close>
theorem installed_provider_writes_last:
  "WritePrefixTo (InstallPrefixProvider ps cb) u to =
     (case WritePrefixTo ps u to of
       None \<Rightarrow> None
     | Some t \<Rightarrow> map_option (\<lambda>t'. if length t' = length t then t' else t' @ '' '') (cb u t))"
  by (simp add: InstallPrefixProvider_def WritePrefixTo_append Let_def split: option.split)

end
