(* ===== verification/Log_Macros.thy ===== *)
theory Log_Macros
  imports Log_Format
begin

text \<open>
  The macros of \<^verbatim>\<open>agrpc/base/logging.h\<close> that keep no state of their own: the checks, their debug
  versions, and the log statements with their conditional forms. An expression of the program is
  a function that gives a value and the program's state after it; a macro is the list of
  statements it expands to, so that the text before and after it parses as it does in C++. What
  glog does with a finished line (its flags, sinks and files) is left out, except that a fatal
  line ends the process.
\<close>

section \<open>Severities\<close>

datatype severity = INFO | WARNING | ERROR | FATAL

fun severity_rank :: "severity \<Rightarrow> nat" where
  "severity_rank INFO = 0" | "severity_rank WARNING = 1"
| "severity_rank ERROR = 2" | "severity_rank FATAL = 3"

lemma severity_rank_inject: "severity_rank s = severity_rank t \<Longrightarrow> s = t"
  by (cases s; cases t) simp_all

instantiation severity :: linorder
begin

definition less_eq_severity :: "severity \<Rightarrow> severity \<Rightarrow> bool" where
  "less_eq_severity s t \<longleftrightarrow> severity_rank s \<le> severity_rank t"

definition less_severity :: "severity \<Rightarrow> severity \<Rightarrow> bool" where
  "less_severity s t \<longleftrightarrow> severity_rank s < severity_rank t"

instance
  by standard (auto simp: less_eq_severity_def less_severity_def intro: severity_rank_inject)

end

section \<open>Statements\<close>

record 'u log_world =
  env :: 'u
  written :: "(severity \<times> string) list"

datatype 'u outcome =
    Continues "'u log_world"
  | Dies "'u log_world"        \<comment> \<open>a fatal line was written\<close>
  | Terminates                 \<comment> \<open>an exception left a \<^verbatim>\<open>noexcept\<close> function\<close>

type_synonym 'u stmt = "'u log_world \<Rightarrow> 'u outcome"
type_synonym ('u, 'v) expr = "'u \<Rightarrow> 'v \<times> 'u"

text \<open>The arguments for \<^verbatim>\<open>fmt::format\<close>, if there are any.\<close>

type_synonym 'u message = "('u, string + string) expr option"

text \<open>
  The build and the called libraries: the registered providers, whether \<^verbatim>\<open>NDEBUG\<close> is defined,
  glog's verbosity test and the text that its \<^verbatim>\<open>PLOG\<close> family appends for \<^verbatim>\<open>errno\<close>.
\<close>

record 'u config =
  providers :: "'u prefix_appender list"
  ndebug :: bool
  vlog_is_on :: "int \<Rightarrow> bool"
  errno_text :: "'u \<Rightarrow> string"

fun seq_all :: "'u stmt list \<Rightarrow> 'u stmt" where
  "seq_all [] w = Continues w"
| "seq_all (s # ss) w = (case s w of Continues w' \<Rightarrow> seq_all ss w' | r \<Rightarrow> r)"

definition when_stmt :: "('u, bool) expr \<Rightarrow> 'u stmt \<Rightarrow> 'u stmt" where
  "when_stmt c s w =
     (let (b, u) = c (env w) in if b then s (w\<lparr>env := u\<rparr>) else Continues (w\<lparr>env := u\<rparr>))"

text \<open>
  \<^verbatim>\<open>if (c) MACRO(...);\<close> without braces: the condition guards the first statement of the expansion
  only.
\<close>

fun unbraced_if :: "('u, bool) expr \<Rightarrow> 'u stmt list \<Rightarrow> 'u stmt list" where
  "unbraced_if c [] = [when_stmt c Continues]"
| "unbraced_if c (s # ss) = when_stmt c s # ss"

section \<open>Writing a line\<close>

definition emit :: "severity \<Rightarrow> string \<Rightarrow> 'u stmt" where
  "emit sev text w =
     (let w' = w\<lparr>written := written w @ [(sev, text)]\<rparr>
      in if FATAL \<le> sev then Dies w' else Continues w')"

text \<open>
  \<^verbatim>\<open>LogMessage(...).stream() << before << FormatLog(...) << after\<close>: the arguments are evaluated,
  then the text is formatted. A format error writes its own fatal line first.
\<close>

definition log_line ::
  "'u config \<Rightarrow> severity \<Rightarrow> string \<Rightarrow> ('u \<Rightarrow> string) \<Rightarrow> string \<Rightarrow> nat \<Rightarrow> 'u message \<Rightarrow> 'u stmt" where
  "log_line cfg sev before after file line m w =
     (case m of
       None \<Rightarrow>
         (case FormatLog_plain (providers cfg) (env w) file line of
           None \<Rightarrow> Terminates
         | Some text \<Rightarrow> emit sev (before @ text @ after (env w)) w)
     | Some args \<Rightarrow>
         (let (f, u) = args (env w); w' = w\<lparr>env := u\<rparr>
          in case FormatLog (providers cfg) u file line f of
               Aborted \<Rightarrow> Terminates
             | Fatal_line text \<Rightarrow> emit FATAL text w'
             | Text text \<Rightarrow> emit sev (before @ text @ after u) w'))"

definition no_text :: "'u \<Rightarrow> string" where "no_text u = []"

text \<open>\<^verbatim>\<open>AGRPC_LOG_INFO\<close>, \<^verbatim>\<open>AGRPC_LOG_WARNING\<close> and \<^verbatim>\<open>AGRPC_LOG_ERROR\<close>, by the severity.\<close>

definition AGRPC_LOG :: "'u config \<Rightarrow> severity \<Rightarrow> string \<Rightarrow> nat \<Rightarrow> 'u message \<Rightarrow> 'u stmt list" where
  "AGRPC_LOG cfg sev file line m = [log_line cfg sev [] no_text file line m]"

text \<open>\<^verbatim>\<open>AGRPC_UNREACHABLE\<close>, \<^verbatim>\<open>AGRPC_NOT_IMPLEMENTED\<close> and \<^verbatim>\<open>AGRPC_UNEXPECTED\<close>.\<close>

definition AGRPC_UNREACHABLE :: "'u config \<Rightarrow> string \<Rightarrow> nat \<Rightarrow> 'u message \<Rightarrow> 'u stmt list" where
  "AGRPC_UNREACHABLE cfg file line m = [log_line cfg FATAL ''UNREACHABLE. '' no_text file line m]"

definition AGRPC_NOT_IMPLEMENTED :: "'u config \<Rightarrow> string \<Rightarrow> nat \<Rightarrow> 'u message \<Rightarrow> 'u stmt list" where
  "AGRPC_NOT_IMPLEMENTED cfg file line m =
     [log_line cfg FATAL ''Not implemented. '' no_text file line m]"

definition AGRPC_UNEXPECTED :: "'u config \<Rightarrow> string \<Rightarrow> nat \<Rightarrow> 'u message \<Rightarrow> 'u stmt list" where
  "AGRPC_UNEXPECTED cfg file line m = [log_line cfg FATAL ''UNEXPECTED. '' no_text file line m]"

text \<open>\<^verbatim>\<open>AGRPC_LOG_FATAL\<close> expands to two statements.\<close>

definition AGRPC_LOG_FATAL :: "'u config \<Rightarrow> string \<Rightarrow> nat \<Rightarrow> 'u message \<Rightarrow> 'u stmt list" where
  "AGRPC_LOG_FATAL cfg file line m =
     [log_line cfg FATAL [] no_text file line m] @ AGRPC_UNREACHABLE cfg file line None"

text \<open>The conditional forms: glog's \<^verbatim>\<open>LOG_IF\<close> evaluates the message only when the condition holds.\<close>

definition AGRPC_LOG_IF ::
  "'u config \<Rightarrow> severity \<Rightarrow> string \<Rightarrow> nat \<Rightarrow> ('u, bool) expr \<Rightarrow> 'u message \<Rightarrow> 'u stmt list" where
  "AGRPC_LOG_IF cfg sev file line c m = [when_stmt c (log_line cfg sev [] no_text file line m)]"

definition AGRPC_VLOG :: "'u config \<Rightarrow> int \<Rightarrow> string \<Rightarrow> nat \<Rightarrow> 'u message \<Rightarrow> 'u stmt list" where
  "AGRPC_VLOG cfg n file line m =
     [when_stmt (\<lambda>u. (vlog_is_on cfg n, u)) (log_line cfg INFO [] no_text file line m)]"

text \<open>Nothing of a \<^verbatim>\<open>DLOG\<close> is evaluated when \<^verbatim>\<open>NDEBUG\<close> is defined.\<close>

definition AGRPC_DLOG :: "'u config \<Rightarrow> severity \<Rightarrow> string \<Rightarrow> nat \<Rightarrow> 'u message \<Rightarrow> 'u stmt list" where
  "AGRPC_DLOG cfg sev file line m =
     [if ndebug cfg then Continues else log_line cfg sev [] no_text file line m]"

definition AGRPC_DLOG_IF ::
  "'u config \<Rightarrow> severity \<Rightarrow> string \<Rightarrow> nat \<Rightarrow> ('u, bool) expr \<Rightarrow> 'u message \<Rightarrow> 'u stmt list" where
  "AGRPC_DLOG_IF cfg sev file line c m =
     [if ndebug cfg then Continues else when_stmt c (log_line cfg sev [] no_text file line m)]"

definition AGRPC_PLOG :: "'u config \<Rightarrow> severity \<Rightarrow> string \<Rightarrow> nat \<Rightarrow> 'u message \<Rightarrow> 'u stmt list" where
  "AGRPC_PLOG cfg sev file line m = [log_line cfg sev [] (errno_text cfg) file line m]"

definition AGRPC_PLOG_IF ::
  "'u config \<Rightarrow> severity \<Rightarrow> string \<Rightarrow> nat \<Rightarrow> ('u, bool) expr \<Rightarrow> 'u message \<Rightarrow> 'u stmt list" where
  "AGRPC_PLOG_IF cfg sev file line c m =
     [when_stmt c (log_line cfg sev [] (errno_text cfg) file line m)]"

section \<open>Checks\<close>

text \<open>The text \<^verbatim>\<open>#expr\<close> of the checked expression is an argument.\<close>

definition AGRPC_CHECK ::
  "'u config \<Rightarrow> string \<Rightarrow> nat \<Rightarrow> string \<Rightarrow> ('u, bool) expr \<Rightarrow> 'u message \<Rightarrow> 'u stmt list" where
  "AGRPC_CHECK cfg file line txt c m =
     [\<lambda>w. let (b, u) = c (env w); w' = w\<lparr>env := u\<rparr>
          in if \<not> b
             then seq_all ([log_line cfg FATAL (''Check failed: '' @ txt @ '' '') no_text file line m]
                    @ AGRPC_UNREACHABLE cfg file line None) w'
             else Continues w']"

definition AGRPC_PCHECK ::
  "'u config \<Rightarrow> string \<Rightarrow> nat \<Rightarrow> string \<Rightarrow> ('u, bool) expr \<Rightarrow> 'u message \<Rightarrow> 'u stmt list" where
  "AGRPC_PCHECK cfg file line txt c m =
     [\<lambda>w. let (b, u) = c (env w); w' = w\<lparr>env := u\<rparr>
          in if \<not> b
             then seq_all ([log_line cfg FATAL (''Check failed: '' @ txt @ '' '') (errno_text cfg) file line m]
                    @ AGRPC_UNREACHABLE cfg file line None) w'
             else Continues w']"

text \<open>
  An operand is its text and its expression. \<^verbatim>\<open>MakeCheckOpString\<close> is glog's: it gets the two values
  and the text of the comparison.
\<close>

type_synonym ('u, 'v) operand = "string \<times> ('u, 'v) expr"

definition AGRPC_CHECK_OP ::
  "'u config \<Rightarrow> string \<Rightarrow> nat \<Rightarrow> ('v \<Rightarrow> 'v \<Rightarrow> string \<Rightarrow> string) \<Rightarrow> string \<Rightarrow> ('v \<Rightarrow> 'v \<Rightarrow> bool) \<Rightarrow>
   ('u, 'v) operand \<Rightarrow> ('u, 'v) operand \<Rightarrow> 'u message \<Rightarrow> 'u stmt list" where
  "AGRPC_CHECK_OP cfg file line make_string opname cmp val1 val2 m =
     [\<lambda>w. let (x, u1) = snd val1 (env w); (y, u2) = snd val2 u1; w' = w\<lparr>env := u2\<rparr>
          in if \<not> cmp x y
             then seq_all ([log_line cfg FATAL
                      (make_string x y (fst val1 @ '' '' @ opname @ '' '' @ fst val2)) no_text file line m]
                    @ AGRPC_UNREACHABLE cfg file line None) w'
             else Continues w']"

definition AGRPC_CHECK_LE where
  "AGRPC_CHECK_LE cfg file line mk = AGRPC_CHECK_OP cfg file line mk ''<='' ((\<le>) :: int \<Rightarrow> int \<Rightarrow> bool)"

definition AGRPC_CHECK_GE where
  "AGRPC_CHECK_GE cfg file line mk = AGRPC_CHECK_OP cfg file line mk ''>='' ((\<ge>) :: int \<Rightarrow> int \<Rightarrow> bool)"

definition parens :: "string \<Rightarrow> string" where "parens s = ''('' @ s @ '')''"

text \<open>The operands \<^verbatim>\<open>(val2) + (margin)\<close> and \<^verbatim>\<open>(val2) - (margin)\<close>.\<close>

definition arith_operand ::
  "string \<Rightarrow> (int \<Rightarrow> int \<Rightarrow> int) \<Rightarrow> ('u, int) operand \<Rightarrow> ('u, int) operand \<Rightarrow> ('u, int) operand" where
  "arith_operand sign f a b =
     (parens (fst a) @ '' '' @ sign @ '' '' @ parens (fst b),
      \<lambda>u. let (x, u1) = snd a u; (y, u2) = snd b u1 in (f x y, u2))"

text \<open>\<^verbatim>\<open>AGRPC_CHECK_NEAR\<close>: one \<^verbatim>\<open>do { ... } while (0)\<close> around two checks, each naming all its operands.\<close>

definition AGRPC_CHECK_NEAR ::
  "'u config \<Rightarrow> string \<Rightarrow> nat \<Rightarrow> (int \<Rightarrow> int \<Rightarrow> string \<Rightarrow> string) \<Rightarrow> ('u, int) operand \<Rightarrow>
   ('u, int) operand \<Rightarrow> ('u, int) operand \<Rightarrow> 'u message \<Rightarrow> 'u stmt list" where
  "AGRPC_CHECK_NEAR cfg file line mk val1 val2 margin m =
     [seq_all
       (AGRPC_CHECK_LE cfg file line mk (parens (fst val1), snd val1) (arith_operand ''+'' (+) val2 margin) m @
        AGRPC_CHECK_GE cfg file line mk (parens (fst val1), snd val1) (arith_operand ''-'' (-) val2 margin) m)]"

text \<open>The debug checks: \<^verbatim>\<open>while (0) CHECK\<close> when \<^verbatim>\<open>NDEBUG\<close> is defined.\<close>

definition AGRPC_DCHECK ::
  "'u config \<Rightarrow> string \<Rightarrow> nat \<Rightarrow> string \<Rightarrow> ('u, bool) expr \<Rightarrow> 'u message \<Rightarrow> 'u stmt list" where
  "AGRPC_DCHECK cfg file line txt c m =
     (if ndebug cfg then [Continues] else AGRPC_CHECK cfg file line txt c m)"

definition AGRPC_DCHECK_OP ::
  "'u config \<Rightarrow> string \<Rightarrow> nat \<Rightarrow> ('v \<Rightarrow> 'v \<Rightarrow> string \<Rightarrow> string) \<Rightarrow> string \<Rightarrow> ('v \<Rightarrow> 'v \<Rightarrow> bool) \<Rightarrow>
   ('u, 'v) operand \<Rightarrow> ('u, 'v) operand \<Rightarrow> 'u message \<Rightarrow> 'u stmt list" where
  "AGRPC_DCHECK_OP cfg file line mk opname cmp val1 val2 m =
     (if ndebug cfg then [Continues] else AGRPC_CHECK_OP cfg file line mk opname cmp val1 val2 m)"

section \<open>Macro arguments\<close>

text \<open>
  A macro call as a list of arguments. A call of a macro with named parameters and \<^verbatim>\<open>...\<close> binds the
  named ones first; with fewer arguments than that it does not preprocess.
\<close>

datatype ('u, 'v) margs = Margs "('u, 'v) operand list" "'u message"

text \<open>The call \<^verbatim>\<open>AGRPC_CHECK_NEAR(args, message)\<close>: three operands and at most a message.\<close>

fun check_near_call ::
  "'u config \<Rightarrow> string \<Rightarrow> nat \<Rightarrow> (int \<Rightarrow> int \<Rightarrow> string \<Rightarrow> string) \<Rightarrow> ('u, int) margs \<Rightarrow>
   'u stmt list option" where
  "check_near_call cfg file line mk (Margs [a, b, c] m) = Some (AGRPC_CHECK_NEAR cfg file line mk a b c m)"
| "check_near_call cfg file line mk _ = None"

text \<open>
  \<^verbatim>\<open>AGRPC_DCHECK_NEAR(expr1, expr2, margin, ...)\<close> expands to \<^verbatim>\<open>AGRPC_CHECK_NEAR(expr1, expr2, ...)\<close>,
  with and without \<^verbatim>\<open>NDEBUG\<close>: the margin is dropped, and the macro it calls lacks an argument (or
  takes the format string for the margin, which does not compile).
\<close>

fun dcheck_near_call ::
  "'u config \<Rightarrow> string \<Rightarrow> nat \<Rightarrow> (int \<Rightarrow> int \<Rightarrow> string \<Rightarrow> string) \<Rightarrow> ('u, int) margs \<Rightarrow>
   'u stmt list option" where
  "dcheck_near_call cfg file line mk (Margs (a # b # c # rest) m) =
     map_option (\<lambda>ss. if ndebug cfg then [Continues] else ss)
       (check_near_call cfg file line mk (Margs (a # b # rest) m))"
| "dcheck_near_call cfg file line mk _ = None"

section \<open>What the macros do\<close>

lemma emit_simps [simp]:
  "emit FATAL text w = Dies (w\<lparr>written := written w @ [(FATAL, text)]\<rparr>)"
  "emit INFO text w = Continues (w\<lparr>written := written w @ [(INFO, text)]\<rparr>)"
  "emit WARNING text w = Continues (w\<lparr>written := written w @ [(WARNING, text)]\<rparr>)"
  "emit ERROR text w = Continues (w\<lparr>written := written w @ [(ERROR, text)]\<rparr>)"
  by (simp_all add: emit_def less_eq_severity_def)

text \<open>A fatal line is never followed by anything.\<close>

lemma fatal_line_ends [simp]:
  "log_line cfg FATAL before after file line m w \<noteq> Continues w'"
  by (cases m)
    (auto simp: log_line_def Let_def split: option.split_asm prod.split_asm formatted.split_asm)

lemma seq_one [simp]: "seq_all [s] w = s w"
  by (simp split: outcome.split)

lemma seq_fatal [simp]:
  "seq_all (log_line cfg FATAL before after file line m # ss) w =
     log_line cfg FATAL before after file line m w"
  by (cases "log_line cfg FATAL before after file line m w") simp_all

lemma seq_append: "seq_all (ss @ ts) w = (case seq_all ss w of Continues w' \<Rightarrow> seq_all ts w' | r \<Rightarrow> r)"
  by (induction ss arbitrary: w) (simp_all split: outcome.split)

declare seq_all.simps(2) [simp del]

lemma seq_two: "seq_all [s, t] w = (case s w of Continues w' \<Rightarrow> t w' | r \<Rightarrow> r)"
  by (simp add: seq_all.simps(2)) (simp split: outcome.split)

lemmas check_near_defs = AGRPC_CHECK_NEAR_def AGRPC_CHECK_LE_def AGRPC_CHECK_GE_def AGRPC_CHECK_OP_def
  arith_operand_def seq_two

text \<open>
  A comparing check evaluates each operand once, the left one first, and goes on exactly when
  the comparison holds, with nothing but the operands' own effects: the message is not evaluated
  then. When it fails, control never passes the check.
\<close>
theorem check_op_continues:
  "seq_all (AGRPC_CHECK_OP cfg file line mk opname cmp val1 val2 m) w = Continues w' \<longleftrightarrow>
     (let (x, u1) = snd val1 (env w); (y, u2) = snd val2 u1 in cmp x y \<and> w' = w\<lparr>env := u2\<rparr>)"
  by (auto simp: AGRPC_CHECK_OP_def Let_def split: prod.split)

text \<open>
  The line of a failed check: \<^verbatim>\<open>Check failed:\<close>, the text of the expression, the prefixes of the
  providers and the formatted message, written as the last line, at severity fatal.
\<close>
theorem failed_check_line:
  assumes "c (env w) = (False, u)" and "args u = (Inr text, u')"
    and "list_all2 appending (providers cfg) prefixes"
  shows "seq_all (AGRPC_CHECK cfg file line txt c (Some args)) w =
    Dies (w\<lparr>env := u', written := written w @
      [(FATAL, ''Check failed: '' @ txt @ '' '' @ concat (map (\<lambda>f. spaced (f u')) prefixes) @ text)]\<rparr>)"
  using assms by (simp add: AGRPC_CHECK_def log_line_def FormatLog_appending no_text_def)

definition demo_config :: "test_globals config" where
  "demo_config = \<lparr>providers = [WriteLoggingPrefix, WriteLoggingPrefix2], ndebug = False,
     vlog_is_on = (\<lambda>n. n \<le> 0), errno_text = no_text\<rparr>"

theorem failed_check_line_witness:
  "seq_all (AGRPC_CHECK demo_config ''a.cc'' 7 ''x > 0'' (\<lambda>u. (False, u)) (Some (\<lambda>u. (Inr ''x is 0'', u))))
     \<lparr>env = \<lparr>my_prefix = ''[p]'', my_prefix2 = []\<rparr>, written = []\<rparr> =
   Dies \<lparr>env = \<lparr>my_prefix = ''[p]'', my_prefix2 = []\<rparr>,
     written = [(FATAL, ''Check failed: x > 0 [p] x is 0'')]\<rparr>"
proof -
  have "list_all2 appending (providers demo_config) [my_prefix, my_prefix2]"
    by (simp add: demo_config_def prefix1.appending_axioms prefix2.appending_axioms)
  from failed_check_line [OF _ _ this, of "\<lambda>u. (False, u)" _ _ "\<lambda>u. (Inr ''x is 0'', u)"]
  show ?thesis by (simp add: spaced_def)
qed

text \<open>
  \<^verbatim>\<open>AGRPC_CHECK_NEAR\<close> on operands without effects: it goes on exactly when the two values differ
  by at most the margin, and then nothing has changed.
\<close>
theorem check_near_pure:
  "seq_all (AGRPC_CHECK_NEAR cfg file line mk (t1, \<lambda>u. (x u, u)) (t2, \<lambda>u. (y u, u)) (t3, \<lambda>u. (d u, u)) m) w =
     Continues w' \<longleftrightarrow>
   \<bar>x (env w) - y (env w)\<bar> \<le> d (env w) \<and> w' = w"
  by (auto simp: check_near_defs split: outcome.split_asm if_split_asm)

text \<open>
  Unlike the comparing checks, \<^verbatim>\<open>AGRPC_CHECK_NEAR\<close> evaluates all its operands twice: when it goes
  on, the effects of the first value, the second value and the margin have happened, in this
  order, two times over.
\<close>
theorem check_near_evaluates_twice:
  assumes "seq_all (AGRPC_CHECK_NEAR cfg file line mk val1 val2 margin m) w = Continues w'"
  shows "env w' = (let once = snd \<circ> snd margin \<circ> snd \<circ> snd val2 \<circ> snd \<circ> snd val1 in once (once (env w)))"
  using assms
  by (auto simp: check_near_defs Let_def split_def split: outcome.split_asm if_split_asm)

definition counter_config :: "int config" where
  "counter_config = \<lparr>providers = [], ndebug = False, vlog_is_on = (\<lambda>n. False), errno_text = no_text\<rparr>"

theorem check_near_evaluates_twice_witness:
  "\<exists>w'. seq_all (AGRPC_CHECK_NEAR counter_config ''a.cc'' 1 (\<lambda>x y t. t) (''i++'', \<lambda>u. (u, u + 1)) (''3'', \<lambda>u. (3, u))
       (''2'', \<lambda>u. (2, u)) None) \<lparr>env = 3, written = []\<rparr> = Continues w' \<and> env w' = 5"
proof -
  let ?s = "seq_all (AGRPC_CHECK_NEAR counter_config ''a.cc'' 1 (\<lambda>x y t. t) (''i++'', \<lambda>u. (u, u + 1)) (''3'', \<lambda>u. (3, u))
      (''2'', \<lambda>u. (2, u)) None) \<lparr>env = 3, written = []\<rparr>"
  have s: "?s = Continues \<lparr>env = 5, written = []\<rparr>"
    by (simp add: check_near_defs)
  from check_near_evaluates_twice [OF s] s show ?thesis by simp
qed

text \<open>
  \<^verbatim>\<open>AGRPC_DCHECK_NEAR\<close> with two values and a margin never compiles, with or without a message and
  whether or not \<^verbatim>\<open>NDEBUG\<close> is defined, although \<^verbatim>\<open>AGRPC_CHECK_NEAR\<close> takes the same arguments.
\<close>
theorem dcheck_near_never_compiles:
  "dcheck_near_call cfg file line mk (Margs [a, b, c] m) = None \<and>
   check_near_call cfg file line mk (Margs [a, b, c] m) \<noteq> None"
  by simp

text \<open>
  C38. \<^verbatim>\<open>if (c) AGRPC_LOG_FATAL(...);\<close> without braces ends the process even when the condition is false,
  because the macro expands to two statements; with any other log macro in its place nothing
  happens then.
\<close>
theorem unbraced_fatal_always_dies:
  "seq_all (unbraced_if (\<lambda>u. (False, u)) (AGRPC_LOG_FATAL cfg file line m)) w \<noteq> Continues w' \<and>
   seq_all (unbraced_if (\<lambda>u. (False, u)) (AGRPC_LOG cfg sev file line m)) w = Continues w \<and>
   seq_all (unbraced_if (\<lambda>u. (False, u)) (AGRPC_LOG_IF cfg sev file line c m)) w = Continues w \<and>
   seq_all (unbraced_if (\<lambda>u. (False, u)) (AGRPC_CHECK cfg file line txt c m)) w = Continues w"
  by (simp add: AGRPC_LOG_FATAL_def AGRPC_UNREACHABLE_def AGRPC_LOG_def AGRPC_LOG_IF_def AGRPC_CHECK_def
      when_stmt_def seq_two)

end
