(* ===== verification/Log_Throttle.thy ===== *)
theory Log_Throttle
  imports Log_Macros
begin

text \<open>
  The macros of \<^verbatim>\<open>logging.h\<close> that log some of their calls only and keep a static variable per call
  site: \<^verbatim>\<open>..._EVERY_N\<close> and \<^verbatim>\<open>..._ONCE\<close>, with their conditional forms. First the sites as functions
  on their static variable, for one thread; then \<^verbatim>\<open>..._ONCE\<close> among threads.
\<close>

section \<open>Sites\<close>

text \<open>
  A site is what a call does to the static variable and whether it logs. \<open>None\<close> is an overflow of
  the variable's type, which C++ leaves undefined.
\<close>

type_synonym 'c site = "'c \<Rightarrow> ('c \<times> bool) option"

fun calls :: "'c site \<Rightarrow> nat \<Rightarrow> 'c \<Rightarrow> ('c \<times> bool list) option" where
  "calls hit 0 c = Some (c, [])"
| "calls hit (Suc k) c =
     (case hit c of
       None \<Rightarrow> None
     | Some (c', b) \<Rightarrow> map_option (\<lambda>(c'', bs). (c'', b # bs)) (calls hit k c'))"

text \<open>The conditional forms call the site when the condition holds.\<close>

definition site_if :: "'c site \<Rightarrow> bool \<Rightarrow> 'c site" where
  "site_if hit b c = (if b then hit c else Some (c, False))"

fun calls_if :: "'c site \<Rightarrow> bool list \<Rightarrow> 'c \<Rightarrow> ('c \<times> bool list) option" where
  "calls_if hit [] c = Some (c, [])"
| "calls_if hit (b # bs) c =
     (case site_if hit b c of
       None \<Rightarrow> None
     | Some (c', r) \<Rightarrow> map_option (\<lambda>(c'', rs). (c'', r # rs)) (calls_if hit bs c'))"

definition trues :: "bool list \<Rightarrow> nat" where
  "trues bs = length (filter id bs)"

lemma trues_simps [simp]: "trues [] = 0" "trues (b # bs) = (if b then Suc (trues bs) else trues bs)"
  by (simp_all add: trues_def)

text \<open>A line is formatted and written when the site says so.\<close>

definition site_stmt :: "'c site \<Rightarrow> 'u stmt \<Rightarrow> 'c \<Rightarrow> 'u log_world \<Rightarrow> ('c \<times> 'u outcome) option" where
  "site_stmt hit s c w =
     (case hit c of None \<Rightarrow> None | Some (c', b) \<Rightarrow> Some (c', if b then s w else Continues w))"

definition site_if_stmt ::
  "'c site \<Rightarrow> ('u, bool) expr \<Rightarrow> 'u stmt \<Rightarrow> 'c \<Rightarrow> 'u log_world \<Rightarrow> ('c \<times> 'u outcome) option" where
  "site_if_stmt hit e s c w =
     (let (b, u) = e (env w); w' = w\<lparr>env := u\<rparr>
      in case site_if hit b c of
           None \<Rightarrow> None
         | Some (c', r) \<Rightarrow> Some (c', if r then s w' else Continues w'))"

section \<open>The contract of a site\<close>

text \<open>
  What a site promises: any number of calls is defined, and of the first \<open>k\<close> at most \<open>quota k\<close>
  log. The conditional form then keeps the quota of the calls whose condition held.
\<close>

locale log_site =
  fixes hit :: "'c site"
    and init :: 'c
    and quota :: "nat \<Rightarrow> nat"
  assumes within_quota: "\<exists>c' bs. calls hit k init = Some (c', bs) \<and> trues bs \<le> quota k"
begin

lemma calls_if_filter:
  "calls hit (trues bs) c = Some (c', rs) \<Longrightarrow>
   \<exists>rs'. calls_if hit bs c = Some (c', rs') \<and> trues rs' = trues rs"
proof (induction bs arbitrary: c rs)
  case (Cons b bs)
  show ?case
  proof (cases b)
    case True
    then obtain c1 r rs1 where "hit c = Some (c1, r)" "calls hit (trues bs) c1 = Some (c', rs1)" "rs = r # rs1"
      using Cons.prems by (auto split: option.split_asm)
    with Cons.IH [of c1 rs1] True show ?thesis by (auto simp: site_if_def)
  next
    case False
    with Cons.IH [of c rs] Cons.prems show ?thesis by (auto simp: site_if_def)
  qed
qed simp

lemma conditional_within_quota:
  "\<exists>c' rs. calls_if hit bs init = Some (c', rs) \<and> trues rs \<le> quota (trues bs)"
  using within_quota [of "trues bs"] calls_if_filter [of bs init] by fastforce

end

section \<open>Once\<close>

text \<open>\<^verbatim>\<open>AGRPC_INTERNAL_DETAIL_LOG_ONCE\<close> on one thread: the flag is loaded, then exchanged.\<close>

definition log_once :: "bool site" where
  "log_once logged =
     (if \<not> logged then (let (old, logged') = (logged, True) in Some (logged', \<not> old))
      else Some (logged, False))"

lemma calls_once: "calls log_once k c = Some (c \<or> 0 < k, map (\<lambda>i. \<not> c \<and> i = 0) [0..<k])"
  by (induction k arbitrary: c)
    (auto simp: log_once_def map_upt_Suc simp del: upt_Suc)

lemma trues_first: "trues (map (\<lambda>i. i = 0) [0..<k]) = min 1 k"
proof (cases k)
  case (Suc j)
  have "trues (map (\<lambda>i. False) xs) = 0" for xs :: "nat list" by (induction xs) simp_all
  then show ?thesis by (simp add: Suc map_upt_Suc del: upt_Suc)
qed simp

interpretation once: log_site log_once False "\<lambda>k. min 1 k"
  by unfold_locales (simp add: calls_once trues_first)

section \<open>Every N\<close>

definition int_max :: int where "int_max = 2147483647"

text \<open>\<^verbatim>\<open>AGRPC_INTERNAL_DETAIL_LOG_EVERY_N\<close>: the static \<^verbatim>\<open>int\<close> counter.\<close>

definition log_every_n :: "int \<Rightarrow> int site" where
  "log_every_n N counter =
     (if counter = int_max then None
      else let c1 = counter + 1
           in if c1 > N then (let c2 = c1 - N in Some (c2, c2 = 1)) else Some (c1, False))"

locale every_n_site =
  fixes N :: int
  assumes N_pos: "1 \<le> N" and N_max: "N < int_max"
begin

text \<open>The counter after \<open>k\<close> calls, and whether call number \<open>k\<close> (from 0) logs.\<close>

definition counter_after :: "nat \<Rightarrow> int" where
  "counter_after k = (if k = 0 then 0 else (int k - 1) mod N + 1)"

definition logs_at :: "nat \<Rightarrow> bool" where
  "logs_at k \<longleftrightarrow> 0 < k \<and> int k mod N = 0"

lemma one_call: "log_every_n N (counter_after k) = Some (counter_after (Suc k), logs_at k)"
proof (cases "k = 0")
  case True
  then show ?thesis using N_pos N_max
    by (simp add: log_every_n_def counter_after_def logs_at_def int_max_def)
next
  case False
  let ?r = "(int k - 1) mod N"
  have r: "0 \<le> ?r" "?r < N" using N_pos by simp_all
  have s: "int k mod N = (if ?r + 1 = N then 0 else ?r + 1)"
    using N_pos mod_add_left_eq [of "int k - 1" N 1] r by (auto simp: mod_pos_pos_trivial)
  show ?thesis
    using False r s N_max
    by (auto simp: log_every_n_def counter_after_def logs_at_def Let_def)
qed

lemma calls_from:
  "calls (log_every_n N) k (counter_after j) = Some (counter_after (j + k), map logs_at [j..<j + k])"
proof (induction k arbitrary: j)
  case (Suc k)
  have "[j..<j + Suc k] = j # [Suc j..<Suc j + k]" by (simp add: upt_conv_Cons)
  then show ?case using Suc [of "Suc j"] by (simp add: one_call)
qed simp

lemma calls_from_start: "calls (log_every_n N) k 0 = Some (counter_after k, map logs_at [0..<k])"
  using calls_from [of k 0] by (simp add: counter_after_def)

lemma trues_append: "trues (xs @ ys) = trues xs + trues ys"
  by (simp add: trues_def)

lemma logs_at_nat: "logs_at k \<longleftrightarrow> 0 < k \<and> k mod nat N = 0"
proof -
  have "int k mod N = int (k mod nat N)" using N_pos by (simp add: of_nat_mod)
  then show ?thesis by (simp add: logs_at_def)
qed

lemma trues_logs: "trues (map logs_at [0..<Suc k]) = k div nat N"
proof (induction k)
  case 0
  then show ?case by (simp add: logs_at_nat)
next
  case (Suc k)
  have "map logs_at [0..<Suc (Suc k)] = map logs_at [0..<Suc k] @ [logs_at (Suc k)]" by simp
  then have "trues (map logs_at [0..<Suc (Suc k)]) = k div nat N + trues [logs_at (Suc k)]"
    by (simp only: trues_append Suc)
  then show ?case by (simp only: div_Suc) (simp add: logs_at_nat)
qed

lemma trues_logs_le: "trues (map logs_at [0..<k]) = (k - 1) div nat N"
  using trues_logs [of "k - 1"] by (cases k) simp_all

lemma quota_holds: "log_site (log_every_n N) 0 (\<lambda>k. (k - 1) div nat N)"
  by unfold_locales (simp add: calls_from_start trues_logs_le)

end

sublocale every_n_site \<subseteq> every_n: log_site "log_every_n N" 0 "\<lambda>k. (k - 1) div nat N"
  by (rule quota_holds)

interpretation hundred: every_n_site 100
  by unfold_locales (simp_all add: int_max_def)

section \<open>The macros\<close>

definition AGRPC_LOG_ONCE ::
  "'u config \<Rightarrow> severity \<Rightarrow> string \<Rightarrow> nat \<Rightarrow> 'u message \<Rightarrow> bool \<Rightarrow> 'u log_world \<Rightarrow>
   (bool \<times> 'u outcome) option" where
  "AGRPC_LOG_ONCE cfg sev file line m =
     site_stmt log_once (seq_all (AGRPC_LOG cfg sev file line m))"

definition AGRPC_LOG_IF_ONCE ::
  "'u config \<Rightarrow> severity \<Rightarrow> string \<Rightarrow> nat \<Rightarrow> ('u, bool) expr \<Rightarrow> 'u message \<Rightarrow> bool \<Rightarrow>
   'u log_world \<Rightarrow> (bool \<times> 'u outcome) option" where
  "AGRPC_LOG_IF_ONCE cfg sev file line e m =
     site_if_stmt log_once e (seq_all (AGRPC_LOG cfg sev file line m))"

definition AGRPC_LOG_EVERY_N ::
  "'u config \<Rightarrow> severity \<Rightarrow> int \<Rightarrow> string \<Rightarrow> nat \<Rightarrow> 'u message \<Rightarrow> int \<Rightarrow> 'u log_world \<Rightarrow>
   (int \<times> 'u outcome) option" where
  "AGRPC_LOG_EVERY_N cfg sev N file line m =
     site_stmt (log_every_n N) (seq_all (AGRPC_LOG cfg sev file line m))"

definition AGRPC_LOG_IF_EVERY_N ::
  "'u config \<Rightarrow> severity \<Rightarrow> ('u, bool) expr \<Rightarrow> int \<Rightarrow> string \<Rightarrow> nat \<Rightarrow> 'u message \<Rightarrow> int \<Rightarrow>
   'u log_world \<Rightarrow> (int \<times> 'u outcome) option" where
  "AGRPC_LOG_IF_EVERY_N cfg sev e N file line m =
     site_if_stmt (log_every_n N) e (seq_all (AGRPC_LOG cfg sev file line m))"

text \<open>
  \<^verbatim>\<open>AGRPC_DLOG_..._ONCE\<close>: the same with a flag in debug builds; with \<^verbatim>\<open>NDEBUG\<close> it expands to
  \<^verbatim>\<open>AGRPC_DLOG_...\<close>, which evaluates nothing then.
\<close>

definition AGRPC_DLOG_ONCE ::
  "'u config \<Rightarrow> severity \<Rightarrow> string \<Rightarrow> nat \<Rightarrow> 'u message \<Rightarrow> bool \<Rightarrow> 'u log_world \<Rightarrow>
   (bool \<times> 'u outcome) option" where
  "AGRPC_DLOG_ONCE cfg sev file line m logged w =
     (if ndebug cfg then Some (logged, seq_all (AGRPC_DLOG cfg sev file line m) w)
      else AGRPC_LOG_ONCE cfg sev file line m logged w)"

section \<open>What the sites do\<close>

text \<open>
  C35. \<^verbatim>\<open>..._EVERY_N\<close> for a period from 1 to below \<^verbatim>\<open>INT_MAX\<close>: no call overflows the counter, and the
  call number \<open>k\<close>, from 0, logs exactly when it is a positive multiple of \<open>N\<close>. So the first
  occurrence is never logged, and the first line appears on call \<open>N + 1\<close>.
\<close>
theorem every_n_logs_multiples:
  assumes "1 \<le> N" and "N < int_max"
  shows "calls (log_every_n N) k 0 =
    Some (if k = 0 then 0 else (int k - 1) mod N + 1, map (\<lambda>i. 0 < i \<and> int i mod N = 0) [0..<k])"
proof -
  have N: "every_n_site N" using assms by unfold_locales
  from every_n_site.calls_from_start [OF N, of k] show ?thesis
    by (simp add: every_n_site.counter_after_def [OF N]
        every_n_site.logs_at_def [OF N] cong: map_cong)
qed

theorem every_n_logs_multiples_witness:
  "calls (log_every_n 3) 8 0 = Some (2, [False, False, False, True, False, False, True, False])"
  using every_n_logs_multiples [of 3 8] by (simp add: int_max_def upt_rec)

text \<open>
  The conditional forms keep the quota: of any sequence of conditions, \<^verbatim>\<open>..._IF_ONCE\<close> logs at
  most one call, and \<^verbatim>\<open>..._IF_EVERY_N\<close> at most one in \<open>N\<close> of those that hold,
  whatever the conditions that do not hold in between.
\<close>
theorem conditional_sites_within_quota:
  assumes "1 \<le> N" and "N < int_max"
  shows "(\<exists>c rs. calls_if log_once bs False = Some (c, rs) \<and> trues rs \<le> min 1 (trues bs)) \<and>
    (\<exists>c rs. calls_if (log_every_n N) bs 0 = Some (c, rs) \<and> trues rs \<le> (trues bs - 1) div nat N)"
proof -
  have N: "every_n_site N" using assms by unfold_locales
  show ?thesis
    using once.conditional_within_quota [of bs]
      log_site.conditional_within_quota [OF every_n_site.quota_holds [OF N], of bs] by simp
qed

theorem conditional_sites_within_quota_witness:
  "(\<exists>c rs. calls_if log_once [False, True, True] False = Some (c, rs) \<and> trues rs \<le> 1) \<and>
   (\<exists>c rs. calls_if (log_every_n 1) [True, False, True, True] 0 = Some (c, rs) \<and> trues rs \<le> 2)"
  using conditional_sites_within_quota [of 1 "[False, True, True]"]
    conditional_sites_within_quota [of 1 "[True, False, True, True]"]
  by (simp add: int_max_def numeral_2_eq_2 del: calls_if.simps)

end
