(* ===== verification/Log_Concurrent.thy ===== *)
theory Log_Concurrent
  imports Log_Throttle
begin

text \<open>
  The two throttles of \<^verbatim>\<open>logging.h\<close> that are made for several threads: \<^verbatim>\<open>..._ONCE\<close>, a relaxed
  load before an exchange, and \<^verbatim>\<open>..._EVERY_SECOND\<close>, a relaxed load of the last time stamp before
  a try-lock. A step is one atomic access of one thread. A relaxed load outside the lock may
  return any value the variable has had; an exchange returns the latest, and inside the lock the
  load returns the latest too, since the previous holder's stores happen before its release.
\<close>

section \<open>Once, among threads\<close>

datatype once_pc = Once_start | Once_cold | Once_writing | Once_done

record once_sys =
  logged :: bool
  once_at :: "nat \<Rightarrow> once_pc"
  once_lines :: nat

inductive once_step :: "once_sys \<Rightarrow> once_sys \<Rightarrow> bool" where
  once_load: "once_at s t = Once_start \<Longrightarrow> v \<longrightarrow> logged s \<Longrightarrow>
     once_step s (s\<lparr>once_at := (once_at s)(t := if v then Once_done else Once_cold)\<rparr>)"
| once_exchange: "once_at s t = Once_cold \<Longrightarrow>
     once_step s (s\<lparr>logged := True,
       once_at := (once_at s)(t := if \<not> logged s then Once_writing else Once_done)\<rparr>)"
| once_write: "once_at s t = Once_writing \<Longrightarrow>
     once_step s (s\<lparr>once_at := (once_at s)(t := Once_done), once_lines := Suc (once_lines s)\<rparr>)"
| once_again: "once_at s t = Once_done \<Longrightarrow>
     once_step s (s\<lparr>once_at := (once_at s)(t := Once_start)\<rparr>)"

definition once_begin :: "once_sys \<Rightarrow> bool" where
  "once_begin s \<longleftrightarrow> s = \<lparr>logged = False, once_at = (\<lambda>t. Once_start), once_lines = 0\<rparr>"

definition writers :: "once_sys \<Rightarrow> nat set" where
  "writers s = {t. once_at s t = Once_writing}"

definition once_inv :: "once_sys \<Rightarrow> bool" where
  "once_inv s \<longleftrightarrow>
     (if logged s then writers s = {} \<and> once_lines s = 1 \<or> (\<exists>t. writers s = {t}) \<and> once_lines s = 0
      else writers s = {} \<and> once_lines s = 0 \<and> (\<forall>t. once_at s t \<noteq> Once_done))"

lemma writers_update:
  "once_at s' = (once_at s)(t := p) \<Longrightarrow>
   writers s' = (if p = Once_writing then insert t (writers s) else writers s - {t})"
  by (auto simp: writers_def)

lemma once_step_inv:
  assumes "once_step s s'" and "once_inv s"
  shows "once_inv s'"
  using assms(1)
proof cases
  case (once_load t v)
  then have "t \<notin> writers s" and "writers s' = writers s - {t}"
    using writers_update [of s' s t "if v then Once_done else Once_cold"] by (simp_all add: writers_def)
  with once_load assms(2) show ?thesis
    by (auto simp: once_inv_def split: if_splits)
next
  case (once_exchange t)
  then have "t \<notin> writers s"
    and "writers s' = (if \<not> logged s then insert t (writers s) else writers s - {t})"
    using writers_update [of s' s t "if \<not> logged s then Once_writing else Once_done"]
    by (simp_all add: writers_def)
  with once_exchange assms(2) show ?thesis
    by (auto simp: once_inv_def split: if_splits)
next
  case (once_write t)
  then have "t \<in> writers s" by (simp add: writers_def)
  then have "writers s = {t} \<and> once_lines s = 0 \<and> logged s"
    using assms(2) by (auto simp: once_inv_def split: if_splits)
  with once_write writers_update [of s' s t Once_done] show ?thesis by (simp add: once_inv_def)
next
  case (once_again t)
  then have "t \<notin> writers s" and "writers s' = writers s - {t}"
    using writers_update [of s' s t Once_start] by (simp_all add: writers_def)
  with once_again assms(2) show ?thesis
    by (auto simp: once_inv_def split: if_splits)
qed

interpretation once_sites: inductive_invariant once_begin once_step once_inv
proof unfold_locales
  show "once_inv s" if "once_begin s" for s
    using that by (simp add: once_begin_def once_inv_def writers_def)
qed (rule once_step_inv)

text \<open>
  C34. Any number of threads that call a \<^verbatim>\<open>..._ONCE\<close> site any number of times write one line in all:
  never more than one, and as soon as some thread has passed the site and no thread is writing,
  exactly one.
\<close>
theorem once_writes_one_line:
  assumes "once_begin s0" and "once_step\<^sup>*\<^sup>* s0 s"
  shows "once_lines s \<le> 1 \<and>
    ((\<exists>t. once_at s t = Once_done) \<and> (\<forall>t. once_at s t \<noteq> Once_writing) \<longrightarrow> once_lines s = 1)"
  using once_sites.holds_from_start [OF assms]
  by (auto simp: once_inv_def writers_def split: if_splits)

theorem once_writes_one_line_witness:
  "\<exists>s. once_step\<^sup>*\<^sup>* \<lparr>logged = False, once_at = (\<lambda>t. Once_start), once_lines = 0\<rparr> s \<and>
     once_at s 0 = Once_done \<and> once_lines s = 1"
proof -
  let ?s0 = "\<lparr>logged = False, once_at = (\<lambda>t. Once_start), once_lines = 0\<rparr>"
  let ?s1 = "?s0\<lparr>once_at := (once_at ?s0)(0 := if False then Once_done else Once_cold)\<rparr>"
  let ?s2 = "?s1\<lparr>logged := True, once_at := (once_at ?s1)(0 := if \<not> logged ?s1 then Once_writing else Once_done)\<rparr>"
  let ?s3 = "?s2\<lparr>once_at := (once_at ?s2)(0 := Once_done), once_lines := Suc (once_lines ?s2)\<rparr>"
  have "once_step ?s0 ?s1" by (rule once_load) simp_all
  moreover have "once_step ?s1 ?s2" by (rule once_exchange) simp
  moreover have "once_step ?s2 ?s3" by (rule once_write) simp
  ultimately have st: "once_step\<^sup>*\<^sup>* ?s0 ?s3"
    by (meson converse_rtranclp_into_rtranclp rtranclp.rtrancl_refl)
  have "once_begin ?s0" by (simp add: once_begin_def)
  from once_writes_one_line [OF this st] have "once_lines ?s3 \<le> 1" by blast
  then show ?thesis using st by (intro exI [of _ ?s3]) simp
qed

section \<open>Every second, among threads\<close>

text \<open>
  Where a thread is in the macro, with the time it read and, once decided, whether it writes.
  \<open>stamps\<close> are the values stored to \<^verbatim>\<open>last_occurs\<close>, newest first; the variable starts at 0. Times
  are nanoseconds of the coarse steady clock, which never goes back; a thread may read an old
  value of it.
\<close>

datatype es_pc =
    Es_idle | Timed int | Entered int | Locked int | Decided bool int | Es_writing int

record es_sys =
  coarse :: int
  stamps :: "int list"
  es_lock :: bool
  es_at :: "nat \<Rightarrow> es_pc"
  es_lines :: "int list"

definition seconds :: "int \<Rightarrow> int" where
  "seconds n = n * 1000000000"

definition last_occurs :: "es_sys \<Rightarrow> int" where
  "last_occurs s = hd (stamps s @ [0])"

inductive es_step :: "int \<Rightarrow> es_sys \<Rightarrow> es_sys \<Rightarrow> bool" for n where
  es_tick: "coarse s \<le> c \<Longrightarrow> es_step n s (s\<lparr>coarse := c\<rparr>)"
| es_now: "es_at s t = Es_idle \<Longrightarrow> now \<le> coarse s \<Longrightarrow>
     es_step n s (s\<lparr>es_at := (es_at s)(t := Timed now)\<rparr>)"
| es_load: "es_at s t = Timed now \<Longrightarrow> v \<in> set (stamps s @ [0]) \<Longrightarrow>
     es_step n s (s\<lparr>es_at := (es_at s)(t := if v + seconds n < now then Entered now else Es_idle)\<rparr>)"
| es_trylock: "es_at s t = Entered now \<Longrightarrow>
     es_step n s (s\<lparr>es_lock := True,
       es_at := (es_at s)(t := if \<not> es_lock s then Locked now else Es_idle)\<rparr>)"
| es_decide: "es_at s t = Locked now \<Longrightarrow> really_write = (last_occurs s + seconds n < now) \<Longrightarrow>
     es_step n s (s\<lparr>stamps := (if really_write then now # stamps s else stamps s),
       es_at := (es_at s)(t := Decided really_write now)\<rparr>)"
| es_unlock: "es_at s t = Decided really_write now \<Longrightarrow>
     es_step n s (s\<lparr>es_lock := False,
       es_at := (es_at s)(t := if really_write then Es_writing now else Es_idle)\<rparr>)"
| es_write: "es_at s t = Es_writing now \<Longrightarrow>
     es_step n s (s\<lparr>es_lines := es_lines s @ [now], es_at := (es_at s)(t := Es_idle)\<rparr>)"

definition es_begin :: "es_sys \<Rightarrow> bool" where
  "es_begin s \<longleftrightarrow> stamps s = [] \<and> \<not> es_lock s \<and> (\<forall>t. es_at s t = Es_idle) \<and> es_lines s = []"

text \<open>Successive elements, newest first, are more than \<open>d\<close> apart.\<close>

fun apart :: "int \<Rightarrow> int list \<Rightarrow> bool" where
  "apart d (x # y # xs) \<longleftrightarrow> y + d < x \<and> apart d (y # xs)"
| "apart d xs \<longleftrightarrow> True"

fun holds_lock :: "es_pc \<Rightarrow> bool" where
  "holds_lock (Locked now) = True"
| "holds_lock (Decided b now) = True"
| "holds_lock _ = False"

fun about_to_write :: "es_pc \<Rightarrow> int option" where
  "about_to_write (Decided b now) = (if b then Some now else None)"
| "about_to_write (Es_writing now) = Some now"
| "about_to_write _ = None"

text \<open>
  The invariant: the lock is held by at most the one thread between exchange and store; every
  stamp is that of a written line or of one thread that is about to write, and of one only.
\<close>

definition es_inv :: "int \<Rightarrow> es_sys \<Rightarrow> bool" where
  "es_inv n s \<longleftrightarrow>
     apart (seconds n) (stamps s @ [0]) \<and>
     (\<forall>t. holds_lock (es_at s t) \<longrightarrow> es_lock s) \<and>
     (\<forall>t u. holds_lock (es_at s t) \<and> holds_lock (es_at s u) \<longrightarrow> t = u) \<and>
     distinct (es_lines s) \<and> set (es_lines s) \<subseteq> set (stamps s) \<and>
     (\<forall>t now. about_to_write (es_at s t) = Some now \<longrightarrow> now \<in> set (stamps s) \<and> now \<notin> set (es_lines s)) \<and>
     (\<forall>t u now. about_to_write (es_at s t) = Some now \<and> about_to_write (es_at s u) = Some now \<longrightarrow> t = u)"

lemma apart_tail: "apart d (x # xs) \<Longrightarrow> apart d xs"
  by (cases xs) simp_all

lemma apart_below: "apart d (x # xs) \<Longrightarrow> 0 \<le> d \<Longrightarrow> y \<in> set xs \<Longrightarrow> y + d < x"
proof (induction xs arbitrary: x)
  case (Cons z zs)
  then show ?case by (fastforce dest: Cons.IH)
qed simp

lemma apart_cons: "apart d xs \<Longrightarrow> xs \<noteq> [] \<Longrightarrow> hd xs + d < x \<Longrightarrow> apart d (x # xs)"
  by (cases xs) simp_all

lemma new_stamp:
  assumes "apart d (stamps s @ [0])" and "0 \<le> d" and "last_occurs s + d < now"
  shows "apart d (now # stamps s @ [0])" and "now \<notin> set (stamps s)"
proof -
  show a: "apart d (now # stamps s @ [0])"
    using assms(1,3) by (intro apart_cons) (simp_all add: last_occurs_def)
  show "now \<notin> set (stamps s)"
    using apart_below [OF a assms(2), of now] assms(2) by auto
qed

text \<open>A thread moves to a place from which it neither holds the lock nor writes.\<close>

lemma es_inv_quiet:
  assumes "es_inv n s" and "stamps s' = stamps s" and "es_lock s \<longrightarrow> es_lock s'"
    and "es_lines s' = es_lines s" and "es_at s' = (es_at s)(t := p)"
    and "\<not> holds_lock p" and "about_to_write p = None"
  shows "es_inv n s'"
  using assms unfolding es_inv_def by (simp add: fun_upd_apply) metis

lemma es_step_inv:
  assumes n: "0 \<le> n" and st: "es_step n s s'" and inv: "es_inv n s"
  shows "es_inv n s'"
  using st
proof cases
  case (es_tick c)
  then show ?thesis using inv by (simp add: es_inv_def)
next
  case (es_now t now)
  then show ?thesis by (intro es_inv_quiet [OF inv, where t = t and p = "Timed now"]) simp_all
next
  case (es_load t now v)
  then show ?thesis
    by (intro es_inv_quiet [OF inv, where t = t and
        p = "if v + seconds n < now then Entered now else Es_idle"]) simp_all
next
  case (es_trylock t now)
  show ?thesis
  proof (cases "es_lock s")
    case True
    then show ?thesis using es_trylock by (intro es_inv_quiet [OF inv, where t = t and p = Es_idle]) simp_all
  next
    case False
    then have "\<not> holds_lock (es_at s u)" for u using inv by (auto simp: es_inv_def)
    then show ?thesis using inv es_trylock False by (auto simp: es_inv_def)
  qed
next
  case (es_decide t now w)
  have d: "0 \<le> seconds n" using n by (simp add: seconds_def)
  have "holds_lock (es_at s t)" using es_decide by simp
  then have lk: "es_lock s" and only: "\<And>u. holds_lock (es_at s u) \<Longrightarrow> u = t"
    using inv unfolding es_inv_def by blast+
  show ?thesis
  proof (cases w)
    case False
    then show ?thesis using inv es_decide lk by (auto simp: es_inv_def)
  next
    case True
    have a: "apart (seconds n) (stamps s @ [0])" using inv by (simp add: es_inv_def)
    have "last_occurs s + seconds n < now" using es_decide True by simp
    note ns = new_stamp [OF a d this]
    have nl: "now \<notin> set (es_lines s)" "\<And>u m. about_to_write (es_at s u) = Some m \<Longrightarrow> m \<noteq> now"
      using inv ns(2) by (auto simp: es_inv_def)
    show ?thesis
      using inv es_decide True ns nl lk by (auto simp: es_inv_def)
  qed
next
  case (es_unlock t w now)
  have "holds_lock (es_at s t)" using es_unlock by simp
  then have only: "\<And>u. holds_lock (es_at s u) \<Longrightarrow> u = t"
    using inv unfolding es_inv_def by blast
  have "w \<Longrightarrow> about_to_write (es_at s t) = Some now" using es_unlock by simp
  then have "w \<Longrightarrow> now \<in> set (stamps s) \<and> now \<notin> set (es_lines s)"
    and "\<And>u. w \<Longrightarrow> about_to_write (es_at s u) = Some now \<Longrightarrow> u = t"
    using inv unfolding es_inv_def by blast+
  then show ?thesis using inv es_unlock only by (auto simp: es_inv_def)
next
  case (es_write t now)
  then have "about_to_write (es_at s t) = Some now" by simp
  then have "now \<in> set (stamps s)" "now \<notin> set (es_lines s)"
    "\<And>u. about_to_write (es_at s u) = Some now \<Longrightarrow> u = t"
    using inv unfolding es_inv_def by blast+
  then show ?thesis using inv es_write by (auto simp: es_inv_def)
qed

interpretation every_second: inductive_invariant "\<lambda>s. 0 \<le> n \<and> es_begin s" "es_step n"
    "\<lambda>s. 0 \<le> n \<and> es_inv n s"
  for n :: int
proof unfold_locales
  show "0 \<le> n \<and> es_inv n s" if "0 \<le> n \<and> es_begin s" for s
    using that by (auto simp: es_begin_def es_inv_def)
  show "0 \<le> n \<and> es_inv n t" if "es_step n s t" "0 \<le> n \<and> es_inv n s" for s t
    using that es_step_inv by blast
qed

lemma apart_far:
  "apart d xs \<Longrightarrow> 0 \<le> d \<Longrightarrow> a \<in> set xs \<Longrightarrow> b \<in> set xs \<Longrightarrow> a \<noteq> b \<Longrightarrow> d < \<bar>a - b\<bar>"
proof (induction xs)
  case (Cons x xs)
  then show ?case
    using apart_below [OF Cons.prems(1,2)] apart_tail [OF Cons.prems(1)] by fastforce
qed simp

lemma apart_append: "apart d (xs @ ys) \<Longrightarrow> apart d xs"
proof (induction xs)
  case (Cons x xs)
  then show ?case by (cases xs) (auto dest: apart_tail)
qed simp

text \<open>How many elements of such a list lie in a window.\<close>

lemma apart_count:
  "apart d xs \<Longrightarrow> 0 \<le> d \<Longrightarrow> int (card {x \<in> set xs. a \<le> x \<and> x \<le> b}) * (d + 1) \<le> max 0 (b - a + d + 1)"
proof (induction xs arbitrary: b)
  case (Cons x xs)
  note IH = Cons.IH [OF apart_tail [OF Cons.prems(1)] Cons.prems(2)]
  note below = apart_below [OF Cons.prems]
  show ?case
  proof (cases "a \<le> x \<and> x \<le> b")
    case True
    let ?rest = "{y \<in> set xs. a \<le> y \<and> y \<le> x - (d + 1)}"
    have "{y \<in> set (x # xs). a \<le> y \<and> y \<le> b} = insert x ?rest"
      using True below Cons.prems(2) by force
    moreover have "x \<notin> ?rest" using Cons.prems(2) by simp
    ultimately have "card {y \<in> set (x # xs). a \<le> y \<and> y \<le> b} = Suc (card ?rest)" by simp
    moreover have "int (card ?rest) * (d + 1) \<le> x - a"
      using IH [of "x - (d + 1)"] True by simp
    ultimately show ?thesis using True Cons.prems(2) by (simp add: distrib_right)
  next
    case False
    then have "{y \<in> set (x # xs). a \<le> y \<and> y \<le> b} = {y \<in> set xs. a \<le> y \<and> y \<le> b}" by auto
    with IH [of b] show ?thesis by simp
  qed
qed simp

lemma apart_window:
  assumes "apart d xs" and "distinct ys" and "set ys \<subseteq> set xs" and "0 < d" and "a \<le> b"
  shows "int (length (filter (\<lambda>x. a \<le> x \<and> x \<le> b) ys)) \<le> 1 + (b - a) div d"
proof -
  let ?k = "int (length (filter (\<lambda>x. a \<le> x \<and> x \<le> b) ys))"
  have "length (filter (\<lambda>x. a \<le> x \<and> x \<le> b) ys) = card (set (filter (\<lambda>x. a \<le> x \<and> x \<le> b) ys))"
    by (rule distinct_card [symmetric]) (simp add: assms(2))
  also have "\<dots> \<le> card {x \<in> set xs. a \<le> x \<and> x \<le> b}"
    using assms(3) by (intro card_mono) auto
  finally have "?k * (d + 1) \<le> int (card {x \<in> set xs. a \<le> x \<and> x \<le> b}) * (d + 1)"
    using assms(4) by (intro mult_right_mono) simp_all
  also have "\<dots> \<le> b - a + (d + 1)"
    using apart_count [OF assms(1), of a b] assms(4,5) by simp
  finally have "(?k - 1) * (d + 1) \<le> b - a" by (simp add: algebra_simps)
  moreover have "(?k - 1) * d \<le> max 0 ((?k - 1) * (d + 1))"
    using assms(4) by (cases "?k = 0") (auto simp: distrib_left)
  ultimately have "(?k - 1) * d \<le> b - a" using assms(5) by linarith
  from zdiv_mono1 [OF this assms(4)] show ?thesis using assms(4) by simp
qed

text \<open>
  C33. \<^verbatim>\<open>..._EVERY_SECOND\<close> keeps its interval whatever the number of threads and however old the
  clock values and time stamps they read: the times of any two lines that were written differ
  by more than \<open>n\<close> seconds, and no two lines have the same time. So a window of time from \<open>a\<close> to
  \<open>b\<close> has one line for every \<open>n\<close> seconds of it and at most one more.
\<close>
theorem every_second_interval:
  assumes "0 \<le> n" and "es_begin s0" and "(es_step n)\<^sup>*\<^sup>* s0 s"
  shows "distinct (es_lines s) \<and>
    (\<forall>a \<in> set (es_lines s). \<forall>b \<in> set (es_lines s). a \<noteq> b \<longrightarrow> n * 1000000000 < \<bar>a - b\<bar>) \<and>
    (\<forall>a b. 0 < n \<and> a \<le> b \<longrightarrow>
      int (length (filter (\<lambda>x. a \<le> x \<and> x \<le> b) (es_lines s))) \<le> 1 + (b - a) div (n * 1000000000))"
proof -
  have inv: "es_inv n s" using every_second.holds_from_start [of n, OF _ assms(3)] assms(1,2) by simp
  then have "apart (seconds n) (stamps s)" by (auto simp: es_inv_def dest: apart_append)
  from apart_far [OF this] apart_window [OF this, of "es_lines s"] assms(1) inv show ?thesis
    by (auto simp: es_inv_def seconds_def subset_iff)
qed

text \<open>A thread alone goes through the macro and writes.\<close>

lemma es_through:
  assumes "es_at s t = Es_idle" and "\<not> es_lock s" and "coarse s \<le> now"
    and "last_occurs s + seconds n < now"
  shows "(es_step n)\<^sup>*\<^sup>* s (s\<lparr>coarse := now, stamps := now # stamps s, es_lock := False,
    es_lines := es_lines s @ [now], es_at := (es_at s)(t := Es_idle)\<rparr>)"
proof -
  let ?s1 = "s\<lparr>coarse := now\<rparr>"
  let ?s2 = "?s1\<lparr>es_at := (es_at s)(t := Timed now)\<rparr>"
  let ?s3 = "?s1\<lparr>es_at := (es_at s)(t := Entered now)\<rparr>"
  let ?s4 = "?s1\<lparr>es_lock := True, es_at := (es_at s)(t := Locked now)\<rparr>"
  let ?s5 = "?s4\<lparr>stamps := now # stamps s, es_at := (es_at s)(t := Decided True now)\<rparr>"
  let ?s6 = "?s5\<lparr>es_lock := False, es_at := (es_at s)(t := Es_writing now)\<rparr>"
  have "es_step n s ?s1" by (rule es_tick) (fact assms(3))
  moreover have "es_step n ?s1 ?s2"
    using es_now [of ?s1 t now n] assms(1) by simp
  moreover have "es_step n ?s2 ?s3"
    using es_load [of ?s2 t now "last_occurs s" n] assms(4)
    by (simp add: last_occurs_def) (cases "stamps s"; simp)
  moreover have "es_step n ?s3 ?s4"
    using es_trylock [of ?s3 t now n] assms(2) by simp
  moreover have "es_step n ?s4 ?s5"
    using es_decide [of ?s4 t now True n] assms(4) by (simp add: last_occurs_def)
  moreover have "es_step n ?s5 ?s6"
    using es_unlock [of ?s5 t True now n] by simp
  moreover have "es_step n ?s6 (?s6\<lparr>es_lines := es_lines s @ [now], es_at := (es_at s)(t := Es_idle)\<rparr>)"
    using es_write [of ?s6 t now n] by simp
  ultimately have "(es_step n)\<^sup>*\<^sup>* s (?s6\<lparr>es_lines := es_lines s @ [now], es_at := (es_at s)(t := Es_idle)\<rparr>)"
    by (meson converse_rtranclp_into_rtranclp rtranclp.rtrancl_refl)
  then show ?thesis by simp
qed

definition es_start :: es_sys where
  "es_start = \<lparr>coarse = 0, stamps = [], es_lock = False, es_at = (\<lambda>t. Es_idle), es_lines = []\<rparr>"

theorem every_second_interval_witness:
  "\<exists>s. (es_step 1)\<^sup>*\<^sup>* es_start s \<and> es_lines s = [2000000000, 4000000000] \<and> distinct (es_lines s)"
proof -
  let ?s1 = "es_start\<lparr>coarse := 2000000000, stamps := [2000000000],
    es_lock := False, es_lines := [2000000000], es_at := (es_at es_start)(0 := Es_idle)\<rparr>"
  let ?s2 = "?s1\<lparr>coarse := 4000000000, stamps := 4000000000 # stamps ?s1,
    es_lock := False, es_lines := es_lines ?s1 @ [4000000000], es_at := (es_at ?s1)(0 := Es_idle)\<rparr>"
  have "(es_step 1)\<^sup>*\<^sup>* es_start ?s1"
    using es_through [of es_start 0 2000000000 1] by (simp add: es_start_def last_occurs_def seconds_def)
  moreover have "(es_step 1)\<^sup>*\<^sup>* ?s1 ?s2"
    by (rule es_through) (simp_all add: es_start_def last_occurs_def seconds_def)
  ultimately have st: "(es_step 1)\<^sup>*\<^sup>* es_start ?s2" by (rule rtranclp_trans)
  have "es_begin es_start" by (simp add: es_begin_def es_start_def)
  from every_second_interval [OF _ this st] st show ?thesis by (intro exI [of _ ?s2]) simp
qed

section \<open>Every second, on one thread\<close>

text \<open>The macro as a site whose static variable is the last time stamp, at a given clock reading.\<close>

definition log_every_second :: "int \<Rightarrow> int \<Rightarrow> int site" where
  "log_every_second n now last_stamp =
     (if last_stamp + seconds n < now then Some (now, True) else Some (last_stamp, False))"

definition AGRPC_LOG_EVERY_SECOND ::
  "'u config \<Rightarrow> severity \<Rightarrow> string \<Rightarrow> nat \<Rightarrow> 'u message \<Rightarrow> int \<Rightarrow> int \<Rightarrow> 'u log_world \<Rightarrow>
   (int \<times> 'u outcome) option" where
  "AGRPC_LOG_EVERY_SECOND cfg sev file line m now =
     site_stmt (log_every_second 1 now) (seq_all (AGRPC_LOG cfg sev file line m))"

text \<open>\<^verbatim>\<open>AGRPC_DETAIL_LOGGING_LOG_EVERY_N_SECOND_IF_IMPL\<close>: the condition guards the whole site.\<close>

definition log_every_n_second_if ::
  "('u, bool) expr \<Rightarrow> int \<Rightarrow> 'u stmt \<Rightarrow> int \<Rightarrow> int \<Rightarrow> 'u log_world \<Rightarrow> (int \<times> 'u outcome) option" where
  "log_every_n_second_if e n s now = site_if_stmt (log_every_second n now) e s"

definition AGRPC_LOG_IF_EVERY_SECOND ::
  "'u config \<Rightarrow> severity \<Rightarrow> string \<Rightarrow> nat \<Rightarrow> ('u, bool) expr \<Rightarrow> 'u message \<Rightarrow> int \<Rightarrow> int \<Rightarrow>
   'u log_world \<Rightarrow> (int \<times> 'u outcome) option" where
  "AGRPC_LOG_IF_EVERY_SECOND cfg sev file line e m now =
     log_every_n_second_if e 1 (seq_all (AGRPC_LOG cfg sev file line m)) now"

text \<open>
  The site is what the steps of one undisturbed thread do: from any state in which it is idle
  and the lock is free, the thread can pass the macro at any time the clock allows, and then the
  stamp and the written lines are those of the site.
\<close>
theorem every_second_undisturbed:
  assumes "es_at s t = Es_idle" and "\<not> es_lock s" and "coarse s \<le> now"
  shows "\<exists>s' b. (es_step n)\<^sup>*\<^sup>* s s' \<and> es_at s' t = Es_idle \<and> \<not> es_lock s' \<and>
    log_every_second n now (last_occurs s) = Some (last_occurs s', b) \<and>
    es_lines s' = es_lines s @ (if b then [now] else [])"
proof (cases "last_occurs s + seconds n < now")
  case True
  let ?s' = "s\<lparr>coarse := now, stamps := now # stamps s, es_lock := False,
    es_lines := es_lines s @ [now], es_at := (es_at s)(t := Es_idle)\<rparr>"
  show ?thesis
    using es_through [OF assms True] True
    by (intro exI [of _ ?s'] exI [of _ True]) (simp add: log_every_second_def last_occurs_def)
next
  case False
  let ?s1 = "s\<lparr>coarse := now\<rparr>"
  let ?s2 = "?s1\<lparr>es_at := (es_at s)(t := Timed now)\<rparr>"
  let ?s3 = "?s1\<lparr>es_at := (es_at s)(t := Es_idle)\<rparr>"
  have "es_step n s ?s1" by (rule es_tick) (fact assms(3))
  moreover have "es_step n ?s1 ?s2" using es_now [of ?s1 t now n] assms(1) by simp
  moreover have "es_step n ?s2 ?s3"
    using es_load [of ?s2 t now "last_occurs s" n] False
    by (simp add: last_occurs_def) (cases "stamps s"; simp)
  ultimately have "(es_step n)\<^sup>*\<^sup>* s ?s3"
    by (meson converse_rtranclp_into_rtranclp rtranclp.rtrancl_refl)
  then show ?thesis using False assms(2)
    by (intro exI [of _ ?s3] exI [of _ False]) (simp add: log_every_second_def last_occurs_def)
qed

theorem every_second_undisturbed_witness:
  "\<exists>s' b. (es_step 1)\<^sup>*\<^sup>* es_start s' \<and> es_lines s' = (if b then [2000000000] else []) \<and>
     log_every_second 1 2000000000 0 = Some (last_occurs s', b)"
proof -
  have "es_at es_start 0 = Es_idle" "\<not> es_lock es_start" "coarse es_start \<le> 2000000000"
    "last_occurs es_start = 0" "es_lines es_start = []"
    by (simp_all add: es_start_def last_occurs_def)
  note idle = this
  obtain s' b where "(es_step 1)\<^sup>*\<^sup>* es_start s'"
    "log_every_second 1 2000000000 (last_occurs es_start) = Some (last_occurs s', b)"
    "es_lines s' = es_lines es_start @ (if b then [2000000000] else [])"
    using every_second_undisturbed [OF idle(1-3), of 1] by (elim exE conjE)
  then show ?thesis unfolding idle(4,5) append_Nil by (intro exI conjI)
qed

end
