(* ===== verification/Log_Debug.thy ===== *)
theory Log_Debug
  imports Log_Throttle
begin

text \<open>
  The rest of the macros of \<^verbatim>\<open>logging.h\<close>: the six comparing checks and their debug versions, the
  debug log statements by period, what is left of the debug macros when \<^verbatim>\<open>NDEBUG\<close> is defined, and
  which macros may stand in an unbraced \<^verbatim>\<open>if\<close> with an \<^verbatim>\<open>else\<close>.
\<close>

section \<open>Comparing checks\<close>

datatype comparison = EQ | NE | LE | LT | GE | GT

fun op_text :: "comparison \<Rightarrow> string" where
  "op_text EQ = ''==''" | "op_text NE = ''!=''" | "op_text LE = ''<=''"
| "op_text LT = ''<''" | "op_text GE = ''>=''" | "op_text GT = ''>''"

fun compares :: "comparison \<Rightarrow> 'v :: linorder \<Rightarrow> 'v \<Rightarrow> bool" where
  "compares EQ x y \<longleftrightarrow> x = y" | "compares NE x y \<longleftrightarrow> x \<noteq> y" | "compares LE x y \<longleftrightarrow> x \<le> y"
| "compares LT x y \<longleftrightarrow> x < y" | "compares GE x y \<longleftrightarrow> x \<ge> y" | "compares GT x y \<longleftrightarrow> x > y"

definition AGRPC_CHECK_CMP ::
  "'u config \<Rightarrow> string \<Rightarrow> nat \<Rightarrow> ('v :: linorder \<Rightarrow> 'v \<Rightarrow> string \<Rightarrow> string) \<Rightarrow> comparison \<Rightarrow>
   ('u, 'v) operand \<Rightarrow> ('u, 'v) operand \<Rightarrow> 'u message \<Rightarrow> 'u stmt list" where
  "AGRPC_CHECK_CMP cfg file line mk c = AGRPC_CHECK_OP cfg file line mk (op_text c) (compares c)"

definition AGRPC_DCHECK_CMP ::
  "'u config \<Rightarrow> string \<Rightarrow> nat \<Rightarrow> ('v :: linorder \<Rightarrow> 'v \<Rightarrow> string \<Rightarrow> string) \<Rightarrow> comparison \<Rightarrow>
   ('u, 'v) operand \<Rightarrow> ('u, 'v) operand \<Rightarrow> 'u message \<Rightarrow> 'u stmt list" where
  "AGRPC_DCHECK_CMP cfg file line mk c val1 val2 m =
     (if ndebug cfg then [Continues] else AGRPC_CHECK_CMP cfg file line mk c val1 val2 m)"

lemma check_cmp_is_check_op:
  "AGRPC_CHECK_LE cfg file line mk = AGRPC_CHECK_CMP cfg file line mk LE"
  "AGRPC_CHECK_GE cfg file line mk = AGRPC_CHECK_CMP cfg file line mk GE"
proof -
  have "compares LE = ((\<le>) :: int \<Rightarrow> int \<Rightarrow> bool)" "compares GE = ((\<ge>) :: int \<Rightarrow> int \<Rightarrow> bool)"
    by (simp_all add: fun_eq_iff)
  then show "AGRPC_CHECK_LE cfg file line mk = AGRPC_CHECK_CMP cfg file line mk LE"
    "AGRPC_CHECK_GE cfg file line mk = AGRPC_CHECK_CMP cfg file line mk GE"
    by (simp_all add: AGRPC_CHECK_LE_def AGRPC_CHECK_GE_def AGRPC_CHECK_CMP_def)
qed

fun negation :: "comparison \<Rightarrow> comparison" where
  "negation EQ = NE" | "negation NE = EQ" | "negation LE = GT"
| "negation GT = LE" | "negation LT = GE" | "negation GE = LT"

lemma compares_negation: "compares (negation c) x y \<longleftrightarrow> \<not> compares c x y"
  by (cases c) auto

text \<open>Of a check and the check of the opposite comparison, exactly one goes on, with any operands.\<close>

theorem opposite_checks:
  "(\<exists>w'. seq_all (AGRPC_CHECK_CMP cfg file line mk c val1 val2 m) w = Continues w') \<noteq>
   (\<exists>w'. seq_all (AGRPC_CHECK_CMP cfg file line mk (negation c) val1 val2 m) w = Continues w')"
  by (simp add: AGRPC_CHECK_CMP_def AGRPC_CHECK_OP_def Let_def compares_negation split: prod.split)

section \<open>Debug log statements\<close>

text \<open>
  \<^verbatim>\<open>AGRPC_DLOG_..._EVERY_N\<close> is glog's \<^verbatim>\<open>DLOG_EVERY_N\<close>, whose site is a parameter: with \<^verbatim>\<open>NDEBUG\<close> it does
  nothing.
\<close>

definition AGRPC_DLOG_EVERY_N ::
  "(int \<Rightarrow> 'c site) \<Rightarrow> 'u config \<Rightarrow> severity \<Rightarrow> int \<Rightarrow> string \<Rightarrow> nat \<Rightarrow> 'u message \<Rightarrow> 'c \<Rightarrow>
   'u log_world \<Rightarrow> ('c \<times> 'u outcome) option" where
  "AGRPC_DLOG_EVERY_N glog_site cfg sev N file line m c w =
     (if ndebug cfg then Some (c, Continues w)
      else site_stmt (glog_site N) (log_line cfg sev [] no_text file line m) c w)"

text \<open>
  The text that \<^verbatim>\<open>AGRPC_DLOG_..._ONCE\<close> expands to with \<^verbatim>\<open>NDEBUG\<close> ends in a semicolon of its own, so the
  semicolon after the call is an empty statement.
\<close>

definition AGRPC_DLOG_ONCE_release :: "'u config \<Rightarrow> severity \<Rightarrow> string \<Rightarrow> nat \<Rightarrow> 'u message \<Rightarrow> 'u stmt list" where
  "AGRPC_DLOG_ONCE_release cfg sev file line m = AGRPC_DLOG cfg sev file line m @ [Continues]"

text \<open>\<^verbatim>\<open>if (c) MACRO(...); else s\<close> is a syntax error when the expansion is more than one statement.\<close>

definition if_else :: "('u, bool) expr \<Rightarrow> 'u stmt list \<Rightarrow> 'u stmt \<Rightarrow> 'u stmt option" where
  "if_else c ss t =
     (case ss of
       [s] \<Rightarrow> Some (\<lambda>w. let (b, u) = c (env w); w' = w\<lparr>env := u\<rparr> in if b then s w' else t w')
     | _ \<Rightarrow> None)"

text \<open>
  \<^verbatim>\<open>AGRPC_LOG_FATAL\<close> and, in release builds only, \<^verbatim>\<open>AGRPC_DLOG_..._ONCE\<close> cannot stand in an unbraced \<^verbatim>\<open>if\<close>
  with an \<^verbatim>\<open>else\<close>; the other log statements and the checks can, in all builds.
\<close>

theorem unbraced_if_else:
  "if_else c (AGRPC_LOG_FATAL cfg file line m) t = None \<and>
   if_else c (AGRPC_DLOG_ONCE_release cfg sev file line m) t = None \<and>
   if_else c (AGRPC_LOG cfg sev file line m) t \<noteq> None \<and>
   if_else c (AGRPC_LOG_IF cfg sev file line e m) t \<noteq> None \<and>
   if_else c (AGRPC_DLOG cfg sev file line m) t \<noteq> None \<and>
   if_else c (AGRPC_CHECK cfg file line txt e m) t \<noteq> None \<and>
   if_else c (AGRPC_DCHECK cfg file line txt e m) t \<noteq> None \<and>
   if_else c (AGRPC_DCHECK_CMP cfg file line mk cmp val1 val2 m) t \<noteq> None"
  by (simp add: if_else_def AGRPC_LOG_FATAL_def AGRPC_UNREACHABLE_def AGRPC_DLOG_ONCE_release_def
      AGRPC_DLOG_def AGRPC_LOG_def AGRPC_LOG_IF_def AGRPC_CHECK_def AGRPC_DCHECK_def AGRPC_DCHECK_CMP_def
      AGRPC_CHECK_CMP_def AGRPC_CHECK_OP_def)

text \<open>With \<^verbatim>\<open>NDEBUG\<close> the debug macros evaluate nothing and change nothing.\<close>

theorem release_builds_evaluate_nothing:
  assumes "ndebug cfg"
  shows "seq_all (AGRPC_DLOG cfg sev file line m) w = Continues w"
    and "seq_all (AGRPC_DLOG_IF cfg sev file line e m) w = Continues w"
    and "AGRPC_DLOG_ONCE cfg sev file line m logged w = Some (logged, Continues w)"
    and "seq_all (AGRPC_DLOG_ONCE_release cfg sev file line m) w = Continues w"
    and "AGRPC_DLOG_EVERY_N glog_site cfg sev N file line m c w = Some (c, Continues w)"
    and "seq_all (AGRPC_DCHECK cfg file line txt e m) w = Continues w"
    and "seq_all (AGRPC_DCHECK_CMP cfg file line mk cmp val1 val2 m) w = Continues w"
  using assms by (simp_all add: AGRPC_DLOG_def AGRPC_DLOG_IF_def AGRPC_DLOG_ONCE_def AGRPC_DLOG_EVERY_N_def
      AGRPC_DLOG_ONCE_release_def AGRPC_DCHECK_def AGRPC_DCHECK_CMP_def seq_two)

end
