(* ===== verification/Base_Macros.thy ===== *)
theory Base_Macros
  imports Agrpc_Prelude
begin

text \<open>
  The small headers of \<^verbatim>\<open>agrpc/base\<close>: \<^verbatim>\<open>internal/macros.h\<close> as a preprocessor on tokens, with the
  identifiers that \<^verbatim>\<open>AGRPC_ANONYMOUS_VARIABLE\<close> makes up; \<^verbatim>\<open>align.h\<close> with the layout of the struct
  of \<^verbatim>\<open>chrono.h\<close> that is aligned by it; and the values of the branch hints of \<^verbatim>\<open>likely.h\<close>.
\<close>

section \<open>Tokens\<close>

text \<open>
  A token is an ordinary one or one of the two predefined macros that the header uses. The state
  of the preprocessor is the number that \<^verbatim>\<open>__COUNTER__\<close> gives next and the current line.
\<close>

datatype token = Word string | Counter_macro | Line_macro

record preprocessor =
  next_counter :: nat
  this_line :: nat

fun spelling :: "token \<Rightarrow> string" where
  "spelling (Word s) = s"
| "spelling Counter_macro = ''__COUNTER__''"
| "spelling Line_macro = ''__LINE__''"

text \<open>Full macro expansion of an argument.\<close>

fun expand :: "token \<Rightarrow> preprocessor \<Rightarrow> token \<times> preprocessor" where
  "expand (Word s) pp = (Word s, pp)"
| "expand Counter_macro pp = (Word (decimal (next_counter pp)), pp\<lparr>next_counter := Suc (next_counter pp)\<rparr>)"
| "expand Line_macro pp = (Word (decimal (this_line pp)), pp)"

text \<open>
  The operands of \<^verbatim>\<open>##\<close> and \<^verbatim>\<open>#\<close> are used as they are spelled; a parameter that is no such operand
  is expanded before it is substituted. This is why each macro has a second level.
\<close>

definition AGRPC_CONCATENATE_IMPL :: "token \<Rightarrow> token \<Rightarrow> token" where
  "AGRPC_CONCATENATE_IMPL s1 s2 = Word (spelling s1 @ spelling s2)"

definition AGRPC_CONCATENATE :: "token \<Rightarrow> token \<Rightarrow> preprocessor \<Rightarrow> token \<times> preprocessor" where
  "AGRPC_CONCATENATE s1 s2 pp =
     (let (t1, pp1) = expand s1 pp; (t2, pp2) = expand s2 pp1 in (AGRPC_CONCATENATE_IMPL t1 t2, pp2))"

definition AGRPC_MACRO_EXPAND :: "token \<Rightarrow> preprocessor \<Rightarrow> token \<times> preprocessor" where
  "AGRPC_MACRO_EXPAND args pp = expand args pp"

definition AGRPC_STRINGIZE_IMPL :: "token \<Rightarrow> string" where
  "AGRPC_STRINGIZE_IMPL x = spelling x"

definition AGRPC_STRINGIZE :: "token \<Rightarrow> preprocessor \<Rightarrow> string \<times> preprocessor" where
  "AGRPC_STRINGIZE x pp = (let (t, pp') = expand x pp in (AGRPC_STRINGIZE_IMPL t, pp'))"

text \<open>\<open>has_counter\<close> is the test \<^verbatim>\<open>#ifdef __COUNTER__\<close>; \<open>str\<close> is an ordinary token.\<close>

definition AGRPC_ANONYMOUS_VARIABLE :: "bool \<Rightarrow> string \<Rightarrow> preprocessor \<Rightarrow> token \<times> preprocessor" where
  "AGRPC_ANONYMOUS_VARIABLE has_counter str pp =
     AGRPC_CONCATENATE (Word str) (if has_counter then Counter_macro else Line_macro) pp"

section \<open>Anonymous variables\<close>

text \<open>
  The identifiers of the uses in a translation unit: each use is preceded by some other uses of
  \<^verbatim>\<open>__COUNTER__\<close>, stands on a line and gives a prefix.
\<close>

fun anonymous_variables :: "bool \<Rightarrow> (nat \<times> nat \<times> string) list \<Rightarrow> preprocessor \<Rightarrow> string list" where
  "anonymous_variables has_counter [] pp = []"
| "anonymous_variables has_counter ((others, line, str) # uses) pp =
     (let (t, pp') = AGRPC_ANONYMOUS_VARIABLE has_counter str
            (pp\<lparr>next_counter := next_counter pp + others, this_line := line\<rparr>)
      in spelling t # anonymous_variables has_counter uses pp')"

definition split_identifier :: "string \<Rightarrow> string \<times> nat" where
  "split_identifier s =
     (rev (dropWhile is_digit (rev s)), number (rev (takeWhile is_digit (rev s))))"

definition no_final_digit :: "string \<Rightarrow> bool" where
  "no_final_digit s \<longleftrightarrow> s = [] \<or> \<not> is_digit (last s)"

lemma anonymous_variable_spelling:
  "spelling (fst (AGRPC_ANONYMOUS_VARIABLE has_counter str pp)) =
     str @ decimal (if has_counter then next_counter pp else this_line pp)"
  by (simp add: AGRPC_ANONYMOUS_VARIABLE_def AGRPC_CONCATENATE_def AGRPC_CONCATENATE_IMPL_def)

lemma split_identifier_append:
  assumes "no_final_digit str"
  shows "split_identifier (str @ decimal n) = (str, n)"
proof -
  have d: "\<And>c. c \<in> set (rev (decimal n)) \<Longrightarrow> is_digit c" using decimal_digits [of n] by (simp add: list_all_iff)
  have "dropWhile is_digit (rev str) = rev str \<and> takeWhile is_digit (rev str) = []"
    using assms by (cases str rule: rev_cases) (simp_all add: no_final_digit_def)
  moreover have "dropWhile is_digit (rev (decimal n) @ rev str) = dropWhile is_digit (rev str)"
    by (rule dropWhile_append2) (rule d)
  moreover have "takeWhile is_digit (rev (decimal n) @ rev str) = rev (decimal n) @ takeWhile is_digit (rev str)"
    by (rule takeWhile_append2) (rule d)
  ultimately show ?thesis by (simp add: split_identifier_def number_decimal)
qed

lemma anonymous_variables_Cons:
  "\<exists>pp'. anonymous_variables has_counter ((others, line, str) # uses) pp =
     (str @ decimal (if has_counter then next_counter pp + others else line)) #
       anonymous_variables has_counter uses pp' \<and>
     next_counter pp' \<ge> next_counter pp + (if has_counter then Suc others else 0)"
  by (auto simp: AGRPC_ANONYMOUS_VARIABLE_def AGRPC_CONCATENATE_def AGRPC_CONCATENATE_IMPL_def)

text \<open>The numbers of the identifiers: an ascending sequence of counter values, or the lines.\<close>

lemma counter_identifiers:
  "\<exists>ns. anonymous_variables True uses pp = map2 (\<lambda>(others, line, str) n. str @ decimal n) uses ns \<and>
     length ns = length uses \<and> sorted_wrt (<) ns \<and> (\<forall>n \<in> set ns. next_counter pp \<le> n)"
proof (induction uses arbitrary: pp)
  case (Cons u uses)
  obtain others line str where u: "u = (others, line, str)" by (cases u) auto
  from anonymous_variables_Cons [of True others line str uses pp] obtain pp' where
    v: "anonymous_variables True (u # uses) pp =
      (str @ decimal (next_counter pp + others)) # anonymous_variables True uses pp'"
    "next_counter pp + others < next_counter pp'"
    unfolding u by force
  from Cons [of pp'] obtain ns where
    "anonymous_variables True uses pp' = map2 (\<lambda>(others, line, str) n. str @ decimal n) uses ns"
    "length ns = length uses" "sorted_wrt (<) ns" "\<forall>n \<in> set ns. next_counter pp' \<le> n" by blast
  with v show ?case
    by (intro exI [of _ "(next_counter pp + others) # ns"]) (auto simp: u)
qed simp

lemma line_identifiers:
  "anonymous_variables False uses pp = map (\<lambda>(others, line, str). str @ decimal line) uses"
proof (induction uses arbitrary: pp)
  case (Cons u uses)
  obtain others line str where u: "u = (others, line, str)" by (cases u) auto
  from anonymous_variables_Cons [of False others line str uses pp] Cons.IH show ?case
    by (auto simp: u)
qed simp

lemma split_identifiers:
  "length ns = length uses \<Longrightarrow> \<forall>(others, line, str) \<in> set uses. no_final_digit str \<Longrightarrow>
   map split_identifier (map2 (\<lambda>(others, line, str) n. str @ decimal n) uses ns) = zip (map (snd \<circ> snd) uses) ns"
  by (induction ns uses rule: list_induct2) (auto simp: split_identifier_append)

lemma split_line_identifiers:
  "\<forall>(others, line, str) \<in> set uses. no_final_digit str \<Longrightarrow>
   map split_identifier (anonymous_variables False uses pp) = map (\<lambda>(others, line, str). (str, line)) uses"
  by (auto simp: line_identifiers split_identifier_append dest: bspec)

lemma line_identifiers_distinct:
  assumes "\<forall>(others, line, str) \<in> set uses. no_final_digit str"
  shows "distinct (anonymous_variables False uses pp) \<longleftrightarrow> distinct (map snd uses)"
proof -
  have "distinct (anonymous_variables False uses pp) \<longleftrightarrow>
      distinct (map split_identifier (anonymous_variables False uses pp))"
  proof
    assume "distinct (map split_identifier (anonymous_variables False uses pp))"
    then show "distinct (anonymous_variables False uses pp)" by (simp add: distinct_map)
  next
    assume "distinct (anonymous_variables False uses pp)"
    moreover have "inj_on split_identifier (set (anonymous_variables False uses pp))"
    proof (rule inj_onI)
      fix x y
      assume "x \<in> set (anonymous_variables False uses pp)" "y \<in> set (anonymous_variables False uses pp)"
        and eq: "split_identifier x = split_identifier y"
      moreover have "\<exists>l s. z = s @ decimal l \<and> no_final_digit s"
        if "z \<in> set (anonymous_variables False uses pp)" for z
        using that assms by (auto simp: line_identifiers dest: bspec)
      ultimately obtain l s m r where "x = s @ decimal l" "no_final_digit s" "y = r @ decimal m" "no_final_digit r"
        by blast
      with eq show "x = y" by (simp add: split_identifier_append)
    qed
    ultimately show "distinct (map split_identifier (anonymous_variables False uses pp))"
      by (simp add: distinct_map)
  qed
  also have "\<dots> \<longleftrightarrow> distinct (map prod.swap (map snd uses))"
    unfolding split_line_identifiers [OF assms] by (simp add: split_def prod.swap_def comp_def)
  also have "\<dots> \<longleftrightarrow> distinct (map snd uses)"
    by (simp add: distinct_map inj_on_def inj_eq [OF inj_swap])
  finally show "distinct (anonymous_variables False uses pp) \<longleftrightarrow> distinct (map snd uses)" .
qed

text \<open>
  C40. The anonymous variables of a translation unit can be read back, if no prefix ends in a digit:
  each gives its prefix and a number again. With \<^verbatim>\<open>__COUNTER__\<close> the numbers ascend, so that all the
  identifiers are different, even two on one line; without it they are the lines, and the
  identifiers are different exactly if no two uses have prefix and line in common. (With a final
  digit this fails: \<^verbatim>\<open>a1\<close> with 2 and \<^verbatim>\<open>a\<close> with 12 are one identifier.)
\<close>
theorem anonymous_variables_roundtrip:
  assumes "\<forall>(others, line, str) \<in> set uses. no_final_digit str"
  shows "(\<exists>ns. map split_identifier (anonymous_variables True uses pp) = zip (map (snd \<circ> snd) uses) ns \<and>
      length ns = length uses \<and> sorted_wrt (<) ns) \<and>
    distinct (anonymous_variables True uses pp) \<and>
    map split_identifier (anonymous_variables False uses pp) = map (\<lambda>(others, line, str). (str, line)) uses \<and>
    (distinct (anonymous_variables False uses pp) \<longleftrightarrow> distinct (map snd uses))"
proof (intro conjI)
  obtain ns where ns: "anonymous_variables True uses pp = map2 (\<lambda>(others, line, str) n. str @ decimal n) uses ns"
    "length ns = length uses" "sorted_wrt (<) ns"
    using counter_identifiers by blast
  have split: "map split_identifier (anonymous_variables True uses pp) = zip (map (snd \<circ> snd) uses) ns"
    using split_identifiers [OF ns(2) assms] ns(1) by simp
  then show "\<exists>ns. map split_identifier (anonymous_variables True uses pp) = zip (map (snd \<circ> snd) uses) ns \<and>
      length ns = length uses \<and> sorted_wrt (<) ns"
    using ns by blast
  have "distinct ns" using ns(3) by (simp add: strict_sorted_iff)
  then have "distinct (zip (map (snd \<circ> snd) uses) ns)" by (rule distinct_zipI2)
  then show "distinct (anonymous_variables True uses pp)"
    unfolding split [symmetric] by (simp add: distinct_map)
  show "map split_identifier (anonymous_variables False uses pp) = map (\<lambda>(others, line, str). (str, line)) uses"
    using split_line_identifiers [OF assms] .
  show "distinct (anonymous_variables False uses pp) \<longleftrightarrow> distinct (map snd uses)"
    using line_identifiers_distinct [OF assms] .
qed

text \<open>The registrations of \<^verbatim>\<open>logging_test.cc\<close> are on lines 66 and 67; and two uses on one line.\<close>

theorem anonymous_variables_roundtrip_witness:
  "distinct (anonymous_variables False [(0, 66, ''x_''), (0, 67, ''x_'')] \<lparr>next_counter = 0, this_line = 1\<rparr>) \<and>
   \<not> distinct (anonymous_variables False [(0, 66, ''x_''), (0, 66, ''x_'')] \<lparr>next_counter = 0, this_line = 1\<rparr>) \<and>
   distinct (anonymous_variables True [(0, 66, ''x_''), (3, 66, ''x_'')] \<lparr>next_counter = 0, this_line = 1\<rparr>)"
  using anonymous_variables_roundtrip [of "[(0, 66, ''x_''), (0, 67, ''x_'')]" "\<lparr>next_counter = 0, this_line = 1\<rparr>"]
    anonymous_variables_roundtrip [of "[(0, 66, ''x_''), (0, 66, ''x_'')]" "\<lparr>next_counter = 0, this_line = 1\<rparr>"]
    anonymous_variables_roundtrip [of "[(0, 66, ''x_''), (3, 66, ''x_'')]" "\<lparr>next_counter = 0, this_line = 1\<rparr>"]
  by (simp add: no_final_digit_def is_digit_def)

section \<open>Alignment\<close>

datatype arch = X86_64 | AArch64 | PowerPC64 | Other_arch

text \<open>No value: \<^verbatim>\<open>#error\<close>.\<close>

fun hardware_destructive_interference_size :: "arch \<Rightarrow> nat option" where
  "hardware_destructive_interference_size X86_64 = Some 128"
| "hardware_destructive_interference_size AArch64 = Some 64"
| "hardware_destructive_interference_size PowerPC64 = Some 128"
| "hardware_destructive_interference_size Other_arch = None"

fun hardware_constructive_interference_size :: "arch \<Rightarrow> nat option" where
  "hardware_constructive_interference_size X86_64 = Some 64"
| "hardware_constructive_interference_size AArch64 = Some 64"
| "hardware_constructive_interference_size PowerPC64 = Some 128"
| "hardware_constructive_interference_size Other_arch = None"

text \<open>
  The layout of a struct: each member at the next multiple of its alignment, the size rounded up
  to the alignment of the struct, which is at least what \<^verbatim>\<open>alignas\<close> says.
\<close>

definition round_up :: "nat \<Rightarrow> nat \<Rightarrow> nat" where
  "round_up n a = (n + a - 1) div a * a"

fun member_offsets :: "nat \<Rightarrow> (nat \<times> nat) list \<Rightarrow> nat list" where
  "member_offsets at [] = []"
| "member_offsets at ((bytes, align) # ms) =
     round_up at align # member_offsets (round_up at align + bytes) ms"

definition struct_alignment :: "nat \<Rightarrow> (nat \<times> nat) list \<Rightarrow> nat" where
  "struct_alignment alignas ms = fold max (map snd ms) alignas"

definition struct_size :: "nat \<Rightarrow> (nat \<times> nat) list \<Rightarrow> nat" where
  "struct_size alignas ms =
     round_up (foldl (\<lambda>at (bytes, align). round_up at align + bytes) 0 ms) (struct_alignment alignas ms)"

text \<open>\<^verbatim>\<open>AsynchronouslyUpdatedTimestamps\<close>: two atomics of eight bytes.\<close>

definition timestamps_members :: "(nat \<times> nat) list" where
  "timestamps_members = [(8, 8), (8, 8)]"

definition AsynchronouslyUpdatedTimestamps_layout :: "arch \<Rightarrow> (nat list \<times> nat \<times> nat) option" where
  "AsynchronouslyUpdatedTimestamps_layout a =
     map_option (\<lambda>d. (member_offsets 0 timestamps_members, struct_size d timestamps_members,
       struct_alignment d timestamps_members)) (hardware_destructive_interference_size a)"

lemma AsynchronouslyUpdatedTimestamps_layout_eq:
  "AsynchronouslyUpdatedTimestamps_layout a =
     map_option (\<lambda>d. ([0, 8], d, d)) (hardware_destructive_interference_size a)"
  by (cases a) (simp_all add: AsynchronouslyUpdatedTimestamps_layout_def timestamps_members_def
      struct_size_def struct_alignment_def round_up_def)

lemma div_block: "d dvd base \<Longrightarrow> i < d \<Longrightarrow> (base + i) div d = base div (d :: nat)"
  by (auto elim!: dvdE)

lemma block_of: "0 < d \<Longrightarrow> x div d = k \<longleftrightarrow> d * k \<le> x \<and> x < d * k + (d :: nat)"
  using dividend_less_div_times [of d x] by (auto simp: mult.commute add.commute intro: div_nat_eqI)

text \<open>
  What the alignment of the coarse clock's time stamps is for, on every supported architecture: both
  are in one block of the constructive size, so they are fetched together, and no block of the
  destructive size that holds a byte of them holds a byte of anything else.
\<close>
theorem timestamps_share_no_line:
  assumes "AsynchronouslyUpdatedTimestamps_layout a = Some (offsets, bytes, align)"
    and "hardware_destructive_interference_size a = Some d"
    and "hardware_constructive_interference_size a = Some c"
    and "align dvd base" and "off \<in> set offsets" and "i < 8"
  shows "(base + off + i) div c = base div c \<and>
    (x div d = (base + off + i) div d \<longleftrightarrow> base \<le> x \<and> x < base + bytes)"
proof -
  have offsets: "offsets = [0, 8]" "bytes = d" "align = d"
    using assms(1,2) by (auto simp: AsynchronouslyUpdatedTimestamps_layout_eq)
  have sizes: "c dvd d" "16 \<le> c" "0 < d" using assms(2,3) by (cases a; auto)+
  have "off + i < 16" using assms(5,6) offsets by auto
  moreover have "c \<le> d" using sizes by (simp add: dvd_imp_le)
  ultimately have "off + i < c" "off + i < d" using sizes by simp_all
  moreover have "c dvd base" using sizes(1) assms(4) offsets(3) by (blast intro: dvd_trans)
  ultimately have blocks: "(base + off + i) div c = base div c" "(base + off + i) div d = base div d"
    using div_block [of c base "off + i"] div_block [of d base "off + i"] assms(4) offsets
    by (simp_all add: add.assoc)
  obtain k where k: "base = d * k" using assms(4) offsets by (auto elim: dvdE)
  have "x div d = base div d \<longleftrightarrow> base \<le> x \<and> x < base + bytes"
    using block_of [OF sizes(3), of x k] sizes(3) by (simp add: k offsets)
  with blocks show ?thesis by simp
qed

theorem timestamps_share_no_line_witness:
  "AsynchronouslyUpdatedTimestamps_layout X86_64 = Some ([0, 8], 128, 128) \<and>
   (256 + 8 + 7) div 64 = (256 :: nat) div 64 \<and>
   ((384 :: nat) div 128 = (256 + 8 + 7) div 128 \<longleftrightarrow> 256 \<le> (384 :: nat) \<and> 384 < (256 :: nat) + 128)"
  using timestamps_share_no_line [of X86_64 "[0, 8]" 128 128 128 64 256 8 7 384]
  by (simp add: AsynchronouslyUpdatedTimestamps_layout_eq)

section \<open>Branch hints\<close>

text \<open>\<^verbatim>\<open>__builtin_expect\<close> returns its first argument.\<close>

definition AGRPC_LIKELY :: "bool \<Rightarrow> int \<Rightarrow> int" where
  "AGRPC_LIKELY gnuc expr = (if gnuc then of_bool (\<not> (\<not> expr \<noteq> 0)) else expr)"

definition AGRPC_UNLIKELY :: "bool \<Rightarrow> int \<Rightarrow> int" where
  "AGRPC_UNLIKELY gnuc expr = (if gnuc then of_bool (\<not> (\<not> expr \<noteq> 0)) else expr)"

lemma hints_keep_truth [simp]:
  "AGRPC_LIKELY gnuc expr \<noteq> 0 \<longleftrightarrow> expr \<noteq> 0" "AGRPC_UNLIKELY gnuc expr \<noteq> 0 \<longleftrightarrow> expr \<noteq> 0"
  by (simp_all add: AGRPC_LIKELY_def AGRPC_UNLIKELY_def)

end
