(* ===== verification/Coarse_Clock.thy ===== *)
theory Coarse_Clock
  imports Agrpc_Prelude "HOL-Library.Word"
begin

text \<open>
  \<^verbatim>\<open>agrpc/base/chrono.h\<close> and \<^verbatim>\<open>chrono.cc\<close>: the coarse clock, two published time stamps that a
  worker thread refreshes every 4 ms. Time is the steady clock in nanoseconds; the system clock
  is any function of it. A thread that is ready to take its next step takes it within a delay
  \<open>D\<close>: the scheduling bound of the platform, a parameter. The constructor runs the first update
  itself and then starts the worker, so one program counter serves for both.
\<close>

section \<open>State\<close>

datatype clock_pc =
    Read_steady | Store_steady int | Read_system | Store_system int int
  | Test_exiting | Sleeping int | Joined

text \<open>
  \<open>Store_system t v\<close> holds the system time \<open>v\<close> that was read at time \<open>t\<close>. \<open>due\<close> is the latest
  time of the worker's next step; \<open>system_read_at\<close> and \<open>exit_at\<close> are observers: when the
  published system time was read, and when the destructor set the exit flag.
\<close>

record clock_sys =
  time_now :: int
  steady_clock_time_since_epoch :: int
  system_clock_time_since_epoch :: int
  exiting :: bool
  clock_at :: clock_pc
  due :: int
  initialised :: bool
  system_read_at :: int
  exit_at :: int

definition four_ms :: int where "four_ms = 4000000"

text \<open>The readers.\<close>

definition ReadCoarseSteadyClock :: "clock_sys \<Rightarrow> int" where
  "ReadCoarseSteadyClock s = steady_clock_time_since_epoch s"

definition ReadCoarseSystemClock :: "clock_sys \<Rightarrow> int" where
  "ReadCoarseSystemClock s = system_clock_time_since_epoch s"

section \<open>Steps\<close>

text \<open>The next place of the worker, to be left within the delay.\<close>

definition goto :: "int \<Rightarrow> clock_pc \<Rightarrow> clock_sys \<Rightarrow> clock_sys" where
  "goto D p s = s\<lparr>clock_at := p, due := time_now s + D\<rparr>"

text \<open>
  \<^verbatim>\<open>UpdateCoarseTimestamps\<close> is the four steps from \<open>Read_steady\<close>; the loop of the worker tests the
  flag, sleeps and updates; the destructor sets the flag and joins.
\<close>

inductive clock_step :: "int \<Rightarrow> (int \<Rightarrow> int) \<Rightarrow> clock_sys \<Rightarrow> clock_sys \<Rightarrow> bool" for D wall where
  pass: "time_now s \<le> t \<Longrightarrow> clock_at s \<noteq> Joined \<longrightarrow> t \<le> due s \<Longrightarrow>
     clock_step D wall s (s\<lparr>time_now := t\<rparr>)"
| read_steady: "clock_at s = Read_steady \<Longrightarrow>
     clock_step D wall s (goto D (Store_steady (time_now s)) s)"
| store_steady: "clock_at s = Store_steady v \<Longrightarrow>
     clock_step D wall s (goto D Read_system (s\<lparr>steady_clock_time_since_epoch := v\<rparr>))"
| read_system: "clock_at s = Read_system \<Longrightarrow>
     clock_step D wall s (goto D (Store_system (time_now s) (wall (time_now s))) s)"
| store_system: "clock_at s = Store_system t v \<Longrightarrow>
     clock_step D wall s (goto D Test_exiting
       (s\<lparr>system_clock_time_since_epoch := v, system_read_at := t, initialised := True\<rparr>))"
| test_running: "clock_at s = Test_exiting \<Longrightarrow> \<not> exiting s \<Longrightarrow>
     clock_step D wall s (s\<lparr>clock_at := Sleeping (time_now s + four_ms), due := time_now s + four_ms + D\<rparr>)"
| test_exit: "clock_at s = Test_exiting \<Longrightarrow> exiting s \<Longrightarrow>
     clock_step D wall s (s\<lparr>clock_at := Joined\<rparr>)"
| wake: "clock_at s = Sleeping t \<Longrightarrow> t \<le> time_now s \<Longrightarrow>
     clock_step D wall s (goto D Read_steady s)"
| destruct: "initialised s \<Longrightarrow> \<not> exiting s \<Longrightarrow>
     clock_step D wall s (s\<lparr>exiting := True, exit_at := time_now s\<rparr>)"

definition clock_start :: "int \<Rightarrow> clock_sys \<Rightarrow> bool" where
  "clock_start D s \<longleftrightarrow> clock_at s = Read_steady \<and> due s = time_now s + D \<and> \<not> exiting s \<and> \<not> initialised s"

section \<open>Invariant\<close>

text \<open>Steps left until the worker has replaced the published steady time, and the system time.\<close>

fun steady_age :: "int \<Rightarrow> clock_pc \<Rightarrow> int" where
  "steady_age D Read_system = 2 * D"
| "steady_age D (Store_system t v) = 3 * D"
| "steady_age D Test_exiting = 4 * D"
| "steady_age D (Sleeping t) = four_ms + 5 * D"
| "steady_age D Read_steady = four_ms + 6 * D"
| "steady_age D (Store_steady v) = four_ms + 7 * D"
| "steady_age D Joined = 0"

fun system_age :: "int \<Rightarrow> clock_pc \<Rightarrow> int" where
  "system_age D Test_exiting = 2 * D"
| "system_age D (Sleeping t) = four_ms + 3 * D"
| "system_age D Read_steady = four_ms + 4 * D"
| "system_age D (Store_steady v) = four_ms + 5 * D"
| "system_age D Read_system = four_ms + 6 * D"
| "system_age D (Store_system t v) = four_ms + 7 * D"
| "system_age D Joined = 0"

fun exit_age :: "int \<Rightarrow> clock_pc \<Rightarrow> int" where
  "exit_age D (Sleeping t) = four_ms + D"
| "exit_age D Read_steady = four_ms + 2 * D"
| "exit_age D (Store_steady v) = four_ms + 3 * D"
| "exit_age D Read_system = four_ms + 4 * D"
| "exit_age D (Store_system t v) = four_ms + 5 * D"
| "exit_age D Test_exiting = four_ms + 6 * D"
| "exit_age D Joined = 0"

definition clock_inv :: "int \<Rightarrow> (int \<Rightarrow> int) \<Rightarrow> clock_sys \<Rightarrow> bool" where
  "clock_inv D wall s \<longleftrightarrow>
     (initialised s \<longrightarrow> steady_clock_time_since_epoch s \<le> time_now s \<and> system_read_at s \<le> time_now s \<and>
        system_clock_time_since_epoch s = wall (system_read_at s)) \<and>
     (clock_at s \<noteq> Joined \<longrightarrow> time_now s \<le> due s) \<and>
     (case clock_at s of
       Store_steady v \<Rightarrow> v \<le> time_now s \<and> due s \<le> v + D
     | Read_system \<Rightarrow> steady_clock_time_since_epoch s \<le> time_now s \<and> due s \<le> steady_clock_time_since_epoch s + 2 * D
     | Store_system t v \<Rightarrow> t \<le> time_now s \<and> due s \<le> t + D \<and> v = wall t \<and>
         steady_clock_time_since_epoch s \<le> time_now s \<and> due s \<le> steady_clock_time_since_epoch s + 3 * D
     | Sleeping t \<Rightarrow> initialised s \<and> due s \<le> time_now s + four_ms + D
     | Test_exiting \<Rightarrow> initialised s
     | Joined \<Rightarrow> initialised s \<and> exiting s
     | _ \<Rightarrow> True) \<and>
     (clock_at s \<noteq> Joined \<and> initialised s \<longrightarrow>
        due s \<le> steady_clock_time_since_epoch s + steady_age D (clock_at s) \<and>
        due s \<le> system_read_at s + system_age D (clock_at s)) \<and>
     (clock_at s \<noteq> Joined \<and> (\<forall>t. clock_at s \<noteq> Sleeping t) \<longrightarrow> due s \<le> time_now s + D) \<and>
     (exiting s \<longrightarrow> initialised s \<and> exit_at s \<le> time_now s) \<and>
     (exiting s \<and> clock_at s \<noteq> Joined \<longrightarrow> due s \<le> exit_at s + exit_age D (clock_at s))"

lemma clock_step_inv:
  assumes D: "0 \<le> D" and st: "clock_step D wall s s'" and inv: "clock_inv D wall s"
  shows "clock_inv D wall s'"
  using st
proof cases
  case (pass t)
  then show ?thesis using inv by (auto simp: clock_inv_def split: clock_pc.splits)
next
  case read_steady
  then show ?thesis using inv D by (auto simp: clock_inv_def goto_def)
next
  case (store_steady v)
  then show ?thesis using inv D by (auto simp: clock_inv_def goto_def)
next
  case read_system
  then show ?thesis using inv D by (auto simp: clock_inv_def goto_def)
next
  case (store_system t v)
  then show ?thesis using inv D by (auto simp: clock_inv_def goto_def)
next
  case test_running
  then show ?thesis using inv D by (auto simp: clock_inv_def goto_def four_ms_def)
next
  case test_exit
  then show ?thesis using inv D by (auto simp: clock_inv_def)
next
  case (wake t)
  then show ?thesis using inv D by (auto simp: clock_inv_def goto_def)
next
  case destruct
  then show ?thesis using inv D
    by (auto simp: clock_inv_def four_ms_def split: clock_pc.splits)
qed

interpretation coarse: inductive_invariant "\<lambda>s. 0 \<le> D \<and> clock_start D s" "clock_step D wall"
    "\<lambda>s. 0 \<le> D \<and> clock_inv D wall s"
  for D :: int and wall :: "int \<Rightarrow> int"
proof unfold_locales
  show "0 \<le> D \<and> clock_inv D wall s" if "0 \<le> D \<and> clock_start D s" for s
    using that by (auto simp: clock_start_def clock_inv_def)
  show "0 \<le> D \<and> clock_inv D wall t" if "clock_step D wall s t" "0 \<le> D \<and> clock_inv D wall s" for s t
    using that clock_step_inv by blast
qed

lemma ages_bounded:
  assumes "0 \<le> D"
  shows "steady_age D p \<le> four_ms + 7 * D" and "system_age D p \<le> four_ms + 7 * D"
    and "exit_age D p \<le> four_ms + 6 * D"
  using assms by (cases p; simp add: four_ms_def)+

section \<open>What the clock promises\<close>

text \<open>The ages of the published times, the system time's by the moment at which it was read.\<close>

lemma clock_ages:
  assumes "0 \<le> D" and "clock_start D s0" and "(clock_step D wall)\<^sup>*\<^sup>* s0 s"
    and "initialised s" and "clock_at s \<noteq> Joined"
  shows "ReadCoarseSteadyClock s \<le> time_now s" "time_now s - ReadCoarseSteadyClock s \<le> 4000000 + 7 * D"
    "ReadCoarseSystemClock s = wall (system_read_at s)" "system_read_at s \<le> time_now s"
    "time_now s - system_read_at s \<le> 4000000 + 7 * D"
proof -
  have "clock_inv D wall s" using coarse.holds_from_start [of D, OF _ assms(3)] assms(1,2) by simp
  then have "steady_clock_time_since_epoch s \<le> time_now s" "system_read_at s \<le> time_now s"
    "system_clock_time_since_epoch s = wall (system_read_at s)" "time_now s \<le> due s"
    "due s \<le> steady_clock_time_since_epoch s + steady_age D (clock_at s)"
    "due s \<le> system_read_at s + system_age D (clock_at s)"
    using assms(4,5) unfolding clock_inv_def by blast+
  then show "ReadCoarseSteadyClock s \<le> time_now s" "time_now s - ReadCoarseSteadyClock s \<le> 4000000 + 7 * D"
    "ReadCoarseSystemClock s = wall (system_read_at s)" "system_read_at s \<le> time_now s"
    "time_now s - system_read_at s \<le> 4000000 + 7 * D"
    using ages_bounded(1,2) [OF assms(1), of "clock_at s"]
    by (simp_all add: ReadCoarseSteadyClock_def ReadCoarseSystemClock_def four_ms_def)
qed

text \<open>
  C36. How far the coarse clocks lag: from the end of the constructor until the worker has stopped, the
  coarse steady clock is never ahead of the steady clock and at most 4 ms and seven scheduling
  delays behind it; the coarse system clock shows a time that the system clock had within the
  same lag. With delays below 6/7 ms this is the 10 ms that \<^verbatim>\<open>chrono.h\<close> promises.
\<close>
theorem coarse_clock_lag:
  assumes "0 \<le> D" and "clock_start D s0" and "(clock_step D wall)\<^sup>*\<^sup>* s0 s"
    and "initialised s" and "clock_at s \<noteq> Joined"
  shows "0 \<le> time_now s - ReadCoarseSteadyClock s \<and>
    time_now s - ReadCoarseSteadyClock s \<le> 4000000 + 7 * D \<and>
    (\<exists>t. ReadCoarseSystemClock s = wall t \<and> t \<le> time_now s \<and> time_now s - t \<le> 4000000 + 7 * D)"
  using clock_ages [OF assms] by (intro conjI exI [of _ "system_read_at s"]) simp_all

text \<open>
  The destructor's \<^verbatim>\<open>join\<close> is bounded: while the worker has not stopped, no more than 4 ms and six
  scheduling delays have passed since the exit flag was set.
\<close>
theorem join_is_bounded:
  assumes "0 \<le> D" and "clock_start D s0" and "(clock_step D wall)\<^sup>*\<^sup>* s0 s"
    and "exiting s" and "clock_at s \<noteq> Joined"
  shows "time_now s \<le> exit_at s + 4000000 + 6 * D"
proof -
  have "clock_inv D wall s" using coarse.holds_from_start [of D, OF _ assms(3)] assms(1,2) by simp
  then have "time_now s \<le> due s" "due s \<le> exit_at s + exit_age D (clock_at s)"
    using assms(4,5) unfolding clock_inv_def by blast+
  then show ?thesis using ages_bounded(3) [OF assms(1), of "clock_at s"] by (simp add: four_ms_def)
qed

text \<open>A run without delay: the constructor at time 5, the worker sleeping, the destructor at once.\<close>

definition clock_demo :: clock_sys where
  "clock_demo = \<lparr>time_now = 5, steady_clock_time_since_epoch = 0, system_clock_time_since_epoch = 0,
     exiting = False, clock_at = Read_steady, due = 5, initialised = False, system_read_at = 0, exit_at = 0\<rparr>"

definition clock_demo_slept :: clock_sys where
  "clock_demo_slept = \<lparr>time_now = 4000005, steady_clock_time_since_epoch = 5,
     system_clock_time_since_epoch = 105, exiting = False, clock_at = Sleeping 4000005, due = 4000005,
     initialised = True, system_read_at = 5, exit_at = 0\<rparr>"

lemma clock_demo_runs: "(clock_step 0 (\<lambda>t. t + 100))\<^sup>*\<^sup>* clock_demo clock_demo_slept"
proof -
  let ?wall = "\<lambda>t. t + 100" and ?st = "clock_step 0 (\<lambda>t. t + 100)"
  let ?s1 = "clock_demo\<lparr>clock_at := Store_steady 5\<rparr>"
  let ?s2 = "?s1\<lparr>steady_clock_time_since_epoch := 5, clock_at := Read_system\<rparr>"
  let ?s3 = "?s2\<lparr>clock_at := Store_system 5 105\<rparr>"
  let ?s4 = "?s3\<lparr>system_clock_time_since_epoch := 105, system_read_at := 5, initialised := True,
    clock_at := Test_exiting\<rparr>"
  let ?s5 = "?s4\<lparr>clock_at := Sleeping 4000005, due := 4000005\<rparr>"
  have "?st clock_demo ?s1"
    using clock_step.read_steady [where s = clock_demo and D = 0 and wall = ?wall]
    by (simp add: goto_def clock_demo_def)
  moreover have "?st ?s1 ?s2"
    using clock_step.store_steady [where s = ?s1 and D = 0 and wall = ?wall and v = 5]
    by (simp add: goto_def clock_demo_def)
  moreover have "?st ?s2 ?s3"
    using clock_step.read_system [where s = ?s2 and D = 0 and wall = ?wall]
    by (simp add: goto_def clock_demo_def)
  moreover have "?st ?s3 ?s4"
    using clock_step.store_system [where s = ?s3 and D = 0 and wall = ?wall and t = 5 and v = 105]
    by (simp add: goto_def clock_demo_def)
  moreover have "?st ?s4 ?s5"
    using clock_step.test_running [where s = ?s4 and D = 0 and wall = ?wall]
    by (simp add: clock_demo_def four_ms_def)
  moreover have "?st ?s5 clock_demo_slept"
    using clock_step.pass [where s = ?s5 and D = 0 and wall = ?wall and t = 4000005]
    by (simp add: clock_demo_def clock_demo_slept_def)
  ultimately show ?thesis
    by (meson converse_rtranclp_into_rtranclp rtranclp.rtrancl_refl)
qed

lemma clock_demo_start: "clock_start 0 clock_demo"
  by (simp add: clock_start_def clock_demo_def)

theorem coarse_clock_lag_witness:
  "(clock_step 0 (\<lambda>t. t + 100))\<^sup>*\<^sup>* clock_demo clock_demo_slept \<and>
   time_now clock_demo_slept - ReadCoarseSteadyClock clock_demo_slept = 4000000 \<and>
   time_now clock_demo_slept - ReadCoarseSteadyClock clock_demo_slept \<le> 4000000 + 7 * 0"
  using coarse_clock_lag [OF _ clock_demo_start clock_demo_runs] clock_demo_runs
  by (simp add: clock_demo_slept_def ReadCoarseSteadyClock_def)

theorem join_is_bounded_witness:
  "\<exists>s. (clock_step 0 (\<lambda>t. t + 100))\<^sup>*\<^sup>* clock_demo s \<and> exiting s \<and> time_now s \<le> exit_at s + 4000000"
proof -
  let ?wall = "\<lambda>t. t + 100"
  let ?s = "clock_demo_slept\<lparr>exiting := True, exit_at := 4000005\<rparr>"
  have "clock_step 0 (\<lambda>t. t + 100) clock_demo_slept ?s"
    using clock_step.destruct [where s = clock_demo_slept and D = 0 and wall = ?wall]
    by (simp add: clock_demo_slept_def)
  with clock_demo_runs have st: "(clock_step 0 (\<lambda>t. t + 100))\<^sup>*\<^sup>* clock_demo ?s"
    by (rule rtranclp.rtrancl_into_rtrancl)
  from join_is_bounded [OF _ clock_demo_start st] st show ?thesis
    by (intro exI [of _ ?s]) (simp add: clock_demo_slept_def)
qed

section \<open>Reading a \<^verbatim>\<open>timespec\<close>\<close>

text \<open>\<^verbatim>\<open>ReadClock\<close>, in 64-bit arithmetic: \<^verbatim>\<open>tv_sec\<close> and \<^verbatim>\<open>tv_nsec\<close> are signed 64-bit words.\<close>

definition ReadClock :: "64 word \<Rightarrow> 64 word \<Rightarrow> 64 word" where
  "ReadClock tv_sec tv_nsec = tv_sec * 1000000000 + tv_nsec"

text \<open>
  \<^verbatim>\<open>ReadClock\<close> does not overflow for the next 292 years: for a normalised \<^verbatim>\<open>timespec\<close> with less than
  9223372036 seconds its result is the exact number of nanoseconds.
\<close>
theorem ReadClock_exact:
  assumes "0 \<le> sint tv_sec" and "sint tv_sec < 9223372036" and "0 \<le> sint tv_nsec"
    and "sint tv_nsec < 1000000000"
  shows "sint (ReadClock tv_sec tv_nsec) = sint tv_sec * 1000000000 + sint tv_nsec"
proof -
  let ?n = "sint tv_sec * 1000000000 + sint tv_nsec"
  have "ReadClock tv_sec tv_nsec = word_of_int ?n"
    by (simp add: ReadClock_def wi_hom_syms)
  moreover have "- (2 ^ 63) \<le> ?n" and "?n < 2 ^ 63" using assms by simp_all
  ultimately show ?thesis
    by (simp only: sint_sbintrunc') (simp add: signed_take_bit_int_eq_self)
qed

theorem ReadClock_exact_witness:
  "sint (ReadClock 1700000000 999999999) = 1700000000999999999"
  using ReadClock_exact [of 1700000000 999999999] by simp

end
