(* ===== verification/Base_Tests.thy ===== *)
theory Base_Tests
  imports Coarse_Clock Log_Macros
begin

text \<open>
  The test of the coarse clock (\<^verbatim>\<open>chrono_test.cc\<close>) and the benchmarks of the checks
  (\<^verbatim>\<open>logging_benchmark.cc\<close>): when the wall-clock test passes, in terms of the scheduling delay, and
  what the benchmarks do. googletest and the benchmark library are not in the repository: an
  assertion is its condition, and \<^verbatim>\<open>KeepRunning\<close> is a parameter.
\<close>

section \<open>The test of the coarse clock\<close>

text \<open>A duration in nanoseconds divided by \<^verbatim>\<open>1ms\<close>: C++ truncates towards zero.\<close>

definition millis :: "int \<Rightarrow> int" where
  "millis d = sgn d * (\<bar>d\<bar> div 1000000)"

definition assert_near :: "int \<Rightarrow> int \<Rightarrow> int \<Rightarrow> bool" where
  "assert_near val1 val2 abs_error \<longleftrightarrow> \<bar>val1 - val2\<bar> \<le> abs_error"

definition test_CoarseSystemClock :: "clock_sys \<Rightarrow> int \<Rightarrow> bool" where
  "test_CoarseSystemClock s now =
     (let diff = millis (ReadCoarseSystemClock s - now) in assert_near diff 0 10)"

definition test_CoarseSteadyClock :: "clock_sys \<Rightarrow> int \<Rightarrow> bool" where
  "test_CoarseSteadyClock s now =
     (let diff = millis (ReadCoarseSteadyClock s - now) in assert_near diff 0 10)"

lemma near_zero: "- 11000000 < d \<Longrightarrow> d < 11000000 \<Longrightarrow> assert_near (millis d) 0 10"
  by (auto simp: assert_near_def millis_def abs_mult sgn_if)

text \<open>
  The two clocks of the test's subtraction are read in either order: \<open>now\<close> is taken up to one
  scheduling delay before or after the coarse clock. The system clock is not set during the test
  and runs at most as fast as the steady clock.
\<close>

definition never_set :: "(int \<Rightarrow> int) \<Rightarrow> bool" where
  "never_set wall \<longleftrightarrow> (\<forall>a b. a \<le> b \<longrightarrow> 0 \<le> wall b - wall a \<and> wall b - wall a \<le> b - a)"

lemma never_setD: "never_set wall \<Longrightarrow> a \<le> b \<Longrightarrow> 0 \<le> wall b - wall a \<and> wall b - wall a \<le> b - a"
  unfolding never_set_def by blast

text \<open>
  The tests of the coarse clocks pass on every platform whose scheduling delay is below 0.875 ms:
  whenever they are run between the construction and the destruction of the clock, both differences
  round to at most 10 ms.
\<close>
theorem clock_tests_pass:
  assumes "0 \<le> D" and "8 * D < 7000000" and "never_set wall"
    and "clock_start D s0" and "(clock_step D wall)\<^sup>*\<^sup>* s0 s" and "initialised s" and "clock_at s \<noteq> Joined"
    and "\<bar>now - time_now s\<bar> \<le> D"
  shows "test_CoarseSteadyClock s now \<and> test_CoarseSystemClock s (wall now)"
proof
  note lag = clock_ages [OF assms(1,4-7)]
  show "test_CoarseSteadyClock s now"
    using lag assms(1,2,8) unfolding test_CoarseSteadyClock_def Let_def
    by (intro near_zero) (simp_all add: abs_le_iff)
  define t where "t = system_read_at s"
  with lag have t: "ReadCoarseSystemClock s = wall t" "t \<le> time_now s" "time_now s - t \<le> 4000000 + 7 * D"
    by simp_all
  have "- 11000000 < wall t - wall now \<and> wall t - wall now < 11000000"
  proof (cases "t \<le> now")
    case True
    from never_setD [OF assms(3) this] t assms(1,2,8) show ?thesis by (simp add: abs_le_iff)
  next
    case False
    with never_setD [OF assms(3), of now t] t assms(1,2,8) show ?thesis by (simp add: abs_le_iff)
  qed
  then show "test_CoarseSystemClock s (wall now)"
    unfolding test_CoarseSystemClock_def Let_def t(1) by (intro near_zero) simp_all
qed

theorem clock_tests_pass_witness:
  "test_CoarseSteadyClock clock_demo_slept 4000005 \<and> test_CoarseSystemClock clock_demo_slept 4000105 \<and>
   ReadCoarseSteadyClock clock_demo_slept = 5"
proof -
  have "never_set (\<lambda>t. t + 100)" by (simp add: never_set_def)
  from clock_tests_pass [OF _ _ this clock_demo_start clock_demo_runs, of 4000005] show ?thesis
    by (simp add: clock_demo_slept_def ReadCoarseSteadyClock_def)
qed

section \<open>The benchmarks of the checks\<close>

text \<open>
  The program's state is the benchmark library's own and the volatile \<^verbatim>\<open>x\<close> and \<^verbatim>\<open>y\<close>, which nothing
  in the program writes.
\<close>

record 'b bench =
  state :: 'b
  x :: int
  y :: int

definition read_x :: "('b bench, int) expr" where "read_x u = (x u, u)"
definition read_y :: "('b bench, int) expr" where "read_y u = (y u, u)"
definition not_x :: "('b bench, bool) expr" where "not_x u = (let (v, u') = read_x u in (v = 0, u'))"

text \<open>The arguments of the messages; \<open>fmt\<close> is \<^verbatim>\<open>fmt::format\<close>.\<close>

definition x_message :: "(string \<Rightarrow> int list \<Rightarrow> string + string) \<Rightarrow> 'b bench message" where
  "x_message fmt = Some (\<lambda>u. let (v, u') = read_x u in (fmt ''Some sophisticated log [{}].'' [v], u'))"

definition xy_message :: "(string \<Rightarrow> int list \<Rightarrow> string + string) \<Rightarrow> 'b bench message" where
  "xy_message fmt = Some (\<lambda>u. let (v, u1) = read_x u; (v', u2) = read_y u1
     in (fmt ''Some sophisticated log [{}, {}].'' [v, v'], u2))"

text \<open>\<^verbatim>\<open>while (state.KeepRunning()) { ... }\<close>; \<open>None\<close> if it never ends.\<close>

partial_function (option) while_running ::
  "('b \<Rightarrow> bool \<times> 'b) \<Rightarrow> 'b bench stmt list \<Rightarrow> 'b bench log_world \<Rightarrow> 'b bench outcome option" where
  "while_running KeepRunning ss w =
     (let (b, st) = KeepRunning (state (env w)); w' = w\<lparr>env := (env w)\<lparr>state := st\<rparr>\<rparr>
      in if \<not> b then Some (Continues w')
         else case seq_all ss w' of
           Continues w'' \<Rightarrow> while_running KeepRunning ss w''
         | r \<Rightarrow> Some r)"

definition Benchmark_AgrpcCheck ::
  "'b bench config \<Rightarrow> (string \<Rightarrow> int list \<Rightarrow> string + string) \<Rightarrow> ('b \<Rightarrow> bool \<times> 'b) \<Rightarrow>
   'b bench log_world \<Rightarrow> 'b bench outcome option" where
  "Benchmark_AgrpcCheck cfg fmt KeepRunning = while_running KeepRunning
     (AGRPC_CHECK cfg ''logging_benchmark.cc'' 43 ''!x'' not_x None @
      AGRPC_CHECK cfg ''logging_benchmark.cc'' 44 ''!x'' not_x (x_message fmt))"

definition Benchmark_AgrpcCheckOp ::
  "'b bench config \<Rightarrow> (string \<Rightarrow> int list \<Rightarrow> string + string) \<Rightarrow> (int \<Rightarrow> int \<Rightarrow> string \<Rightarrow> string) \<Rightarrow>
   ('b \<Rightarrow> bool \<times> 'b) \<Rightarrow> 'b bench log_world \<Rightarrow> 'b bench outcome option" where
  "Benchmark_AgrpcCheckOp cfg fmt mk KeepRunning = while_running KeepRunning
     (AGRPC_CHECK_LE cfg ''logging_benchmark.cc'' 61 mk (''x'', read_x) (''y'', read_y) None @
      AGRPC_CHECK_LE cfg ''logging_benchmark.cc'' 62 mk (''x'', read_x) (''y'', read_y) (xy_message fmt))"

text \<open>
  The same loops with the checks of glog, which are not in the repository: \<open>CHECK\<close> and \<open>CHECK_LE\<close>
  take what the macros are given, and what is streamed into them. An \<^verbatim>\<open>int\<close> is streamed in decimal.
\<close>

definition put_int :: "int \<Rightarrow> string" where
  "put_int i = (if i < 0 then ''-'' @ decimal (nat (- i)) else decimal (nat i))"

definition x_stream :: "('b bench, string) expr" where
  "x_stream u = (let (v, u') = read_x u in (''Some sophisticated log ['' @ put_int v @ ''].'', u'))"

definition xy_stream :: "('b bench, string) expr" where
  "xy_stream u = (let (v, u1) = read_x u; (v', u2) = read_y u1
     in (''Some sophisticated log ['' @ put_int v @ '', '' @ put_int v' @ ''].'', u2))"

definition Benchmark_Check ::
  "(('b bench, bool) expr \<Rightarrow> ('b bench, string) expr option \<Rightarrow> 'b bench stmt list) \<Rightarrow>
   ('b \<Rightarrow> bool \<times> 'b) \<Rightarrow> 'b bench log_world \<Rightarrow> 'b bench outcome option" where
  "Benchmark_Check CHECK KeepRunning = while_running KeepRunning (CHECK not_x None @ CHECK not_x (Some x_stream))"

definition Benchmark_CheckOp ::
  "(('b bench, int) expr \<Rightarrow> ('b bench, int) expr \<Rightarrow> ('b bench, string) expr option \<Rightarrow> 'b bench stmt list) \<Rightarrow>
   ('b \<Rightarrow> bool \<times> 'b) \<Rightarrow> 'b bench log_world \<Rightarrow> 'b bench outcome option" where
  "Benchmark_CheckOp CHECK_LE KeepRunning = while_running KeepRunning
     (CHECK_LE read_x read_y None @ CHECK_LE read_x read_y (Some xy_stream))"

text \<open>\<^verbatim>\<open>KeepRunning\<close> returns true \<open>n\<close> times and then false, as the benchmark library documents.\<close>

fun iterations :: "('b \<Rightarrow> bool \<times> 'b) \<Rightarrow> 'b \<Rightarrow> nat \<Rightarrow> bool" where
  "iterations KeepRunning st 0 \<longleftrightarrow> \<not> fst (KeepRunning st)"
| "iterations KeepRunning st (Suc n) \<longleftrightarrow>
     fst (KeepRunning st) \<and> iterations KeepRunning (snd (KeepRunning st)) n"

fun state_after :: "('b \<Rightarrow> bool \<times> 'b) \<Rightarrow> 'b \<Rightarrow> nat \<Rightarrow> 'b" where
  "state_after KeepRunning st 0 = snd (KeepRunning st)"
| "state_after KeepRunning st (Suc n) = state_after KeepRunning (snd (KeepRunning st)) n"

text \<open>
  The contract of a check of the benchmarks, for the macros of this repository and for those of
  glog: if its condition holds nothing happens, and no message is made; otherwise the process ends.
\<close>

locale check_statement =
  fixes ss :: "'b bench stmt list" and cond :: "int \<Rightarrow> int \<Rightarrow> bool"
  assumes quiet: "cond (x (env w)) (y (env w)) \<Longrightarrow> seq_all ss w = Continues w"
    and ends: "\<not> cond (x (env w)) (y (env w)) \<Longrightarrow> seq_all ss w \<noteq> Continues w'"
begin

lemma benchmark_passes:
  "iterations KeepRunning (state (env w)) n \<Longrightarrow> cond (x (env w)) (y (env w)) \<Longrightarrow>
   while_running KeepRunning ss w =
     Some (Continues (w\<lparr>env := (env w)\<lparr>state := state_after KeepRunning (state (env w)) n\<rparr>\<rparr>))"
proof (induction n arbitrary: w)
  case 0
  then show ?case by (subst while_running.simps) (auto simp: case_prod_beta Let_def)
next
  case (Suc n)
  let ?w = "w\<lparr>env := (env w)\<lparr>state := snd (KeepRunning (state (env w)))\<rparr>\<rparr>"
  have "seq_all ss ?w = Continues ?w" using Suc.prems(2) by (intro quiet) simp
  moreover have "while_running KeepRunning ss ?w =
      Some (Continues (?w\<lparr>env := (env ?w)\<lparr>state := state_after KeepRunning (state (env ?w)) n\<rparr>\<rparr>))"
    using Suc.prems by (intro Suc.IH) simp_all
  ultimately show ?case
    using Suc.prems(1) by (subst while_running.simps) (auto simp: case_prod_beta Let_def)
qed

lemma benchmark_dies:
  assumes "iterations KeepRunning (state (env w)) (Suc n)" and "\<not> cond (x (env w)) (y (env w))"
  shows "\<exists>r. while_running KeepRunning ss w = Some r \<and> (\<forall>w'. r \<noteq> Continues w')"
proof -
  let ?w = "w\<lparr>env := (env w)\<lparr>state := snd (KeepRunning (state (env w)))\<rparr>\<rparr>"
  have "seq_all ss ?w \<noteq> Continues w'" for w' using assms(2) by (intro ends) simp
  then show ?thesis
    using assms(1) by (subst while_running.simps) (auto simp: case_prod_beta Let_def split: outcome.split)
qed

lemma benchmark_ends:
  assumes "iterations KeepRunning (state (env w)) n"
  shows "if n = 0 \<or> cond (x (env w)) (y (env w))
    then while_running KeepRunning ss w =
     Some (Continues (w\<lparr>env := (env w)\<lparr>state := state_after KeepRunning (state (env w)) n\<rparr>\<rparr>))
    else \<exists>r. while_running KeepRunning ss w = Some r \<and> (\<forall>w'. r \<noteq> Continues w')"
proof (cases n)
  case 0
  with assms show ?thesis by (subst while_running.simps) (auto simp: case_prod_beta Let_def)
next
  case (Suc k)
  then show ?thesis using benchmark_passes [OF assms] benchmark_dies [of KeepRunning w k] assms by simp
qed

end

lemma check_statement_append:
  "check_statement a cond \<Longrightarrow> check_statement b cond \<Longrightarrow> check_statement (a @ b) cond"
  by (auto simp: check_statement_def seq_append split: outcome.split)

interpretation agrpc_check: check_statement "AGRPC_CHECK cfg file line txt not_x m" "\<lambda>a b. a = 0"
  for cfg "file" line txt m
  by unfold_locales (simp_all add: AGRPC_CHECK_def not_x_def read_x_def)

interpretation agrpc_check_le:
  check_statement "AGRPC_CHECK_LE cfg file line mk (tx, read_x) (ty, read_y) m" "(\<le>)"
  for cfg "file" line mk tx ty m
  by unfold_locales (simp_all add: AGRPC_CHECK_LE_def AGRPC_CHECK_OP_def read_x_def read_y_def)

lemmas both_checks = check_statement_append
  [OF agrpc_check.check_statement_axioms agrpc_check.check_statement_axioms]
  check_statement_append [OF agrpc_check_le.check_statement_axioms agrpc_check_le.check_statement_axioms]

text \<open>
  The benchmarks of the checks end: with \<^verbatim>\<open>x\<close> and \<^verbatim>\<open>y\<close> as they are initialised, \<^verbatim>\<open>Benchmark_AgrpcCheck\<close> and
  \<^verbatim>\<open>Benchmark_AgrpcCheckOp\<close> run all their iterations, pass every check, write no line and format no
  message; with other values, for which a check fails, the first iteration ends the process.
\<close>
theorem check_benchmarks_end:
  assumes "iterations KeepRunning (state (env w)) n"
  shows "(if n = 0 \<or> x (env w) = 0
      then Benchmark_AgrpcCheck cfg fmt KeepRunning w =
        Some (Continues (w\<lparr>env := (env w)\<lparr>state := state_after KeepRunning (state (env w)) n\<rparr>\<rparr>))
      else \<exists>r. Benchmark_AgrpcCheck cfg fmt KeepRunning w = Some r \<and> (\<forall>w'. r \<noteq> Continues w')) \<and>
    (if n = 0 \<or> x (env w) \<le> y (env w)
      then Benchmark_AgrpcCheckOp cfg fmt mk KeepRunning w =
        Some (Continues (w\<lparr>env := (env w)\<lparr>state := state_after KeepRunning (state (env w)) n\<rparr>\<rparr>))
      else \<exists>r. Benchmark_AgrpcCheckOp cfg fmt mk KeepRunning w = Some r \<and> (\<forall>w'. r \<noteq> Continues w'))"
  unfolding Benchmark_AgrpcCheck_def Benchmark_AgrpcCheckOp_def
  using both_checks(1) [THEN check_statement.benchmark_ends, OF assms]
    both_checks(2) [THEN check_statement.benchmark_ends, OF assms] by (intro conjI)

theorem check_benchmarks_end_witness:
  "Benchmark_AgrpcCheck \<lparr>providers = [], ndebug = True, vlog_is_on = (\<lambda>n. False), errno_text = no_text\<rparr>
     (\<lambda>f vs. Inr f) (\<lambda>k. (0 < k, k - 1)) \<lparr>env = \<lparr>state = 3 :: nat, x = 0, y = 0\<rparr>, written = []\<rparr> =
   Some (Continues \<lparr>env = \<lparr>state = 0, x = 0, y = 0\<rparr>, written = []\<rparr>)"
  using check_benchmarks_end [of "\<lambda>k. (0 < k, k - 1)"
      "\<lparr>env = \<lparr>state = 3 :: nat, x = 0, y = 0\<rparr>, written = []\<rparr>" 3]
  by (simp add: numeral_eq_Suc)

lemma same_benchmark:
  assumes "check_statement a cond" and "check_statement b cond" and "iterations KeepRunning (state (env w)) n"
  shows "while_running KeepRunning a w = Some (Continues w') \<longleftrightarrow> while_running KeepRunning b w = Some (Continues w')"
  using check_statement.benchmark_ends [OF assms(1,3)] check_statement.benchmark_ends [OF assms(2,3)]
  by (auto split: if_split_asm)

text \<open>
  Both pairs of benchmarks measure the same thing: whatever check of glog keeps the contract, the
  loop over it passes, or dies, exactly when the loop over the macro of this repository does, and
  leaves the same state.
\<close>
theorem benchmarks_compare:
  assumes "iterations KeepRunning (state (env w)) n"
    and "\<And>m. check_statement (CHECK not_x m) (\<lambda>a b. a = 0)"
    and "\<And>m. check_statement (CHECK_LE read_x read_y m) (\<le>)"
  shows "(Benchmark_Check CHECK KeepRunning w = Some (Continues w') \<longleftrightarrow>
      Benchmark_AgrpcCheck cfg fmt KeepRunning w = Some (Continues w')) \<and>
    (Benchmark_CheckOp CHECK_LE KeepRunning w = Some (Continues w') \<longleftrightarrow>
      Benchmark_AgrpcCheckOp cfg fmt mk KeepRunning w = Some (Continues w'))"
  unfolding Benchmark_AgrpcCheck_def Benchmark_AgrpcCheckOp_def Benchmark_Check_def Benchmark_CheckOp_def
  by (intro conjI same_benchmark [OF check_statement_append [OF assms(2,2)] both_checks(1) assms(1)]
      same_benchmark [OF check_statement_append [OF assms(3,3)] both_checks(2) assms(1)])

text \<open>A check as glog documents it: the message is made, and written as a fatal line, on failure only.\<close>

definition glog_check :: "('b bench, bool) expr \<Rightarrow> ('b bench, string) expr option \<Rightarrow> 'b bench stmt list" where
  "glog_check c m = [\<lambda>w. let (b, u) = c (env w); w1 = w\<lparr>env := u\<rparr>
     in if b then Continues w1
        else case m of None \<Rightarrow> emit FATAL ''Check failed'' w1
          | Some f \<Rightarrow> (let (text, u2) = f u in emit FATAL text (w1\<lparr>env := u2\<rparr>))]"

definition at_most ::
  "('b bench, int) expr \<Rightarrow> ('b bench, int) expr \<Rightarrow> ('b bench, bool) expr" where
  "at_most a b u = (let (va, u1) = a u; (vb, u2) = b u1 in (va \<le> vb, u2))"

theorem benchmarks_compare_witness:
  "Benchmark_Check glog_check (\<lambda>k. (0 < k, k - 1)) \<lparr>env = \<lparr>state = 3 :: nat, x = 0, y = 0\<rparr>, written = []\<rparr> =
   Some (Continues \<lparr>env = \<lparr>state = 0, x = 0, y = 0\<rparr>, written = []\<rparr>)"
proof -
  let ?w = "\<lparr>env = \<lparr>state = 3 :: nat, x = 0, y = 0\<rparr>, written = []\<rparr>"
  let ?cfg = "\<lparr>providers = [], ndebug = True, vlog_is_on = (\<lambda>n. False), errno_text = no_text\<rparr> :: nat bench config"
  have c: "check_statement (glog_check not_x m) (\<lambda>a b. a = 0)" for m
    by unfold_locales (auto simp: glog_check_def not_x_def read_x_def emit_def Let_def case_prod_beta split: option.split)
  have le: "check_statement (glog_check (at_most read_x read_y) m) (\<le>)" for m
    by unfold_locales
      (auto simp: glog_check_def at_most_def read_x_def read_y_def emit_def Let_def case_prod_beta split: option.split)
  have it: "iterations (\<lambda>k. (0 < k, k - 1)) (state (env ?w)) 3" by (simp add: numeral_eq_Suc)
  have "Benchmark_AgrpcCheck ?cfg (\<lambda>f vs. Inr f) (\<lambda>k. (0 < k, k - 1)) ?w =
      Some (Continues \<lparr>env = \<lparr>state = 0, x = 0, y = 0\<rparr>, written = []\<rparr>)"
    by (subst Benchmark_AgrpcCheck_def, subst check_statement.benchmark_passes [OF both_checks(1) it])
      (simp_all add: numeral_eq_Suc)
  then show ?thesis
    using benchmarks_compare [where CHECK = glog_check and CHECK_LE = "\<lambda>a b. glog_check (at_most a b)" and cfg = ?cfg
        and fmt = "\<lambda>f vs. Inr f", OF it c le] by blast
qed

end
