(* ===== verification/Rpc_Types.thy ===== *)
theory Rpc_Types
  imports Rpcs
begin

text \<open>
  The pointers to member functions that \<^verbatim>\<open>rpcs.h\<close> names, with their parameter lists: what the lambda
  of \<^verbatim>\<open>AsyncRequest\<close> may call, and what no customisation point can.
\<close>

section \<open>Member functions\<close>

datatype param =
    Pointer ty
  | ConstReference ty
  | CompletionQueuePointer
  | ServerCompletionQueuePointer
  | VoidPointer

record member_function =
  class_of :: nat
  result :: "ty option"       \<comment> \<open>\<open>None\<close> is \<^verbatim>\<open>void\<close>\<close>
  params :: "param list"

fun member_type :: "ty \<Rightarrow> member_function option" where
  "member_type (ServerMultiArgRequestT c request responder) = Some \<lparr>class_of = c, result = None,
     params = [Pointer ServerContextT, Pointer (MessageT request), Pointer responder,
       CompletionQueuePointer, ServerCompletionQueuePointer, VoidPointer]\<rparr>"
| "member_type (ServerSingleArgRequestT c responder) = Some \<lparr>class_of = c, result = None,
     params = [Pointer ServerContextT, Pointer responder,
       CompletionQueuePointer, ServerCompletionQueuePointer, VoidPointer]\<rparr>"
| "member_type (ClientUnaryRequestT c request reader) = Some \<lparr>class_of = c, result = Some reader,
     params = [Pointer ClientContextT, ConstReference (MessageT request), CompletionQueuePointer]\<rparr>"
| "member_type (ClientServerStreamingRequestT c request reader) = Some \<lparr>class_of = c, result = Some reader,
     params = [Pointer ClientContextT, ConstReference (MessageT request), CompletionQueuePointer, VoidPointer]\<rparr>"
| "member_type (ClientSideStreamingRequestT c writer response) = Some \<lparr>class_of = c, result = Some writer,
     params = [Pointer ClientContextT, Pointer (MessageT response), CompletionQueuePointer, VoidPointer]\<rparr>"
| "member_type (ClientBidirectionalStreamingRequestT c reader_writer) = Some \<lparr>class_of = c,
     result = Some reader_writer, params = [Pointer ClientContextT, CompletionQueuePointer, VoidPointer]\<rparr>"
| "member_type _ = None"

definition client_request :: "ty \<Rightarrow> bool" where
  "client_request t \<longleftrightarrow>
     (case member_type t of None \<Rightarrow> False | Some m \<Rightarrow> hd (params m) = Pointer ClientContextT)"

section \<open>The call in the lambda\<close>

text \<open>
  \<^verbatim>\<open>(service.*rpc)(&server_context, ..., &responder, cq, cq, tag)\<close>: the addresses of the parameters
  after the service, the context's server queue twice, and the tag.
\<close>

definition request_arguments :: "arg list \<Rightarrow> param list" where
  "request_arguments args = map (\<lambda>a. Pointer (ty_of a)) (drop 2 args) @
     [ServerCompletionQueuePointer, ServerCompletionQueuePointer, VoidPointer]"

text \<open>An argument converts to a parameter of its own type, and a server queue to its base class.\<close>

fun converts :: "param \<Rightarrow> param \<Rightarrow> bool" where
  "converts ServerCompletionQueuePointer CompletionQueuePointer \<longleftrightarrow> True"
| "converts a b \<longleftrightarrow> a = b"

lemma converts_refl [simp]: "converts a a"
  by (cases a) simp_all

lemma mutable_const: "mutable is args \<Longrightarrow> i \<in> set is \<Longrightarrow> \<not> is_const (args ! i)"
  by (simp add: mutable_def list_all_iff)

lemma map_eq_NilD: "map f xs = [] \<Longrightarrow> xs = []"
  by simp

text \<open>
  C30. The call in the lambda of \<^verbatim>\<open>AsyncRequest\<close> type-checks: whenever the customisation point accepts its
  arguments, the first is a pointer to a \<^verbatim>\<open>void\<close> member function of the service's class, the sender's
  operands are that pointer and the objects after the service, none of which is const, and the
  arguments of the call convert to the parameters of the member function, one by one.
\<close>
theorem request_call_type_checks:
  assumes "cpo_call AsyncRequest args = Some s"
  shows "\<exists>m. member_type (ty_of (args ! 0)) = Some m \<and> result m = None \<and>
    ty_of (args ! 1) = ServiceT (class_of m) \<and> snd_object s = ByRef (obj (args ! 1)) \<and>
    snd_operands s = ByCopy (obj (args ! 0)) # map (\<lambda>a. ByRef (obj a)) (drop 2 args) \<and>
    list_all (\<lambda>a. \<not> is_const a) (drop 1 args) \<and> list_all2 converts (request_arguments args) (params m)"
proof -
  have "tag_invoke AsyncRequest args = Some s" by (rule cpo_call_sound [OF assms])
  then show ?thesis
    by (auto simp: tag_invoke_Some_iff invoke_defs overload_def sig_shape mutable_def request_arguments_def
        numeral_eq_Suc split: if_split_asm dest!: map_eq_ConsD)
qed

theorem request_call_type_checks_witness:
  "\<exists>s m. cpo_call AsyncRequest
       [Arg (ServerSingleArgRequestT 3 (ServerAsyncReaderWriterT 1 2)) True 20, Arg (ServiceT 3) False 21,
        Arg ServerContextT False 22, Arg (ServerAsyncReaderWriterT 1 2) False 23] = Some s \<and>
     member_type (ServerSingleArgRequestT 3 (ServerAsyncReaderWriterT 1 2)) = Some m \<and> class_of m = 3 \<and>
     length (params m) = 5 \<and> length (snd_operands s) = 3"
proof -
  let ?args = "[Arg (ServerSingleArgRequestT 3 (ServerAsyncReaderWriterT 1 2)) True 20, Arg (ServiceT 3) False 21,
        Arg ServerContextT False 22, Arg (ServerAsyncReaderWriterT 1 2) False 23]"
  have "cpo_call AsyncRequest ?args \<noteq> None" by code_simp
  then obtain s where s: "cpo_call AsyncRequest ?args = Some s" by blast
  from request_call_type_checks [OF s] s show ?thesis by auto
qed

text \<open>
  The requests of a client's stub cannot be made through a customisation point: none of them accepts
  a pointer to such a member function as its first argument.
\<close>

theorem client_requests_not_accepted:
  assumes "client_request (ty_of a)" and "c \<noteq> AsyncSendInitialMetadata"
  shows "tag_invoke c (a # args) = None \<and> cpo_call c (a # args) = None"
proof -
  have "tag_invoke c (a # args) \<noteq> Some s" for s
    using assms by (cases c)
      (auto simp: tag_invoke_Some_iff invoke_defs overload_def sig_shape client_request_def
        split: if_split_asm)
  then have "tag_invoke c (a # args) = None" by (meson not_Some_eq)
  then show ?thesis using cpo_call_sound by (metis not_Some_eq)
qed

theorem client_requests_not_accepted_witness:
  "tag_invoke AsyncRequest [Arg (ClientUnaryRequestT 3 1 (ClientAsyncResponseReaderT 2)) True 20, Arg (ServiceT 3) False 21] = None"
proof -
  have "client_request (ty_of (Arg (ClientUnaryRequestT 3 1 (ClientAsyncResponseReaderT 2)) True 20))"
    by (simp add: client_request_def)
  from client_requests_not_accepted [OF this] show ?thesis by simp
qed

end
