(* ===== verification/Sender_Contract.thy ===== *)
theory Sender_Contract
  imports Context_Properties
begin

text \<open>
  The senders as the rest of a program sees them: what \<^verbatim>\<open>AsyncRPCSender\<close> declares about its
  completion signals in \<^verbatim>\<open>grpc_context.h\<close>, and what its operations really send.
\<close>

section \<open>What the sender declares\<close>

text \<open>The ways an operation can complete, with the types that are sent.\<close>

datatype completion = Value "sent list" | Failure sent | Done

record sender_traits =
  value_types :: "sent list list"
  error_types :: "sent list"
  sends_done :: bool

definition AsyncRPCSender_traits :: sender_traits where
  "AsyncRPCSender_traits =
     \<lparr>value_types = [[Bool]], error_types = [Error_code, Exception_ptr], sends_done = True\<rparr>"

fun declares :: "sender_traits \<Rightarrow> completion \<Rightarrow> bool" where
  "declares T (Value ts) \<longleftrightarrow> ts \<in> set (value_types T)"
| "declares T (Failure t) \<longleftrightarrow> t \<in> set (error_types T)"
| "declares T Done \<longleftrightarrow> sends_done T"

text \<open>The signal behind an observation.\<close>

fun completion_of :: "observation \<Rightarrow> completion option" where
  "completion_of (Acquired p flag) = None"
| "completion_of (Set_value p flag) = Some (Value [Bool])"
| "completion_of (Set_error p e) = Some (Failure e)"
| "completion_of (Set_done p) = Some Done"

definition sent_signals :: "observation list \<Rightarrow> completion list" where
  "sent_signals h = List.map_filter completion_of h"

lemma sent_signals_simps [simp]:
  "sent_signals [] = []" "sent_signals (h @ h') = sent_signals h @ sent_signals h'"
  "sent_signals (ob # h) = (case completion_of ob of None \<Rightarrow> sent_signals h | Some c \<Rightarrow> c # sent_signals h)"
  by (simp_all add: sent_signals_def List.map_filter_def split: option.split)

section \<open>Errors follow values\<close>

text \<open>A \<^verbatim>\<open>set_error\<close> comes right after the \<^verbatim>\<open>set_value\<close> of the same operation.\<close>

definition errors_follow :: "observation list \<Rightarrow> bool" where
  "errors_follow h \<longleftrightarrow>
     (\<forall>i p e. i < length h \<and> h ! i = Set_error p e \<longrightarrow> 0 < i \<and> (\<exists>flag. h ! (i - 1) = Set_value p flag))"

lemma errors_follow_simps [simp]:
  "errors_follow []" "errors_follow [Acquired p flag]" "errors_follow [Set_value p flag]"
  "errors_follow [Set_value p flag, Set_error p e]"
  by (auto simp: errors_follow_def nth_Cons split: nat.split_asm)

lemma errors_follow_append:
  assumes "errors_follow h" and "errors_follow h'"
  shows "errors_follow (h @ h')"
  unfolding errors_follow_def
proof (intro allI impI)
  fix i p e assume i: "i < length (h @ h') \<and> (h @ h') ! i = Set_error p e"
  show "0 < i \<and> (\<exists>flag. (h @ h') ! (i - 1) = Set_value p flag)"
  proof (cases "i < length h")
    case True
    then show ?thesis using i assms(1) by (auto simp: errors_follow_def nth_append)
  next
    case False
    then have "i - length h < length h'" "h' ! (i - length h) = Set_error p e"
      using i by (auto simp: nth_append)
    then have "0 < i - length h" "\<exists>flag. h' ! (i - length h - 1) = Set_value p flag"
      using assms(2) unfolding errors_follow_def by blast+
    then show ?thesis by (auto simp: nth_append diff_right_commute)
  qed
qed

text \<open>Whether some receiver lets an exception out of its \<^verbatim>\<open>set_value\<close> and does not say \<^verbatim>\<open>noexcept\<close>.\<close>

definition may_throw :: "('q, 'rq, 'cq, 'r, 'u) ext \<Rightarrow> bool" where
  "may_throw E \<longleftrightarrow> (\<exists>r flag u. \<not> rcv_noexcept E r \<and> fst (snd (rcv_set_value E r flag u)))"

text \<open>What is sent: the flag, and the exception of a receiver that throws.\<close>

definition good_signals :: "('q, 'rq, 'cq, 'r, 'u) ext \<Rightarrow> observation list \<Rightarrow> bool" where
  "good_signals E h \<longleftrightarrow> errors_follow h \<and> set (sent_signals h) \<subseteq> {Value [Bool], Failure Exception_ptr} \<and>
     (Failure Exception_ptr \<in> set (sent_signals h) \<longrightarrow> may_throw E)"

lemma good_signals_simps [simp]:
  "good_signals E []" "good_signals E [Acquired p flag]" "good_signals E [Set_value p flag]"
  by (simp_all add: good_signals_def)

lemma good_signals_append: "good_signals E h \<Longrightarrow> good_signals E h' \<Longrightarrow> good_signals E (h @ h')"
  by (auto simp: good_signals_def errors_follow_append)

section \<open>What the operations send\<close>

lemma StartAsyncRPC_history: "StartAsyncRPC E t p w = Inr w' \<Longrightarrow> history w' = history w"
  by (auto simp: StartAsyncRPC_def split: if_split_asm option.split_asm op_body.split_asm)

lemma ScheduleRemote_history: "ScheduleRemote E p w = Inr w' \<Longrightarrow> history w' = history w"
  by (auto simp: ScheduleRemote_def remote_enqueue_def SignalRemoteQueue_def Let_def
      split: prod.split_asm if_split_asm option.split_asm)

lemma mark_scheduled_history: "mark_scheduled p w = Inr w' \<Longrightarrow> history w' = history w"
  by (auto simp: mark_scheduled_def split: option.split_asm)

lemma place_history: "place p op w = Inr w' \<Longrightarrow> history w' = history w"
  by (auto simp: place_def split: if_split_asm)

lemma perform_history: "perform E t a w = Inr w' \<Longrightarrow> history w' = history w"
  by (cases a)
    (auto simp: start_operation_def on_stop_requested_def ScheduleImpl_def ScheduleLocal_def ShutDown_def
      split: if_split_asm option.split_asm
      dest!: place_history StartAsyncRPC_history ScheduleRemote_history mark_scheduled_history)

lemma perform_all_history: "perform_all E t as w = Inr w' \<Longrightarrow> history w' = history w"
  by (induction as arbitrary: w) (auto dest: perform_history)

text \<open>
  \<^verbatim>\<open>OnRequestComplete\<close> sends one value, and then an error exactly when the receiver's \<^verbatim>\<open>set_value\<close>
  ended in an exception; it never returns when that was declared not to happen.
\<close>

lemma complete_signals:
  assumes "complete E t p r w = Inr w'"
  shows "history w' = history w @ (if fst (snd (rcv_set_value E r (ok (event w)) (client w)))
      then [Set_value p (ok (event w)), Set_error p Exception_ptr] else [Set_value p (ok (event w))]) \<and>
    (fst (snd (rcv_set_value E r (ok (event w)) (client w))) \<longrightarrow> \<not> rcv_noexcept E r)"
proof -
  obtain as threw u where v: "rcv_set_value E r (ok (event w)) (client w) = (as, threw, u)"
    by (cases "rcv_set_value E r (ok (event w)) (client w)") auto
  show ?thesis
    using assms
    by (auto simp: complete_def v Let_def signal_error_def release_def case_prod_beta split: if_split_asm
        dest!: perform_all_history)
qed

lemma execute_op_signals:
  assumes "execute_op E t p w = Inr w'"
  shows "\<exists>h. history w' = history w @ h \<and> good_signals E h"
proof -
  obtain op f where op: "heap w p = Some op" "execute op = Some f"
    using assms by (auto simp: execute_op_def split: option.split_asm)
  have silent: "history w' = history w \<Longrightarrow> ?thesis" by (intro exI [of _ "[]"]) simp
  show ?thesis
  proof (cases "body op")
    case (StopOperation b)
    then show ?thesis using assms op silent by (cases f) (auto simp: execute_op_def)
  next
    case (AsyncOperation s r)
    then consider "StartAsyncRPC E t p w = Inr w'" | "complete E t p r w = Inr w'"
      using assms op by (cases f) (simp_all add: execute_op_def)
    then show ?thesis
    proof cases
      case 1
      then show ?thesis using silent StartAsyncRPC_history by blast
    next
      case 2
      note sent = complete_signals [OF 2]
      then show ?thesis
        by (intro exI [of _ "if fst (snd (rcv_set_value E r (ok (event w)) (client w)))
            then [Set_value p (ok (event w)), Set_error p Exception_ptr] else [Set_value p (ok (event w))]"])
          (auto simp: good_signals_def may_throw_def)
    qed
  qed
qed

lemma check_remote_history: "history (check_remote_queue E w) = history w"
  by (simp add: check_remote_queue_def TryScheduleRemoteQueuedItems_def ScheduleLocal_queue_def Let_def
      split: prod.split)

lemma Acquire_signals:
  "AcquireCompletionQueueItems E w = Some (b, w') \<Longrightarrow> \<exists>h. history w' = history w @ h \<and> good_signals E h"
  by (auto simp: AcquireCompletionQueueItems_def ScheduleLocal_def Let_def
      split: option.split_asm next_result.split_asm prod.split_asm intro: exI [of _ "[]"])

lemma start_from_history: "start_from E i p sd r s = Inr s' \<Longrightarrow> history (wld s') = history (wld s)"
  by (auto simp: start_from_def enqueue_from_def remote_enqueue_def Let_def split: prod.split_asm
      dest!: place_history mark_scheduled_history)

lemma loop_step_signals:
  assumes "loop_step E s s'"
  shows "\<exists>h. history (wld s') = history (wld s) @ h \<and> good_signals E h"
proof -
  have silent: "history (wld s') = history (wld s) \<Longrightarrow> ?thesis" by (intro exI [of _ "[]"]) simp
  from assms show ?thesis
  proof cases
    case (execute_item q p q' w')
    then show ?thesis using execute_op_signals by simp
  next
    case (acquire w')
    then show ?thesis using Acquire_signals by simp
  next
    case (drained w')
    then show ?thesis using Acquire_signals by fastforce
  qed (rule silent; auto simp: enqueue_from_def remote_enqueue_def Let_def SignalRemoteQueue_def ShutDown_def
      begin_run_def enter_context_def check_remote_history split: prod.split_asm option.split_asm
      dest!: start_from_history place_history)+
qed

interpretation signals: inductive_invariant "start_sys E" "loop_step E" "\<lambda>s. good_signals E (history (wld s))"
  for E :: "('q, 'rq, 'cq, 'r, 'u) ext"
proof unfold_locales
  fix s :: "('q, 'rq, 'cq, 'r, 'u) sys"
  assume "start_sys E s"
  then show "good_signals E (history (wld s))"
    by (auto simp: start_sys_def new_context_def GrpcContext_new_def fresh_sys_def dest!: start_from_history)
next
  fix s s' :: "('q, 'rq, 'cq, 'r, 'u) sys"
  assume "loop_step E s s'" "good_signals E (history (wld s))"
  then show "good_signals E (history (wld s'))"
    using loop_step_signals good_signals_append by metis
qed

text \<open>
  C3. The signals of \<^verbatim>\<open>AsyncRPCSender\<close>: in every reachable state, what was ever sent to receivers is \<^verbatim>\<open>bool\<close>
  values and \<^verbatim>\<open>std::exception_ptr\<close> errors, both of which the sender declares. An error is only sent right
  after the value of the same operation, and only if some receiver's \<^verbatim>\<open>set_value\<close> can end in an
  exception without being \<^verbatim>\<open>noexcept\<close>, as the comment at \<^verbatim>\<open>error_types\<close> says. So the other signals that
  are declared, a \<^verbatim>\<open>std::error_code\<close> and done, never come.
\<close>
theorem signals_as_declared:
  assumes "reachable E s"
  shows "set (sent_signals (history (wld s))) \<subseteq>
      {c. declares AsyncRPCSender_traits c} - {Failure Error_code, Done} \<and>
    errors_follow (history (wld s)) \<and>
    (Failure Exception_ptr \<in> set (sent_signals (history (wld s))) \<longrightarrow> may_throw E)"
proof -
  have "good_signals E (history (wld s))"
    using signals.holds_from_start [of E] assms by (auto simp: reachable_def)
  then show ?thesis by (auto simp: good_signals_def AsyncRPCSender_traits_def)
qed

text \<open>A receiver that throws: its operation gets the flag and then the exception.\<close>

definition thrown :: "(op_ptr list, queue_view, ref_cq, script, nat) sys" where
  "thrown = the (demo_run (Script [] True) (served @ [Loop, Loop]))"

lemma thrown_values:
  "reachable ref_ext thrown" "history (wld thrown) = [Acquired 5 True, Set_value 5 True, Set_error 5 Exception_ptr]"
proof -
  have "demo_run (Script [] True) (served @ [Loop, Loop]) \<noteq> None" unfolding demo_defs by code_simp
  then show "reachable ref_ext thrown" unfolding thrown_def by (rule demo_the)
  show "history (wld thrown) = [Acquired 5 True, Set_value 5 True, Set_error 5 Exception_ptr]"
    unfolding thrown_def demo_defs by code_simp
qed

theorem signals_as_declared_witness:
  "sent_signals (history (wld thrown)) = [Value [Bool], Failure Exception_ptr] \<and> may_throw ref_ext"
  using signals_as_declared [OF thrown_values(1)] by (simp add: thrown_values(2))

end
