(* ===== verification/Examples.thy ===== *)
theory Examples
  imports Rpcs
begin

text \<open>
  The example programs. A server, and the client of \<^verbatim>\<open>helloworld\<close>, is a coroutine over the
  customisation points: it is suspended at one \<^verbatim>\<open>co_await\<close> at a time, and the completion's \<^verbatim>\<open>ok\<close>
  flag resumes it. The model keeps the place where it waits and gives what it does next. How such
  a coroutine runs on a context is the subject of \<^verbatim>\<open>Example_Runs\<close>. The streaming client is
  synchronous; its command line and its read loop are modelled, the calls of the generated stub
  are parameters.
\<close>

section \<open>Coroutines\<close>

text \<open>
  What a resumed coroutine does: start another call and wait at a place; have some effects and
  return; fail a check; or flow off the end of a coroutine whose promise wants a value, which C++
  leaves undefined.
\<close>

datatype effect = Logs string | Shuts_down

datatype 'p resumed = Call sender 'p | Return "effect list" | Check_fails | Undefined

datatype ended = Still_waiting | Returned | Check_failed | Went_undefined

text \<open>The calls a coroutine makes when its awaited calls complete with the given flags.\<close>

fun co_run :: "('p \<Rightarrow> bool \<Rightarrow> 'p resumed) \<Rightarrow> 'p \<Rightarrow> bool list \<Rightarrow> rpc_method list \<times> ended" where
  "co_run resume pt [] = ([], Still_waiting)"
| "co_run resume pt (ok # oks) =
     (case resume pt ok of
       Call s pt' \<Rightarrow> (let (ms, e) = co_run resume pt' oks in (snd_method s # ms, e))
     | Return es \<Rightarrow> ([], Returned)
     | Check_fails \<Rightarrow> ([], Check_failed)
     | Undefined \<Rightarrow> ([], Went_undefined))"

text \<open>A call site whose arguments decide its overload; one that does not compile is no sender.\<close>

definition site :: "cpo \<Rightarrow> arg list \<Rightarrow> sender" where
  "site c args = the (cpo_call c args)"

section \<open>The hello world server\<close>

text \<open>
  Objects: the member function pointer 0, the service 1, and the locals of one round of the loop:
  the server context 2, the request 3, the writer 4, the response 5 and the status 6. Type 10 is
  the greeter service, 11 the request message, 12 the reply.
\<close>

definition hello_request_args :: "arg list" where
  "hello_request_args =
     [Arg (ServerMultiArgRequestT 10 11 (ServerAsyncResponseWriterT 12)) True 0, Arg (ServiceT 10) False 1,
      Arg ServerContextT False 2, Arg (MessageT 11) False 3, Arg (ServerAsyncResponseWriterT 12) False 4]"

definition hello_finish_args :: "arg list" where
  "hello_finish_args =
     [Arg (ServerAsyncResponseWriterT 12) False 4, Arg (MessageT 12) False 5, Arg StatusT True 6]"

datatype hello_point = Hello_request | Hello_finish

text \<open>\<^verbatim>\<open>HandleRequest\<close> completes without suspending; the result of \<^verbatim>\<open>AsyncFinish\<close> is ignored.\<close>

definition HandleRequest :: "string \<Rightarrow> string" where
  "HandleRequest name = ''Hello '' @ name"

fun hello_server :: "hello_point \<Rightarrow> bool \<Rightarrow> hello_point resumed" where
  "hello_server Hello_request request_ok =
     (if \<not> request_ok then Return [] else Call (site AsyncFinish hello_finish_args) Hello_finish)"
| "hello_server Hello_finish finish_ok = Call (site AsyncRequest hello_request_args) Hello_request"

section \<open>The hello world client\<close>

text \<open>
  Objects: the reader 7, the response 5 and the status 6. \<open>reply\<close> is the message that the
  response holds when the call has finished.
\<close>

definition client_finish_args :: "arg list" where
  "client_finish_args =
     [Arg (ClientAsyncResponseReaderT 12) False 7, Arg (MessageT 12) False 5, Arg StatusT False 6]"

datatype client_point = Client_finish

fun hello_client :: "string \<Rightarrow> client_point \<Rightarrow> bool \<Rightarrow> client_point resumed" where
  "hello_client reply Client_finish finished =
     (if \<not> finished then Check_fails else Return [Logs (''Received: '' @ reply), Shuts_down])"

section \<open>The streaming server\<close>

definition stream_request_args :: "arg list" where
  "stream_request_args =
     [Arg (ServerMultiArgRequestT 20 11 (ServerAsyncWriterT 12)) True 0, Arg (ServiceT 20) False 1,
      Arg ServerContextT False 2, Arg (MessageT 11) False 3, Arg (ServerAsyncWriterT 12) False 4]"

definition stream_write_args :: "arg list" where
  "stream_write_args = [Arg (ServerAsyncWriterT 12) False 4, Arg (MessageT 12) False 5]"

definition stream_finish_args :: "arg list" where
  "stream_finish_args = [Arg (ServerAsyncWriterT 12) False 4, Arg StatusT True 6]"

datatype stream_point = Stream_request | Stream_first | Stream_second | Stream_finish

text \<open>
  \<^verbatim>\<open>HandleRequest\<close> awaits two writes. Its return type is \<^verbatim>\<open>task<HelloReply>\<close> and it has no
  \<^verbatim>\<open>co_return\<close>: when the second write has completed it flows off its end.
\<close>

fun HandleRequest_stream :: "stream_point \<Rightarrow> bool \<Rightarrow> stream_point resumed" where
  "HandleRequest_stream Stream_first write_ok = Call (site AsyncWrite stream_write_args) Stream_second"
| "HandleRequest_stream Stream_second write_ok = Undefined"
| "HandleRequest_stream _ ok = Return []"

fun stream_server :: "stream_point \<Rightarrow> bool \<Rightarrow> stream_point resumed" where
  "stream_server Stream_request request_ok =
     (if \<not> request_ok then Return [] else Call (site AsyncWrite stream_write_args) Stream_first)"
| "stream_server Stream_first write_ok = HandleRequest_stream Stream_first write_ok"
| "stream_server Stream_second write_ok =
     (case HandleRequest_stream Stream_second write_ok of
       Return es \<Rightarrow> Call (site AsyncFinish stream_finish_args) Stream_finish
     | r \<Rightarrow> r)"
| "stream_server Stream_finish finish_ok = Call (site AsyncRequest stream_request_args) Stream_request"

section \<open>Call sites\<close>

lemma sites_compile:
  "cpo_call AsyncRequest hello_request_args \<noteq> None" "cpo_call AsyncFinish hello_finish_args \<noteq> None"
  "cpo_call AsyncFinish client_finish_args \<noteq> None" "cpo_call AsyncRequest stream_request_args \<noteq> None"
  "cpo_call AsyncWrite stream_write_args \<noteq> None" "cpo_call AsyncFinish stream_finish_args \<noteq> None"
  by code_simp+

lemma site_methods [simp]:
  "snd_method (site AsyncRequest hello_request_args) = Request_method"
  "snd_method (site AsyncFinish hello_finish_args) = Finish_method"
  "snd_method (site AsyncFinish client_finish_args) = Finish_method"
  "snd_method (site AsyncRequest stream_request_args) = Request_method"
  "snd_method (site AsyncWrite stream_write_args) = Write_method"
  "snd_method (site AsyncFinish stream_finish_args) = Finish_method"
  unfolding site_def by code_simp+

lemma run_site:
  assumes "cpo_call c args \<noteq> None" and "c \<noteq> AsyncWriteAndFinish" and "c \<noteq> AsyncFinishWithError"
  shows "run_sender (site c args) ctx p = Inr (expected_call c args ctx p)"
proof -
  obtain s where s: "cpo_call c args = Some s" using assms(1) by (cases "cpo_call c args") auto
  with run_resolved [OF cpo_call_sound [OF s], of ctx p] assms(2,3) show ?thesis
    by (simp add: site_def)
qed

text \<open>
  Every asynchronous call of the examples compiles, and makes the expected call on its own objects:
  no sender reads a parameter that is gone.
\<close>

lemma example_calls:
  "run_sender (site AsyncRequest hello_request_args) ctx p = Inr (expected_call AsyncRequest hello_request_args ctx p)"
  "run_sender (site AsyncFinish hello_finish_args) ctx p = Inr (expected_call AsyncFinish hello_finish_args ctx p)"
  "run_sender (site AsyncFinish client_finish_args) ctx p = Inr (expected_call AsyncFinish client_finish_args ctx p)"
  "run_sender (site AsyncRequest stream_request_args) ctx p = Inr (expected_call AsyncRequest stream_request_args ctx p)"
  "run_sender (site AsyncWrite stream_write_args) ctx p = Inr (expected_call AsyncWrite stream_write_args ctx p)"
  "run_sender (site AsyncFinish stream_finish_args) ctx p = Inr (expected_call AsyncFinish stream_finish_args ctx p)"
  by (rule run_site; simp add: sites_compile)+

section \<open>What the servers do\<close>

text \<open>The flags of completed rounds: every request succeeds, the answers end in any way.\<close>

definition rounds :: "bool list \<Rightarrow> bool list" where
  "rounds fs = concat (map (\<lambda>f. [True, f]) fs)"

definition answered :: "bool list \<Rightarrow> rpc_method list" where
  "answered fs = concat (map (\<lambda>f. [Finish_method, Request_method]) fs)"

lemma rounds_simps [simp]:
  "rounds [] = []" "rounds (f # fs) = True # f # rounds fs"
  "answered [] = []" "answered (f # fs) = Finish_method # Request_method # answered fs"
  by (simp_all add: rounds_def answered_def)

lemma hello_server_rounds:
  "co_run hello_server Hello_request (rounds fs @ oks) =
     (let (ms, e) = co_run hello_server Hello_request oks in (answered fs @ ms, e))"
  by (induction fs) (simp_all add: Let_def split_def)

lemma rounds_exhaust:
  "\<exists>fs. oks = rounds fs \<or> oks = rounds fs @ [True] \<or> (\<exists>later. oks = rounds fs @ False # later)"
proof (induction oks rule: induct_list012)
  case (3 r f oks)
  then obtain fs where fs: "oks = rounds fs \<or> oks = rounds fs @ [True] \<or> (\<exists>later. oks = rounds fs @ False # later)"
    by blast
  show ?case
  proof (cases r)
    case True
    with fs show ?thesis by (intro exI [of _ "f # fs"]) simp
  qed (auto intro: exI [of _ "[]"])
qed (auto intro: exI [of _ "[]"])

text \<open>
  The hello world server answers every request it accepts exactly once, whatever becomes of the
  answer, and asks for the next one only then; it returns exactly when a request fails. These are
  all its executions: full rounds, then a request that waits, an answer that waits, or the end.
\<close>
theorem hello_server_protocol:
  "co_run hello_server Hello_request (rounds fs) = (answered fs, Still_waiting) \<and>
   co_run hello_server Hello_request (rounds fs @ [True]) = (answered fs @ [Finish_method], Still_waiting) \<and>
   co_run hello_server Hello_request (rounds fs @ False # later) = (answered fs, Returned) \<and>
   (\<exists>gs. oks = rounds gs \<or> oks = rounds gs @ [True] \<or> (\<exists>rest. oks = rounds gs @ False # rest))"
  using hello_server_rounds [of fs "[]"] rounds_exhaust [of oks] by (simp add: hello_server_rounds)

text \<open>
  The streaming server never finishes a stream: after an accepted request and two completed
  writes, whatever their flags, \<^verbatim>\<open>HandleRequest\<close> flows off its end, and in no execution is
  \<^verbatim>\<open>AsyncFinish\<close> called.
\<close>
theorem stream_server_never_finishes:
  "co_run stream_server Stream_request (True # a # b # oks) = ([Write_method, Write_method], Went_undefined) \<and>
   Finish_method \<notin> set (fst (co_run stream_server Stream_request oks))"
proof -
  have "Finish_method \<notin> set (fst (co_run stream_server Stream_request oks))"
  proof (cases oks)
    case (Cons r xs)
    then show ?thesis by (cases xs; cases "tl xs") auto
  qed simp
  then show ?thesis by simp
qed

section \<open>The command line of the streaming client\<close>

text \<open>\<^verbatim>\<open>std::string::find\<close>: the first position at which the pattern occurs.\<close>

fun find_sub :: "string \<Rightarrow> string \<Rightarrow> nat option" where
  "find_sub pat [] = (if pat = [] then Some 0 else None)"
| "find_sub pat (c # cs) =
     (if take (length pat) (c # cs) = pat then Some 0 else map_option Suc (find_sub pat cs))"

text \<open>\<^verbatim>\<open>operator[]\<close> of a \<^verbatim>\<open>std::string\<close>: one past the end is the null character.\<close>

definition char_at :: "string \<Rightarrow> nat \<Rightarrow> char" where
  "char_at s i = (if i < length s then s ! i else CHR 0x00)"

datatype target = Target string | Wrong_syntax | Unacceptable

definition client_target :: "string list \<Rightarrow> target" where
  "client_target argv =
     (case argv of
       prog # arg_val # others \<Rightarrow>
         (case find_sub ''--target'' arg_val of
           Some pos \<Rightarrow>
             (let start_pos = pos + length ''--target''
              in if char_at arg_val start_pos = CHR ''='' then Target (drop (start_pos + 1) arg_val)
                 else Wrong_syntax)
         | None \<Rightarrow> Unacceptable)
     | _ \<Rightarrow> Target ''localhost:50051'')"

lemma find_sub_Some: "find_sub pat xs = Some n \<Longrightarrow> \<exists>pre post. xs = pre @ pat @ post \<and> length pre = n"
proof (induction xs arbitrary: n)
  case (Cons c cs)
  show ?case
  proof (cases "take (length pat) (c # cs) = pat")
    case True
    then have "c # cs = pat @ drop (length pat) (c # cs)" by (metis append_take_drop_id)
    with True Cons.prems show ?thesis by (intro exI [of _ "[]"] exI [of _ "drop (length pat) (c # cs)"]) auto
  next
    case False
    then obtain m where "find_sub pat cs = Some m" "n = Suc m" using Cons.prems by auto
    with Cons.IH [of m] obtain pre post where "cs = pre @ pat @ post" "length pre = m" by blast
    then show ?thesis using \<open>n = Suc m\<close> by (intro exI [of _ "c # pre"] exI [of _ post]) simp
  qed
qed (simp split: if_split_asm)

text \<open>
  Which command lines the streaming client accepts: its first argument must contain
  \<^verbatim>\<open>--target\<close> followed by an equals sign at the first occurrence, and what follows is the target.
  Text in front of it is accepted too and ignored, and so are all further arguments.
\<close>
theorem client_target_accepts:
  "client_target (prog # arg # others) = Target t \<longleftrightarrow>
     (\<exists>pre. arg = pre @ ''--target='' @ t \<and> find_sub ''--target'' arg = Some (length pre))"
proof
  assume "client_target (prog # arg # others) = Target t"
  then obtain pos where pos: "find_sub ''--target'' arg = Some pos"
    and eq: "char_at arg (pos + 8) = CHR ''=''" and t: "t = drop (pos + 9) arg"
    by (auto simp: client_target_def Let_def numeral_eq_Suc split: option.split_asm if_split_asm)
  obtain pre post where arg: "arg = pre @ ''--target'' @ post" "length pre = pos"
    using find_sub_Some [OF pos] by blast
  then obtain post' where "post = CHR ''='' # post'"
    using eq by (cases post) (auto simp: char_at_def nth_append split: if_split_asm)
  with arg t pos show "\<exists>pre. arg = pre @ ''--target='' @ t \<and> find_sub ''--target'' arg = Some (length pre)"
    by (intro exI [of _ pre]) auto
next
  assume "\<exists>pre. arg = pre @ ''--target='' @ t \<and> find_sub ''--target'' arg = Some (length pre)"
  then obtain pre where "arg = pre @ ''--target='' @ t" "find_sub ''--target'' arg = Some (length pre)"
    by blast
  then show "client_target (prog # arg # others) = Target t"
    by (simp add: client_target_def char_at_def nth_append)
qed

section \<open>The streaming client\<close>

text \<open>
  \<open>read\<close> is \<^verbatim>\<open>ClientReader::Read\<close>: the next message, or nothing at the end of the stream, which
  may never come. The loop collects the messages.
\<close>

partial_function (option) read_replies ::
  "('s \<Rightarrow> (string \<times> 's) option) \<Rightarrow> 's \<Rightarrow> string list \<Rightarrow> (string list \<times> 's) option" where
  "read_replies read reader results =
     (case read reader of
       None \<Rightarrow> Some (results, reader)
     | Some (reply, reader') \<Rightarrow> read_replies read reader' (results @ [reply]))"

text \<open>What \<^verbatim>\<open>SayHello\<close> prints, and its result; \<open>finish\<close> says whether the status is \<^verbatim>\<open>ok\<close>.\<close>

definition SayHello ::
  "('s \<Rightarrow> (string \<times> 's) option) \<Rightarrow> ('s \<Rightarrow> bool) \<Rightarrow> 's \<Rightarrow> (string list \<times> string list) option" where
  "SayHello read finish reader =
     map_option (\<lambda>(results, reader').
         if finish reader' then ([''SayHello rpc succeeded.''], results)
         else ([''SayHello rpc failed.''], []))
       (read_replies read reader [])"

text \<open>\<^verbatim>\<open>main\<close>, as the lines it prints; \<open>stub\<close> connects to a target and sends the user's name.\<close>

definition client_main ::
  "('s \<Rightarrow> (string \<times> 's) option) \<Rightarrow> ('s \<Rightarrow> bool) \<Rightarrow> (string \<Rightarrow> string \<Rightarrow> 's) \<Rightarrow> string list \<Rightarrow>
   string list option" where
  "client_main read finish stub argv =
     (case client_target argv of
       Wrong_syntax \<Rightarrow> Some [''The only correct argument syntax is --target='']
     | Unacceptable \<Rightarrow> Some [''The only acceptable argument is --target='']
     | Target target_str \<Rightarrow>
         map_option (\<lambda>(printed, replies). printed @ map (\<lambda>reply. ''Greeter received: '' @ reply) replies)
           (SayHello read finish (stub target_str ''world'')))"

text \<open>A stream that ends after the given messages.\<close>

fun streams :: "('s \<Rightarrow> (string \<times> 's) option) \<Rightarrow> 's \<Rightarrow> string list \<Rightarrow> 's \<Rightarrow> bool" where
  "streams read reader [] reader' \<longleftrightarrow> read reader = None \<and> reader' = reader"
| "streams read reader (m # ms) reader' \<longleftrightarrow>
     (case read reader of None \<Rightarrow> False | Some (reply, next) \<Rightarrow> reply = m \<and> streams read next ms reader')"

lemma read_replies_streams:
  "streams read reader ms reader' \<Longrightarrow> read_replies read reader results = Some (results @ ms, reader')"
  by (induction read reader ms reader' arbitrary: results rule: streams.induct)
    (subst read_replies.simps, auto split: option.split_asm)+

text \<open>
  What the streaming client prints, when it is given a target and the stream ends: every message
  of the stream in order if the call succeeded, and no message at all, not even those it has
  received, if it failed.
\<close>
theorem stream_client_output:
  assumes "streams read (stub t ''world'') ms reader"
  shows "client_main read finish stub [prog, ''--target='' @ t] =
    Some (if finish reader
          then ''SayHello rpc succeeded.'' # map (\<lambda>m. ''Greeter received: '' @ m) ms
          else [''SayHello rpc failed.''])"
proof -
  have "client_target [prog, ''--target='' @ t] = Target t"
    using client_target_accepts [of prog "''--target='' @ t" "[]" t] by simp
  then show ?thesis
    using read_replies_streams [OF assms, of "[]"] by (simp add: client_main_def SayHello_def)
qed

theorem stream_client_output_witness:
  "client_main (\<lambda>ms. case ms of [] \<Rightarrow> None | m # ms' \<Rightarrow> Some (m, ms')) (\<lambda>ms. True) (\<lambda>target user. [user, target])
     [''client'', ''--target=host:1''] =
   Some [''SayHello rpc succeeded.'', ''Greeter received: world'', ''Greeter received: host:1'']"
  using stream_client_output [of "\<lambda>ms. case ms of [] \<Rightarrow> None | m # ms' \<Rightarrow> Some (m, ms')"
      "\<lambda>target user. [user, target]" "''host:1''" "[''world'', ''host:1'']" "[]" "\<lambda>ms. True" "''client''"]
  by simp

end
