(* ===== verification/Example_Runs.thy ===== *)
theory Example_Runs
  imports Examples Reference_Libs
begin

text \<open>
  The hello world programs as a whole: a coroutine as the client of a \<^verbatim>\<open>GrpcContext\<close> that one
  thread runs. \<^verbatim>\<open>when_all\<close> starts the coroutine first, on the same thread and before \<^verbatim>\<open>Run\<close>, so its
  first call goes through the remote queue; every later call is started by the completion of the
  one before. The operation of an awaited call lives in the coroutine's frame, at the address
  \<open>slot\<close> gives for the place.
\<close>

section \<open>A coroutine as a receiver\<close>

text \<open>The receiver is the place where the coroutine waits, the client's state what it has logged.\<close>

fun actions_of :: "effect list \<Rightarrow> 'p action list" where
  "actions_of [] = []"
| "actions_of (Logs line # es) = actions_of es"
| "actions_of (Shuts_down # es) = ShutDown_queue # actions_of es"

fun lines_of :: "effect list \<Rightarrow> string list" where
  "lines_of [] = []"
| "lines_of (Logs line # es) = line # lines_of es"
| "lines_of (Shuts_down # es) = lines_of es"

text \<open>A failed check ends the process; a coroutine that flows off its end is undefined behaviour.\<close>

definition resume_receiver ::
  "('p \<Rightarrow> op_ptr) \<Rightarrow> ('p \<Rightarrow> bool \<Rightarrow> 'p resumed) \<Rightarrow> 'p \<Rightarrow> bool \<Rightarrow> string list \<Rightarrow>
   'p action list \<times> bool \<times> string list" where
  "resume_receiver slot resume pt flag log =
     (case resume pt flag of
       Call s pt' \<Rightarrow> ([Await (slot pt') s pt'], False, log)
     | Return es \<Rightarrow> (actions_of es, False, log @ lines_of es)
     | Check_fails \<Rightarrow> ([Abort], False, log)
     | Undefined \<Rightarrow> ([Run_undefined], False, log))"

text \<open>
  gRPC accepts the calls of an operation, one at a time, while the queue is not shut down. It does
  for calls that keep the rules of their own object, as those of the programs here do: each is made on
  objects of its round and awaited before the next one.
\<close>

definition accepts_calls :: "('q, 'rq, 'cq, 'r, 'u) ext \<Rightarrow> op_ptr \<Rightarrow> bool" where
  "accepts_calls E p \<longleftrightarrow> (\<forall>cq call. call_tag call = p \<and> Some p \<notin># cq_tags E cq \<and> \<not> cq_down E cq \<longrightarrow>
     cq_start_call E cq call \<noteq> None)"

definition coroutine_ext ::
  "('q, 'rq, 'cq, 'p, string list) ext \<Rightarrow> ('p \<Rightarrow> op_ptr) \<Rightarrow> ('p \<Rightarrow> bool \<Rightarrow> 'p resumed) \<Rightarrow> bool" where
  "coroutine_ext E slot resume \<longleftrightarrow> ext_ok E \<and> rcv_set_value E = resume_receiver slot resume \<and>
     (\<forall>pt. accepts_calls E (slot pt))"

lemma ref_accepts: "accepts_calls (ref_libs set_value) p"
  by (auto simp: accepts_calls_def split: prod.split)

section \<open>The programs\<close>

text \<open>
  The context is made, the coroutine runs up to its first \<^verbatim>\<open>co_await\<close>, and the thread runs the
  context. \<open>stop_op\<close> is where \<^verbatim>\<open>Run\<close> puts its stop operation; nobody requests a stop.
\<close>

definition enter_program ::
  "('q, 'rq, 'cq, 'p, string list) ext \<Rightarrow> thread \<Rightarrow> ctx_ref \<Rightarrow> (thread \<Rightarrow> ctx_ref option) \<Rightarrow> 'cq \<Rightarrow>
   op_ptr \<Rightarrow> sender \<Rightarrow> 'p \<Rightarrow> ('q, 'rq, 'cq, 'p, string list) world res" where
  "enter_program E t this tls cq op s pt =
     bind_res (place op (new_async_operation s pt) (GrpcContext_new E this tls cq [])) (start_operation E t op)"

definition run_program ::
  "('q, 'rq, 'cq, 'p, string list) ext \<Rightarrow> thread \<Rightarrow> ctx_ref \<Rightarrow> (thread \<Rightarrow> ctx_ref option) \<Rightarrow> 'cq \<Rightarrow>
   op_ptr \<Rightarrow> op_ptr \<Rightarrow> sender \<Rightarrow> 'p \<Rightarrow> ('q, 'rq, 'cq, 'p, string list) world res option" where
  "run_program E t this tls cq stop_op op s pt =
     (case enter_program E t this tls cq op s pt of
       Inl e \<Rightarrow> Some (Inl e)
     | Inr w \<Rightarrow> Run E t stop_op w)"

text \<open>The world at the top of the loop when \<^verbatim>\<open>Run\<close> has been entered.\<close>

definition top_of_loop ::
  "('q, 'rq, 'cq, 'p, string list) ext \<Rightarrow> thread \<Rightarrow> ctx_ref \<Rightarrow> (thread \<Rightarrow> ctx_ref option) \<Rightarrow> 'cq \<Rightarrow>
   op_ptr \<Rightarrow> op_ptr \<Rightarrow> sender \<Rightarrow> 'p \<Rightarrow> ('q, 'rq, 'cq, 'p, string list) world res" where
  "top_of_loop E t this tls cq stop_op op s pt =
     bind_res (enter_program E t this tls cq op s pt) (\<lambda>w.
     bind_res (begin_run stop_op w) (\<lambda>w'. Inr (enter_context t (Some (this_context w')) w')))"

definition hello_server_main ::
  "('q, 'rq, 'cq, hello_point, string list) ext \<Rightarrow> thread \<Rightarrow> ctx_ref \<Rightarrow> (thread \<Rightarrow> ctx_ref option) \<Rightarrow>
   'cq \<Rightarrow> op_ptr \<Rightarrow> (hello_point \<Rightarrow> op_ptr) \<Rightarrow> ('q, 'rq, 'cq, hello_point, string list) world res option" where
  "hello_server_main E t this tls cq stop_op slot =
     run_program E t this tls cq stop_op (slot Hello_request) (site AsyncRequest hello_request_args) Hello_request"

definition hello_client_main ::
  "('q, 'rq, 'cq, client_point, string list) ext \<Rightarrow> thread \<Rightarrow> ctx_ref \<Rightarrow> (thread \<Rightarrow> ctx_ref option) \<Rightarrow>
   'cq \<Rightarrow> op_ptr \<Rightarrow> (client_point \<Rightarrow> op_ptr) \<Rightarrow> ('q, 'rq, 'cq, client_point, string list) world res option" where
  "hello_client_main E t this tls cq stop_op slot =
     run_program E t this tls cq stop_op (slot Client_finish) (site AsyncFinish client_finish_args) Client_finish"

section \<open>One operation at a time\<close>

text \<open>
  The states of a context whose only operation, apart from the stop operation, is \<open>p\<close>: linked in
  the local queue and about to execute \<open>f\<close>, or owed by gRPC; and with no operation at all.
\<close>

definition remote_idle :: "('q, 'rq, 'cq, 'r, 'u) ext \<Rightarrow> ('q, 'rq, 'cq, 'r, 'u) world \<Rightarrow> bool" where
  "remote_idle E w \<longleftrightarrow>
     aiq_view E (remote_queue w) = (if remote_queue_read_submitted w then Inactive else Active [])"

definition resting ::
  "('q, 'rq, 'cq, 'r, 'u) ext \<Rightarrow> thread \<Rightarrow> op_ptr \<Rightarrow> ('q, 'rq, 'cq, 'r, 'u) world \<Rightarrow> bool" where
  "resting E t sp w \<longleftrightarrow>
     IsRunningOnThisThread t w \<and> stop_callback w = Some sp \<and> heap w sp = Some new_stop_operation \<and>
     remote_idle E w"

definition only_op ::
  "op_ptr \<Rightarrow> op_ptr \<Rightarrow> exec_fn \<Rightarrow> sender \<Rightarrow> 'r \<Rightarrow> ('q, 'rq, 'cq, 'r, 'u) world \<Rightarrow> bool" where
  "only_op sp p f s r w \<longleftrightarrow> p \<noteq> sp \<and>
     heap w = [sp \<mapsto> new_stop_operation, p \<mapsto> \<lparr>execute = Some f, body = AsyncOperation s r\<rparr>]"

definition queued ::
  "('q, 'rq, 'cq, 'r, 'u) ext \<Rightarrow> thread \<Rightarrow> op_ptr \<Rightarrow> op_ptr \<Rightarrow> exec_fn \<Rightarrow> sender \<Rightarrow> 'r \<Rightarrow>
   ('q, 'rq, 'cq, 'r, 'u) world \<Rightarrow> bool" where
  "queued E t sp p f s r w \<longleftrightarrow> resting E t sp w \<and> only_op sp p f s r w \<and>
     iq_items E (local_queue w) = [p] \<and> cq_tags E (completion_queue w) = {#} \<and> \<not> cq_down E (completion_queue w)"

definition awaited ::
  "('q, 'rq, 'cq, 'r, 'u) ext \<Rightarrow> thread \<Rightarrow> op_ptr \<Rightarrow> op_ptr \<Rightarrow> sender \<Rightarrow> 'r \<Rightarrow>
   ('q, 'rq, 'cq, 'r, 'u) world \<Rightarrow> bool" where
  "awaited E t sp p s r w \<longleftrightarrow> resting E t sp w \<and> only_op sp p OnRequestComplete s r w \<and>
     iq_items E (local_queue w) = [] \<and> cq_tags E (completion_queue w) = {#Some p#} \<and>
     \<not> cq_down E (completion_queue w)"

definition finished ::
  "('q, 'rq, 'cq, 'r, 'u) ext \<Rightarrow> thread \<Rightarrow> op_ptr \<Rightarrow> ('q, 'rq, 'cq, 'r, 'u) world \<Rightarrow> bool" where
  "finished E t sp w \<longleftrightarrow> resting E t sp w \<and> heap w = [sp \<mapsto> new_stop_operation] \<and>
     iq_items E (local_queue w) = [] \<and> cq_tags E (completion_queue w) = {#}"

text \<open>The thread-locals, the client's state and the flags given to receivers are as before.\<close>

definition same_place :: "('q, 'rq, 'cq, 'r, 'u) world \<Rightarrow> ('q, 'rq, 'cq, 'r, 'u) world \<Rightarrow> bool" where
  "same_place w w' \<longleftrightarrow> this_context w' = this_context w \<and>
     current_thread_context w' = current_thread_context w \<and> client w' = client w \<and>
     delivered (history w') = delivered (history w)"

lemmas phase_defs = resting_def only_op_def queued_def awaited_def finished_def remote_idle_def

section \<open>One round of the loop\<close>

definition emptied ::
  "('q, 'rq, 'cq, 'r, 'u) ext \<Rightarrow> ('q, 'rq, 'cq, 'r, 'u) world \<Rightarrow> ('q, 'rq, 'cq, 'r, 'u) world" where
  "emptied E w = w\<lparr>local_queue := iq_moved_from E (local_queue w)\<rparr>"

text \<open>What follows the batch in \<^verbatim>\<open>RunImpl\<close>.\<close>

definition after_batch ::
  "('q, 'rq, 'cq, 'r, 'u) ext \<Rightarrow> thread \<Rightarrow> op_ptr \<Rightarrow> ('q, 'rq, 'cq, 'r, 'u) world \<Rightarrow>
   ('q, 'rq, 'cq, 'r, 'u) world res option" where
  "after_batch E t sp w =
     (if stopped (heap w) sp then Some (Inr w)
      else case AcquireCompletionQueueItems E (check_remote_queue E w) of
        None \<Rightarrow> None
      | Some (b, w') \<Rightarrow> if \<not> b then Some (Inr w') else run_loop E t sp w')"

lemma batch_of_one:
  assumes "ext_ok E" and "iq_items E (local_queue w) = [p]"
  shows "ExecutePendingLocal E t w = Some (bind_res (execute_op E t p (emptied E w)) (\<lambda>w'. Inr (1, w')))"
  using assms by (simp add: ExecutePendingLocal_def run_pending_is_execute_all lib_simps emptied_def
      bind_res_assoc)

lemma batch_of_none:
  "ext_ok E \<Longrightarrow> iq_items E (local_queue w) = [] \<Longrightarrow> ExecutePendingLocal E t w = Some (Inr (0, w))"
  by (simp add: ExecutePendingLocal_def lib_simps)

lemma run_loop_one:
  assumes "ext_ok E" and "iq_items E (local_queue w) = [p]"
  shows "run_loop E t sp w =
    (case execute_op E t p (emptied E w) of Inl e \<Rightarrow> Some (Inl e) | Inr w1 \<Rightarrow> after_batch E t sp w1)"
  by (subst run_loop.simps) (simp add: batch_of_one [OF assms] after_batch_def split: sum.split)

lemma run_loop_none:
  "ext_ok E \<Longrightarrow> iq_items E (local_queue w) = [] \<Longrightarrow> run_loop E t sp w = after_batch E t sp w"
  by (subst run_loop.simps) (simp add: batch_of_none after_batch_def)

text \<open>A loop that keeps a predicate under which it goes on never returns.\<close>

lemma run_loop_diverges:
  fixes E :: "('q, 'rq, 'cq, 'r, 'u) ext"
  assumes step: "\<And>w. I w \<Longrightarrow> \<exists>n w1. ExecutePendingLocal E t w = Some (Inr (n, w1)) \<and>
      \<not> stopped (heap w1) sp \<and>
      (\<forall>b w2. AcquireCompletionQueueItems E (check_remote_queue E w1) = Some (b, w2) \<longrightarrow> b \<and> I w2)"
    and "I w"
  shows "run_loop E t sp w = None"
proof (rule ccontr)
  assume "run_loop E t sp w \<noteq> None"
  then obtain y where y: "run_loop E t sp w = Some y" by blast
  have "E' = E \<longrightarrow> t' = t \<longrightarrow> sp' = sp \<longrightarrow> \<not> I v"
    if "run_loop E' t' sp' v = Some y" for E' :: "('q, 'rq, 'cq, 'r, 'u) ext" and t' sp' v y
    using that
  proof (induction rule: run_loop.raw_induct [rotated 1, consumes 1, case_names round])
    case (round rec E' t' sp' v y)
    show ?case
    proof (intro impI notI)
      assume eqs: "E' = E" "t' = t" "sp' = sp" and I: "I v"
      obtain n w1 where w1: "ExecutePendingLocal E t v = Some (Inr (n, w1))" "\<not> stopped (heap w1) sp"
        and more_rounds: "\<And>b w2. AcquireCompletionQueueItems E (check_remote_queue E w1) = Some (b, w2) \<Longrightarrow>
          b \<and> I w2"
        using step [OF I] by blast
      show False
      proof (cases "AcquireCompletionQueueItems E (check_remote_queue E w1)")
        case None
        then show False using round.hyps w1 eqs by simp
      next
        case (Some r)
        then obtain b w2 where got: "AcquireCompletionQueueItems E (check_remote_queue E w1) = Some (b, w2)"
          by (cases r) auto
        from more_rounds [OF got] have "b" "I w2" by simp_all
        then show False using round got w1 eqs by simp
      qed
    qed
  qed
  with y assms(2) show False by blast
qed

section \<open>What a round does\<close>

lemma check_idle:
  assumes E: "ext_ok E" and "remote_idle E w"
  shows "\<exists>rq. aiq_view E rq = Inactive \<and>
    check_remote_queue E w = w\<lparr>remote_queue := rq, remote_queue_read_submitted := True\<rparr>"
proof (cases "remote_queue_read_submitted w")
  case True
  with assms(2) show ?thesis
    by (intro exI [of _ "remote_queue w"]) (simp add: remote_idle_def check_remote_queue_def)
next
  case False
  then have "aiq_view E (remote_queue w) = Active []" using assms(2) by (simp add: remote_idle_def)
  from aiq_try [OF E this] False E show ?thesis
    by (auto simp: check_remote_queue_def TryScheduleRemoteQueuedItems_def lib_simps)
qed

lemma start_awaited:
  assumes E: "ext_ok E" and w: "resting E t sp w" "iq_items E (local_queue w) = []"
      "heap w = [sp \<mapsto> new_stop_operation, p \<mapsto> \<lparr>execute = x, body = AsyncOperation s r\<rparr>]" "p \<noteq> sp"
      "cq_tags E (completion_queue w) = {#}" "\<not> cq_down E (completion_queue w)"
    and call: "run_sender s (this_context w) p = Inr call" and acc: "accepts_calls E p"
  shows "\<exists>w'. StartAsyncRPC E t p w = Inr w' \<and> awaited E t sp p s r w' \<and> same_place w w' \<and>
    cq_start_call E (completion_queue w) call = Some (completion_queue w')"
proof -
  obtain cq where cq: "cq_start_call E (completion_queue w) call = Some cq"
    using acc run_sender_tag [OF call] w(5,6) by (force simp: accepts_calls_def)
  then show ?thesis
    using cq_start_callD [OF E cq] run_sender_tag [OF call] w call
    by (auto simp: StartAsyncRPC_def phase_defs same_place_def IsRunningOnThisThread_def fun_upd_twist)
qed

lemma execute_scheduled:
  assumes "ext_ok E" and "queued E t sp p OnScheduleComplete s r w"
    and "run_sender s (this_context w) p = Inr call" and "accepts_calls E p"
  shows "\<exists>w'. execute_op E t p (emptied E w) = Inr w' \<and> awaited E t sp p s r w' \<and> same_place w w' \<and>
    cq_start_call E (completion_queue w) call = Some (completion_queue w')"
proof -
  have "\<exists>w'. StartAsyncRPC E t p (emptied E w) = Inr w' \<and> awaited E t sp p s r w' \<and>
      same_place (emptied E w) w' \<and> cq_start_call E (completion_queue (emptied E w)) call = Some (completion_queue w')"
    using assms by (intro start_awaited [where x = "Some OnScheduleComplete"])
      (simp_all add: phase_defs emptied_def lib_simps IsRunningOnThisThread_def)
  then show ?thesis
    using assms(2) by (auto simp: phase_defs emptied_def execute_op_def same_place_def)
qed

lemma execute_completed:
  assumes C: "coroutine_ext E slot resume" and q: "queued E t sp p OnRequestComplete s r w"
  shows "execute_op E t p (emptied E w) =
    (let (as, threw, log) = resume_receiver slot resume r (ok (event w)) (client w);
         w1 = (emptied E w)\<lparr>client := log, history := history w @ [Set_value p (ok (event w))]\<rparr>
     in perform_all E t as (release p w1))"
  using C q
  by (auto simp: coroutine_ext_def phase_defs emptied_def execute_op_def complete_def
      resume_receiver_def Let_def split: resumed.split)

lemma release_only_op:
  "only_op sp p f s r w \<Longrightarrow> heap w' = heap w \<Longrightarrow> heap (release p w') = [sp \<mapsto> new_stop_operation]"
  by (auto simp: only_op_def release_def fun_eq_iff)

lemma bind_res_perform_Nil: "bind_res m (perform_all E t []) = m"
  by (cases m) simp_all

text \<open>A completed operation whose coroutine makes another call.\<close>

lemma execute_call:
  assumes C: "coroutine_ext E slot resume" and q: "queued E t sp p OnRequestComplete s r w"
    and res: "resume r (ok (event w)) = Call s' r'" and "slot r' \<noteq> sp"
    and call: "run_sender s' (this_context w) (slot r') = Inr call"
  shows "\<exists>w'. execute_op E t p (emptied E w) = Inr w' \<and> awaited E t sp (slot r') s' r' w' \<and>
    this_context w' = this_context w \<and> delivered (history w') = delivered (history w) @ [(p, ok (event w))]"
proof -
  have E: "ext_ok E" and acc: "accepts_calls E (slot r')" using C by (simp_all add: coroutine_ext_def)
  define w1 where "w1 = release p ((emptied E w)\<lparr>client := client w,
    history := history w @ [Set_value p (ok (event w))]\<rparr>)"
  define w2 where "w2 = w1\<lparr>heap := (heap w1)(slot r' \<mapsto> new_async_operation s' r')\<rparr>"
  have h: "heap w1 = [sp \<mapsto> new_stop_operation]"
    unfolding w1_def using q by (intro release_only_op [of sp p OnRequestComplete s r w])
      (simp_all add: queued_def emptied_def)
  have run: "IsRunningOnThisThread t w2"
    using q by (simp add: w2_def w1_def emptied_def release_def phase_defs IsRunningOnThisThread_def)
  have "execute_op E t p (emptied E w) = StartAsyncRPC E t (slot r') w2"
    using execute_completed [OF C q] res h run assms(4)
    by (simp add: resume_receiver_def place_def start_operation_def w2_def bind_res_perform_Nil flip: w1_def)
  moreover have "\<exists>w'. StartAsyncRPC E t (slot r') w2 = Inr w' \<and> awaited E t sp (slot r') s' r' w' \<and>
      same_place w2 w' \<and> cq_start_call E (completion_queue w2) call = Some (completion_queue w')"
    using q E call run assms(4) h acc
    by (intro start_awaited [where x = None])
      (simp_all add: phase_defs w2_def w1_def emptied_def release_def lib_simps new_async_operation_def
        IsRunningOnThisThread_def)
  ultimately show ?thesis
    by (auto simp: same_place_def w2_def w1_def emptied_def release_def)
qed

text \<open>A completed operation whose coroutine returns.\<close>

lemma perform_effects:
  assumes "ext_ok E"
  shows "\<exists>cq. perform_all E t (actions_of es) w = Inr (w\<lparr>completion_queue := cq\<rparr>) \<and>
    cq_tags E cq = cq_tags E (completion_queue w) \<and>
    (cq_down E cq \<longleftrightarrow> cq_down E (completion_queue w) \<or> Shuts_down \<in> set es)"
proof (induction es arbitrary: w rule: actions_of.induct)
  case 1
  then show ?case by (intro exI [of _ "completion_queue w"]) simp
next
  case (3 es)
  show ?case
    using 3 [of "ShutDown E w"] assms by (auto simp: ShutDown_def lib_simps)
qed simp

lemma execute_return:
  assumes C: "coroutine_ext E slot resume" and q: "queued E t sp p OnRequestComplete s r w"
    and res: "resume r (ok (event w)) = Return es"
  shows "\<exists>w'. execute_op E t p (emptied E w) = Inr w' \<and> finished E t sp w' \<and>
    (cq_down E (completion_queue w') \<longleftrightarrow> Shuts_down \<in> set es) \<and>
    this_context w' = this_context w \<and> current_thread_context w' = current_thread_context w \<and>
    client w' = client w @ lines_of es"
proof -
  have E: "ext_ok E" using C by (simp add: coroutine_ext_def)
  define w1 where "w1 = release p ((emptied E w)\<lparr>client := client w @ lines_of es,
    history := history w @ [Set_value p (ok (event w))]\<rparr>)"
  have h: "heap w1 = [sp \<mapsto> new_stop_operation]"
    unfolding w1_def using q by (intro release_only_op [of sp p OnRequestComplete s r w])
      (simp_all add: queued_def emptied_def)
  from perform_effects [OF E, of t es w1] obtain cq where
    cq: "perform_all E t (actions_of es) w1 = Inr (w1\<lparr>completion_queue := cq\<rparr>)"
    "cq_tags E cq = cq_tags E (completion_queue w1)"
    "cq_down E cq \<longleftrightarrow> cq_down E (completion_queue w1) \<or> Shuts_down \<in> set es"
    by blast
  have "execute_op E t p (emptied E w) = Inr (w1\<lparr>completion_queue := cq\<rparr>)"
    using execute_completed [OF C q] res cq(1) by (simp add: resume_receiver_def flip: w1_def)
  moreover have "finished E t sp (w1\<lparr>completion_queue := cq\<rparr>)"
    using q cq(2) h E
    by (simp add: phase_defs w1_def emptied_def release_def lib_simps IsRunningOnThisThread_def)
  ultimately show ?thesis
    using q cq(3) by (auto simp: queued_def w1_def emptied_def release_def)
qed

section \<open>Waiting in \<^verbatim>\<open>Next\<close>\<close>

lemma next_awaited:
  assumes E: "ext_ok E" and a: "awaited E t sp p s r w"
    and got: "AcquireCompletionQueueItems E (check_remote_queue E w) = Some (b, w')"
  shows "b \<and> queued E t sp p OnRequestComplete s r w' \<and> same_place w w' \<and>
    (\<exists>cq'. cq_next E (completion_queue w) = Some (Event (Some p) (ok (event w')), cq'))"
proof -
  obtain rq where rq: "aiq_view E rq = Inactive"
    "check_remote_queue E w = w\<lparr>remote_queue := rq, remote_queue_read_submitted := True\<rparr>"
    using check_idle [OF E, of w] a by (auto simp: awaited_def resting_def)
  show ?thesis
  proof (cases "cq_next E (completion_queue w)")
    case None
    then show ?thesis using got rq by (simp add: AcquireCompletionQueueItems_def)
  next
    case (Some res)
    then obtain ev cq where nx: "cq_next E (completion_queue w) = Some (ev, cq)" by (cases res) auto
    show ?thesis
    proof (cases ev)
      case (Event tg flag)
      note D = cq_nextD [OF E nx [unfolded Event]]
      from D(1) a have "tg = Some p" by (simp add: awaited_def)
      then show ?thesis
        using got nx Event D a rq E
        by (auto simp: AcquireCompletionQueueItems_def phase_defs same_place_def ScheduleLocal_def
            lib_simps IsRunningOnThisThread_def)
    next
      case Drained
      from cq_drainedD [OF E nx [unfolded this]] a show ?thesis by (simp add: awaited_def)
    qed
  qed
qed

lemma not_stopped [simp]:
  "awaited E t sp p s r w \<Longrightarrow> \<not> stopped (heap w) sp" "finished E t sp w \<Longrightarrow> \<not> stopped (heap w) sp"
  by (auto simp: phase_defs stopped_def new_stop_operation_def)

lemma after_finished:
  assumes E: "ext_ok E" and f: "finished E t sp w"
    and got: "AcquireCompletionQueueItems E (check_remote_queue E w) = Some (b, w')"
  shows "\<not> b \<and> cq_down E (completion_queue w) \<and> finished E t sp w' \<and> cq_down E (completion_queue w') \<and>
    same_place w w'"
proof -
  obtain rq where rq: "aiq_view E rq = Inactive"
    "check_remote_queue E w = w\<lparr>remote_queue := rq, remote_queue_read_submitted := True\<rparr>"
    using check_idle [OF E, of w] f by (auto simp: finished_def resting_def)
  show ?thesis
  proof (cases "cq_next E (completion_queue w)")
    case None
    then show ?thesis using got rq by (simp add: AcquireCompletionQueueItems_def)
  next
    case (Some res)
    then obtain ev cq where nx: "cq_next E (completion_queue w) = Some (ev, cq)" by (cases res) auto
    show ?thesis
    proof (cases ev)
      case (Event tg flag)
      from cq_nextD(1) [OF E nx [unfolded this]] f show ?thesis by (simp add: finished_def)
    next
      case Drained
      from cq_drainedD [OF E nx [unfolded this]] f got nx rq Drained show ?thesis
        by (auto simp: AcquireCompletionQueueItems_def phase_defs same_place_def IsRunningOnThisThread_def)
    qed
  qed
qed

section \<open>The start\<close>

text \<open>What \<^verbatim>\<open>Run\<close> makes of the result of the loop.\<close>

definition leave ::
  "thread \<Rightarrow> ctx_ref option \<Rightarrow> op_ptr \<Rightarrow> ('q, 'rq, 'cq, 'r, 'u) world res option \<Rightarrow>
   ('q, 'rq, 'cq, 'r, 'u) world res option" where
  "leave t old sp = map_option (\<lambda>r. bind_res r (\<lambda>w. Inr (end_run sp (enter_context t old w))))"

text \<open>
  A new context with one operation in its remote queue and the alarm set, at the top of the loop.
\<close>

definition booted ::
  "('q, 'rq, 'cq, 'r, 'u) ext \<Rightarrow> thread \<Rightarrow> op_ptr \<Rightarrow> op_ptr \<Rightarrow> sender \<Rightarrow> 'r \<Rightarrow>
   ('q, 'rq, 'cq, 'r, 'u) world \<Rightarrow> bool" where
  "booted E t sp p s r w \<longleftrightarrow>
     IsRunningOnThisThread t w \<and> stop_callback w = Some sp \<and> only_op sp p OnScheduleComplete s r w \<and>
     aiq_view E (remote_queue w) = Active [p] \<and> \<not> remote_queue_read_submitted w \<and>
     iq_items E (local_queue w) = [] \<and> cq_tags E (completion_queue w) = {#None#} \<and>
     \<not> cq_down E (completion_queue w)"

lemma run_program_boots:
  assumes E: "ext_ok E" and cq: "cq_tags E cq = {#}" "\<not> cq_down E cq"
    and t: "tls t \<noteq> Some this" and p: "p \<noteq> sp"
  shows "\<exists>w. top_of_loop E t this tls cq sp p s pt = Inr w \<and> booted E t sp p s pt w \<and> client w = [] \<and>
    cq_alarm_set E cq None = Some (completion_queue w) \<and> this_context w = this \<and> history w = [] \<and> current_thread_context w = tls(t \<mapsto> this) \<and>
    run_program E t this tls cq sp p s pt = leave t (tls t) sp (run_loop E t sp w)"
proof -
  obtain rq where rq: "aiq_enqueue E (aiq_init E False) p = (True, rq)" "aiq_view E rq = Active [p]"
    using aiq_enqueue_inactive [OF E, of "aiq_init E False" p] E by (auto simp: lib_simps)
  obtain cq' where cq': "cq_alarm_set E cq None = Some cq'"
    using cq_alarm_set_allowed [OF E cq(2), of None] cq(1) by auto
  define op where "op = \<lparr>execute = Some OnScheduleComplete, body = AsyncOperation s pt\<rparr>"
  define w0 where "w0 = (GrpcContext_new E this tls cq [])\<lparr>heap := [p \<mapsto> op], remote_queue := rq,
    completion_queue := cq'\<rparr>"
  define w1 where "w1 = w0\<lparr>heap := [p \<mapsto> op, sp \<mapsto> new_stop_operation], stop_callback := Some sp\<rparr>"
  have start: "enter_program E t this tls cq p s pt = Inr w0"
    using t rq(1) cq'
    by (simp add: enter_program_def place_def GrpcContext_new_def start_operation_def mark_scheduled_def new_async_operation_def
        IsRunningOnThisThread_def ScheduleRemote_def remote_enqueue_def SignalRemoteQueue_def w0_def op_def)
  have run: "begin_run sp w0 = Inr w1" "this_context w1 = this" "current_thread_context w1 = tls"
    using p by (simp_all add: begin_run_def place_def w0_def w1_def GrpcContext_new_def)
  have "run_program E t this tls cq sp p s pt = Run E t sp w0"
    by (simp only: run_program_def start sum.case)
  also have "\<dots> = leave t (tls t) sp (run_loop E t sp (enter_context t (Some this) w1))"
    by (simp add: Run_def RunImpl_def leave_def run option.map_comp comp_def bind_res_assoc)
  finally have "run_program E t this tls cq sp p s pt =
      leave t (tls t) sp (run_loop E t sp (enter_context t (Some this) w1))" .
  moreover have "booted E t sp p s pt (enter_context t (Some this) w1)"
    using rq(2) cq_alarm_setD [OF E cq'] cq p E
    by (simp add: booted_def phase_defs enter_context_def w1_def w0_def GrpcContext_new_def op_def
        IsRunningOnThisThread_def lib_simps fun_upd_twist)
  moreover have "top_of_loop E t this tls cq sp p s pt = Inr (enter_context t (Some this) w1)"
    by (simp add: top_of_loop_def start run)
  ultimately show ?thesis
    by (intro exI [of _ "enter_context t (Some this) w1"])
      (simp add: enter_context_def w1_def w0_def GrpcContext_new_def cq')
qed

lemma next_booted:
  assumes E: "ext_ok E" and a: "booted E t sp p s r w"
    and got: "AcquireCompletionQueueItems E (check_remote_queue E w) = Some (b, w')"
  shows "b \<and> queued E t sp p OnScheduleComplete s r w' \<and> same_place w w' \<and>
    (\<exists>flag. cq_next E (completion_queue w) = Some (Event None flag, completion_queue w'))"
proof -
  obtain q rq where took: "aiq_try_mark_inactive_or_dequeue_all E (remote_queue w) = (q, rq)"
    "iq_items E q = [p]" "aiq_view E rq = Active []"
    using aiq_try [OF E, of "remote_queue w" "[p]"] a by (auto simp: booted_def)
  then have check: "check_remote_queue E w = w\<lparr>remote_queue := rq,
      local_queue := iq_append E (local_queue w) q, remote_queue_read_submitted := False\<rparr>"
    using a E by (simp add: booted_def check_remote_queue_def TryScheduleRemoteQueuedItems_def
        ScheduleLocal_queue_def lib_simps)
  show ?thesis
  proof (cases "cq_next E (completion_queue w)")
    case None
    then show ?thesis using got check by (simp add: AcquireCompletionQueueItems_def)
  next
    case (Some res)
    then obtain ev cq where nx: "cq_next E (completion_queue w) = Some (ev, cq)" by (cases res) auto
    show ?thesis
    proof (cases ev)
      case (Event tg flag)
      note D = cq_nextD [OF E nx [unfolded Event]]
      from D(1) a have "tg = None" by (simp add: booted_def)
      then show ?thesis
        using got nx Event D a took check E
        by (auto simp: AcquireCompletionQueueItems_def booted_def phase_defs same_place_def
            lib_simps IsRunningOnThisThread_def)
    next
      case Drained
      from cq_drainedD [OF E nx [unfolded this]] a show ?thesis by (simp add: booted_def)
    qed
  qed
qed

lemma booted_not_stopped [simp]: "booted E t sp p s r w \<Longrightarrow> \<not> stopped (heap w) sp"
  by (auto simp: booted_def only_op_def stopped_def new_stop_operation_def)

section \<open>A coroutine's run follows its protocol\<close>

text \<open>The place where a coroutine waits after the given flags, if it still does.\<close>

fun co_place :: "('p \<Rightarrow> bool \<Rightarrow> 'p resumed) \<Rightarrow> 'p \<Rightarrow> bool list \<Rightarrow> 'p option" where
  "co_place resume pt [] = Some pt"
| "co_place resume pt (flag # flags) =
     (case resume pt flag of Call s pt' \<Rightarrow> co_place resume pt' flags | _ \<Rightarrow> None)"

lemma co_place_snoc:
  "co_place resume pt flags = Some pt' \<Longrightarrow> resume pt' flag = Call s pt'' \<Longrightarrow>
   co_place resume pt (flags @ [flag]) = Some pt''"
  by (induction flags arbitrary: pt) (auto split: resumed.splits)

lemma co_place_append:
  "co_place resume pt (flags @ flags') =
     (case co_place resume pt flags of None \<Rightarrow> None | Some pt' \<Rightarrow> co_place resume pt' flags')"
  by (induction flags arbitrary: pt) (simp_all split: resumed.split)

lemma co_run_waits:
  "co_place resume pt flags \<noteq> None \<longleftrightarrow> snd (co_run resume pt flags) = Still_waiting"
  by (induction flags arbitrary: pt) (auto simp: Let_def split: resumed.splits prod.splits)

text \<open>One turn of the loop that goes on, and a number of them.\<close>

definition next_turn ::
  "('q, 'rq, 'cq, 'r, 'u) ext \<Rightarrow> thread \<Rightarrow> op_ptr \<Rightarrow> ('q, 'rq, 'cq, 'r, 'u) world \<Rightarrow>
   ('q, 'rq, 'cq, 'r, 'u) world option" where
  "next_turn E t sp w =
     (case ExecutePendingLocal E t w of
       Some (Inr (n, w1)) \<Rightarrow>
         if stopped (heap w1) sp then None
         else (case AcquireCompletionQueueItems E (check_remote_queue E w1) of
           Some (True, w2) \<Rightarrow> Some w2
         | _ \<Rightarrow> None)
     | _ \<Rightarrow> None)"

fun turns ::
  "('q, 'rq, 'cq, 'r, 'u) ext \<Rightarrow> thread \<Rightarrow> op_ptr \<Rightarrow> nat \<Rightarrow> ('q, 'rq, 'cq, 'r, 'u) world \<Rightarrow>
   ('q, 'rq, 'cq, 'r, 'u) world option" where
  "turns E t sp 0 w = Some w"
| "turns E t sp (Suc k) w = (case turns E t sp k w of None \<Rightarrow> None | Some w' \<Rightarrow> next_turn E t sp w')"

lemma run_loop_turn: "next_turn E t sp w = Some w' \<Longrightarrow> run_loop E t sp w = run_loop E t sp w'"
  by (subst run_loop.simps) (auto simp: next_turn_def split: option.split_asm sum.split_asm prod.split_asm if_split_asm)

lemma run_loop_turns: "turns E t sp k w = Some w' \<Longrightarrow> run_loop E t sp w = run_loop E t sp w'"
  by (induction k arbitrary: w') (auto split: option.split_asm dest: run_loop_turn)

lemma next_turn_Some:
  "next_turn E t sp w = Some w' \<longleftrightarrow> (\<exists>n w1. ExecutePendingLocal E t w = Some (Inr (n, w1)) \<and>
     \<not> stopped (heap w1) sp \<and> AcquireCompletionQueueItems E (check_remote_queue E w1) = Some (True, w'))"
  by (auto simp: next_turn_def split: option.splits sum.splits prod.splits bool.splits)

text \<open>
  At the top of the loop after some turns: the alarm first, then the start of the first call, and
  from then on one completed call per turn.
\<close>

definition on_course ::
  "('q, 'rq, 'cq, 'p, string list) ext \<Rightarrow> thread \<Rightarrow> op_ptr \<Rightarrow> ('p \<Rightarrow> op_ptr) \<Rightarrow>
   ('p \<Rightarrow> bool \<Rightarrow> 'p resumed) \<Rightarrow> 'p \<Rightarrow> nat \<Rightarrow> ('q, 'rq, 'cq, 'p, string list) world \<Rightarrow> bool" where
  "on_course E t sp slot resume pt0 k w \<longleftrightarrow>
     (\<exists>pt s. co_place resume pt0 (map snd (delivered (history w))) = Some pt \<and>
        length (delivered (history w)) = k - 2 \<and> (\<forall>ctx p. \<exists>call. run_sender s ctx p = Inr call) \<and>
        (if k = 0 then booted E t sp (slot pt) s pt w
         else queued E t sp (slot pt) (if k = 1 then OnScheduleComplete else OnRequestComplete) s pt w))"

lemma on_course_turn:
  assumes C: "coroutine_ext E slot resume" and sp: "\<And>pt. slot pt \<noteq> sp"
    and calls: "\<And>pt flag s pt' ctx p. resume pt flag = Call s pt' \<Longrightarrow> \<exists>call. run_sender s ctx p = Inr call"
    and on: "on_course E t sp slot resume pt0 k w" and turn: "next_turn E t sp w = Some w'"
  shows "on_course E t sp slot resume pt0 (Suc k) w'"
proof -
  have E: "ext_ok E" and acc: "\<And>pt. accepts_calls E (slot pt)" using C by (simp_all add: coroutine_ext_def)
  obtain pt s where pt: "co_place resume pt0 (map snd (delivered (history w))) = Some pt"
    "length (delivered (history w)) = k - 2" "\<And>ctx p. \<exists>call. run_sender s ctx p = Inr call"
    and phase: "if k = 0 then booted E t sp (slot pt) s pt w
      else queued E t sp (slot pt) (if k = 1 then OnScheduleComplete else OnRequestComplete) s pt w"
    using on unfolding on_course_def by blast
  obtain n w1 where w1: "ExecutePendingLocal E t w = Some (Inr (n, w1))"
    and got: "AcquireCompletionQueueItems E (check_remote_queue E w1) = Some (True, w')"
    using turn unfolding next_turn_Some by blast
  consider "k = 0" | "k = 1" | "2 \<le> k" by linarith
  then show ?thesis
  proof cases
    case 1
    then have b: "booted E t sp (slot pt) s pt w" using phase by simp
    then have "w1 = w" using w1 batch_of_none [OF E, of w t] by (simp add: booted_def)
    with next_booted [OF E b] got have "queued E t sp (slot pt) OnScheduleComplete s pt w'" "same_place w w'"
      by auto
    with 1 pt show ?thesis
      unfolding on_course_def by (intro exI [of _ pt] exI [of _ s]) (simp add: same_place_def)
  next
    case 2
    then have q: "queued E t sp (slot pt) OnScheduleComplete s pt w" using phase by simp
    obtain call where "run_sender s (this_context w) (slot pt) = Inr call" using pt(3) by blast
    from execute_scheduled [OF E q this acc] have "awaited E t sp (slot pt) s pt w1 \<and> same_place w w1"
      using w1 q batch_of_one [OF E, of w "slot pt" t] by (auto simp: queued_def)
    with next_awaited [OF E _ got] have "queued E t sp (slot pt) OnRequestComplete s pt w'"
      "delivered (history w') = delivered (history w)" by (auto simp: same_place_def)
    with 2 pt show ?thesis
      unfolding on_course_def by (intro exI [of _ pt] exI [of _ s]) simp
  next
    case 3
    then have q: "queued E t sp (slot pt) OnRequestComplete s pt w" using phase by simp
    then have ex: "execute_op E t (slot pt) (emptied E w) = Inr w1"
      using w1 batch_of_one [OF E, of w "slot pt" t] by (auto simp: queued_def)
    show ?thesis
    proof (cases "resume pt (ok (event w))")
      case (Call s' pt')
      obtain call where "run_sender s' (this_context w) (slot pt') = Inr call" using calls [OF Call] by blast
      from execute_call [OF C q Call sp this] ex have a: "awaited E t sp (slot pt') s' pt' w1"
        "delivered (history w1) = delivered (history w) @ [(slot pt, ok (event w))]" by auto
      from co_place_snoc [OF pt(1) Call]
      have "co_place resume pt0 (map snd (delivered (history w1))) = Some pt'" by (simp add: a(2))
      moreover have "queued E t sp (slot pt') OnRequestComplete s' pt' w'"
        "delivered (history w') = delivered (history w1)"
        using next_awaited [OF E a(1) got] by (auto simp: same_place_def)
      ultimately show ?thesis
        using a(2) 3 pt(2) calls [OF Call]
        unfolding on_course_def by (intro exI [of _ pt'] exI [of _ s']) simp
    next
      case (Return es)
      from execute_return [OF C q Return] ex have "finished E t sp w1" by auto
      from after_finished [OF E this got] show ?thesis by simp
    next
      case Check_fails
      with execute_completed [OF C q] ex show ?thesis by (simp add: resume_receiver_def)
    next
      case Undefined
      with execute_completed [OF C q] ex show ?thesis by (simp add: resume_receiver_def)
    qed
  qed
qed

text \<open>
  C14. A coroutine on a context does what its protocol says. However many turns the loop takes, and
  whatever gRPC reports: from the third turn on, every turn gives exactly one completion to the
  coroutine; after them the coroutine still waits, at the place its protocol gives for these flags,
  and besides the stop operation the only operation alive is the one of the call it waits for.
\<close>
theorem coroutine_follows_protocol:
  assumes "coroutine_ext E slot resume" and "cq_tags E cq = {#}" and "\<not> cq_down E cq"
    and "tls t \<noteq> Some this" and "\<forall>pt. slot pt \<noteq> stop_op"
    and "\<forall>ctx p. \<exists>call. run_sender s ctx p = Inr call"
    and "\<forall>pt flag s' pt' ctx p. resume pt flag = Call s' pt' \<longrightarrow> (\<exists>call. run_sender s' ctx p = Inr call)"
    and "top_of_loop E t this tls cq stop_op (slot pt0) s pt0 = Inr w0" and "turns E t stop_op k w0 = Some w"
  shows "length (delivered (history w)) = k - 2 \<and>
    snd (co_run resume pt0 (map snd (delivered (history w)))) = Still_waiting \<and>
    (\<exists>pt. co_place resume pt0 (map snd (delivered (history w))) = Some pt \<and> dom (heap w) = {stop_op, slot pt})"
proof -
  have E: "ext_ok E" using assms(1) by (simp add: coroutine_ext_def)
  have "booted E t stop_op (slot pt0) s pt0 w0" "history w0 = []"
    using run_program_boots [where tls = tls and pt = pt0 and s = s,
        OF E assms(2,3,4) spec [OF assms(5), of pt0]] assms(8) by auto
  then have "on_course E t stop_op slot resume pt0 0 w0"
    using assms(6) unfolding on_course_def by (intro exI [of _ pt0] exI [of _ s]) simp
  then have "on_course E t stop_op slot resume pt0 k w"
    using assms(9)
  proof (induction k arbitrary: w)
    case (Suc k)
    then obtain w1 where "turns E t stop_op k w0 = Some w1" "next_turn E t stop_op w1 = Some w"
      by (auto split: option.split_asm)
    with Suc show ?case using on_course_turn [OF assms(1)] assms(5,7) by blast
  qed simp
  then obtain pt s' where *: "co_place resume pt0 (map snd (delivered (history w))) = Some pt"
    "length (delivered (history w)) = k - 2"
    "if k = 0 then booted E t stop_op (slot pt) s' pt w
     else queued E t stop_op (slot pt) (if k = 1 then OnScheduleComplete else OnRequestComplete) s' pt w"
    unfolding on_course_def by blast
  from *(3) have "dom (heap w) = {stop_op, slot pt}"
    by (auto simp: booted_def queued_def only_op_def split: if_split_asm)
  with * co_run_waits [of resume pt0 "map snd (delivered (history w))"] show ?thesis by auto
qed

section \<open>The hello world server\<close>

fun hello_site :: "hello_point \<Rightarrow> sender" where
  "hello_site Hello_request = site AsyncRequest hello_request_args"
| "hello_site Hello_finish = site AsyncFinish hello_finish_args"

lemma run_hello_site: "\<exists>call. run_sender (hello_site pt) ctx p = Inr call"
  by (cases pt) (simp_all add: example_calls)

lemma hello_server_cases:
  "(\<exists>pt'. hello_server pt flag = Call (hello_site pt') pt') \<or> hello_server pt flag = Return []"
  by (cases pt; cases flag) (auto intro: exI [of _ Hello_request] exI [of _ Hello_finish])

lemma hello_server_calls:
  "hello_server pt flag = Call s' pt' \<Longrightarrow> \<exists>call. run_sender s' ctx p = Inr call"
  using hello_server_cases [of pt flag] run_hello_site by auto

text \<open>Five turns of the server: the alarm, the start, a request, its answer, another request.\<close>

definition demo_slot :: "hello_point \<Rightarrow> op_ptr" where
  "demo_slot pt = (case pt of Hello_request \<Rightarrow> 1 | Hello_finish \<Rightarrow> 2)"

definition demo_server_ext :: "(op_ptr list, queue_view, ref_cq, hello_point, string list) ext" where
  "demo_server_ext = ref_libs (resume_receiver demo_slot hello_server)"

definition demo_server_top :: "(op_ptr list, queue_view, ref_cq, hello_point, string list) world res" where
  "demo_server_top = top_of_loop demo_server_ext 0 7 (\<lambda>t. None) ([], False) 3 (demo_slot Hello_request)
     (hello_site Hello_request) Hello_request"

lemma demo_server_ok: "coroutine_ext demo_server_ext demo_slot hello_server" "demo_slot pt \<noteq> 3"
  by (simp_all add: coroutine_ext_def demo_server_ext_def ref_libs_ok ref_accepts demo_slot_def split: hello_point.split)

theorem coroutine_follows_protocol_witness:
  "\<exists>w0 w. demo_server_top = Inr w0 \<and> turns demo_server_ext 0 3 5 w0 = Some w \<and>
     delivered (history w) = [(1, True), (2, True), (1, True)] \<and> dom (heap w) = {3, 2}"
proof -
  have "case demo_server_top of Inl e \<Rightarrow> False | Inr w0 \<Rightarrow>
      (case turns demo_server_ext 0 3 5 w0 of None \<Rightarrow> False
       | Some w \<Rightarrow> delivered (history w) = [(1, True), (2, True), (1, True)])"
    unfolding demo_server_top_def demo_server_ext_def by code_simp
  then obtain w0 w where w0: "demo_server_top = Inr w0" and w: "turns demo_server_ext 0 3 5 w0 = Some w"
    and d: "delivered (history w) = [(1, True), (2, True), (1, True)]"
    by (auto split: sum.split_asm option.split_asm)
  have "co_place hello_server Hello_request [True, True, True] = Some Hello_finish" by simp
  with coroutine_follows_protocol [OF demo_server_ok(1) _ _ _ _ _ _ w0 [unfolded demo_server_top_def] w]
  have "dom (heap w) = {3, demo_slot Hello_finish}"
    using run_hello_site [of Hello_request] hello_server_calls demo_server_ok(2) d
    by (simp add: demo_server_ext_def)
  then have "dom (heap w) = {3, 2}" by (simp add: demo_slot_def)
  with w0 w d show ?thesis by blast
qed

text \<open>What the server's loop keeps at its top: one call is under way, or the coroutine has returned.\<close>

definition serving ::
  "('q, 'rq, 'cq, hello_point, string list) ext \<Rightarrow> (hello_point \<Rightarrow> op_ptr) \<Rightarrow> thread \<Rightarrow> op_ptr \<Rightarrow>
   ('q, 'rq, 'cq, hello_point, string list) world \<Rightarrow> bool" where
  "serving E slot t sp w \<longleftrightarrow>
     (\<exists>pt. booted E t sp (slot pt) (hello_site pt) pt w) \<or>
     (\<exists>pt. queued E t sp (slot pt) OnScheduleComplete (hello_site pt) pt w) \<or>
     (\<exists>pt. queued E t sp (slot pt) OnRequestComplete (hello_site pt) pt w)"

lemma serving_round:
  assumes C: "coroutine_ext E slot hello_server" and sp: "\<And>pt. slot pt \<noteq> sp" and s: "serving E slot t sp w"
  shows "\<exists>n w1. ExecutePendingLocal E t w = Some (Inr (n, w1)) \<and> \<not> stopped (heap w1) sp \<and>
    (\<forall>b w2. AcquireCompletionQueueItems E (check_remote_queue E w1) = Some (b, w2) \<longrightarrow>
       b \<and> serving E slot t sp w2)"
proof -
  have E: "ext_ok E" and acc: "\<And>pt. accepts_calls E (slot pt)" using C by (simp_all add: coroutine_ext_def)
  have waits: "\<not> stopped (heap w1) sp \<and>
      (\<forall>b w2. AcquireCompletionQueueItems E (check_remote_queue E w1) = Some (b, w2) \<longrightarrow>
         b \<and> serving E slot t sp w2)"
    if "awaited E t sp (slot pt) (hello_site pt) pt w1" for pt w1
    using next_awaited [OF E that] that by (auto simp: serving_def)
  from s consider
      pt where "booted E t sp (slot pt) (hello_site pt) pt w"
    | pt where "queued E t sp (slot pt) OnScheduleComplete (hello_site pt) pt w"
    | pt where "queued E t sp (slot pt) OnRequestComplete (hello_site pt) pt w"
    unfolding serving_def by blast
  then show ?thesis
  proof cases
    case (1 pt)
    then have "ExecutePendingLocal E t w = Some (Inr (0, w))"
      by (intro batch_of_none [OF E]) (simp add: booted_def)
    with next_booted [OF E 1] 1 show ?thesis
      by (intro exI [of _ 0] exI [of _ w]) (auto simp: serving_def)
  next
    case (2 pt)
    obtain call where "run_sender (hello_site pt) (this_context w) (slot pt) = Inr call"
      using run_hello_site by blast
    from execute_scheduled [OF E 2 this acc] obtain w1 where
      w1: "execute_op E t (slot pt) (emptied E w) = Inr w1" "awaited E t sp (slot pt) (hello_site pt) pt w1"
      by blast
    then have "ExecutePendingLocal E t w = Some (Inr (1, w1))"
      using 2 batch_of_one [OF E, of w "slot pt" t] by (simp add: queued_def)
    with waits [OF w1(2)] show ?thesis by blast
  next
    case (3 pt)
    have batch: "ExecutePendingLocal E t w =
        Some (bind_res (execute_op E t (slot pt) (emptied E w)) (\<lambda>w'. Inr (1, w')))"
      using 3 by (intro batch_of_one [OF E]) (simp add: queued_def)
    from hello_server_cases [of pt "ok (event w)"] consider
        pt' where "hello_server pt (ok (event w)) = Call (hello_site pt') pt'"
      | "hello_server pt (ok (event w)) = Return []" by blast
    then show ?thesis
    proof cases
      case call: (1 pt')
      obtain c where "run_sender (hello_site pt') (this_context w) (slot pt') = Inr c"
        using run_hello_site by blast
      from execute_call [OF C 3 call sp this] obtain w1 where
        w1: "execute_op E t (slot pt) (emptied E w) = Inr w1" "awaited E t sp (slot pt') (hello_site pt') pt' w1"
        by blast
      then have "ExecutePendingLocal E t w = Some (Inr (1, w1))" using batch by simp
      with waits [OF w1(2)] show ?thesis by blast
    next
      case returned: 2
      from execute_return [OF C 3 returned] obtain w1 where
        w1: "execute_op E t (slot pt) (emptied E w) = Inr w1" "finished E t sp w1"
          "\<not> cq_down E (completion_queue w1)" by auto
      then have "ExecutePendingLocal E t w = Some (Inr (1, w1))" using batch by simp
      with after_finished [OF E w1(2)] w1(2,3) show ?thesis by (intro exI conjI) auto
    qed
  qed
qed

text \<open>
  C10. The hello world server never leaves \<^verbatim>\<open>Run\<close> and never faults, whatever its clients do: no check
  fails, no operation is used dead or constructed over a live one, and no call breaks the queue's
  contract. It either serves for ever or waits for ever in \<^verbatim>\<open>Next\<close>, also after its coroutine has
  returned, because nothing in the program shuts the queue down or requests a stop.
\<close>
theorem hello_server_serves_for_ever:
  assumes "coroutine_ext E slot hello_server" and "cq_tags E cq = {#}" and "\<not> cq_down E cq"
    and "tls t \<noteq> Some this" and "\<forall>pt. slot pt \<noteq> stop_op"
  shows "hello_server_main E t this tls cq stop_op slot = None"
proof -
  have E: "ext_ok E" using assms(1) by (simp add: coroutine_ext_def)
  obtain w where w: "booted E t stop_op (slot Hello_request) (hello_site Hello_request) Hello_request w"
    "hello_server_main E t this tls cq stop_op slot = leave t (tls t) stop_op (run_loop E t stop_op w)"
    using run_program_boots [where tls = tls and pt = Hello_request and s = "hello_site Hello_request",
        OF E assms(2,3,4) spec [OF assms(5), of Hello_request]]
    by (auto simp: hello_server_main_def)
  have "serving E slot t stop_op w" unfolding serving_def using w(1) by blast
  then have "run_loop E t stop_op w = None"
    using serving_round [OF assms(1)] assms(5) by (intro run_loop_diverges [of "serving E slot t stop_op"]) blast+
  with w(2) show ?thesis by (simp add: leave_def)
qed

theorem hello_server_serves_for_ever_witness:
  "hello_server_main
     (ref_libs (resume_receiver (\<lambda>pt. case pt of Hello_request \<Rightarrow> 1 | Hello_finish \<Rightarrow> 2) hello_server))
     0 7 (\<lambda>t. None) ([], False) 3 (\<lambda>pt. case pt of Hello_request \<Rightarrow> 1 | Hello_finish \<Rightarrow> 2) = None"
  by (rule hello_server_serves_for_ever)
    (simp_all add: coroutine_ext_def ref_libs_ok ref_accepts split: hello_point.split)

section \<open>The hello world client\<close>

text \<open>\<^verbatim>\<open>Next\<close> returns while an event is owed, and when the queue is shut down.\<close>

definition next_returns :: "('q, 'rq, 'cq, 'r, 'u) ext \<Rightarrow> bool" where
  "next_returns E \<longleftrightarrow> (\<forall>cq. cq_tags E cq \<noteq> {#} \<or> cq_down E cq \<longrightarrow> cq_next E cq \<noteq> None)"

text \<open>
  The flag with which gRPC completes the first call of a program: after the alarm was set, \<^verbatim>\<open>Next\<close> gives
  the alarm's event, the call is started, and \<^verbatim>\<open>Next\<close> gives its completion.
\<close>

definition call_report ::
  "('q, 'rq, 'cq, 'r, 'u) ext \<Rightarrow> 'cq \<Rightarrow> ctx_ref \<Rightarrow> sender \<Rightarrow> op_ptr \<Rightarrow> bool \<Rightarrow> bool" where
  "call_report E cq1 this s p flag \<longleftrightarrow>
     (\<exists>b cq2 call cq3 cq4. cq_next E cq1 = Some (Event None b, cq2) \<and> run_sender s this p = Inr call \<and>
        cq_start_call E cq2 call = Some cq3 \<and> cq_next E cq3 = Some (Event (Some p) flag, cq4))"

definition first_report ::
  "('q, 'rq, 'cq, 'r, 'u) ext \<Rightarrow> 'cq \<Rightarrow> ctx_ref \<Rightarrow> sender \<Rightarrow> op_ptr \<Rightarrow> bool \<Rightarrow> bool" where
  "first_report E cq this s p flag \<longleftrightarrow>
     (\<exists>cq1. cq_alarm_set E cq None = Some cq1 \<and> call_report E cq1 this s p flag)"

lemma acquires:
  assumes "next_returns E" and "cq_tags E (completion_queue w) \<noteq> {#} \<or> cq_down E (completion_queue w)"
  shows "\<exists>b w'. AcquireCompletionQueueItems E (check_remote_queue E w) = Some (b, w')"
proof -
  have "completion_queue (check_remote_queue E w) = completion_queue w"
    by (simp add: check_remote_queue_def TryScheduleRemoteQueuedItems_def ScheduleLocal_queue_def Let_def
        split: prod.split)
  then show ?thesis
    using assms unfolding next_returns_def AcquireCompletionQueueItems_def
    by (auto simp: Let_def split: option.split next_result.split)
qed

text \<open>The first two turns, and the last one of a coroutine that shuts the context down.\<close>

lemma two_turns:
  assumes E: "ext_ok E" and nx: "next_returns E" and b: "booted E t sp p s r w0"
    and calls: "\<And>ctx. \<exists>call. run_sender s ctx p = Inr call" and acc: "accepts_calls E p"
  shows "\<exists>w. run_loop E t sp w0 = run_loop E t sp w \<and> queued E t sp p OnRequestComplete s r w \<and>
    same_place w0 w \<and> call_report E (completion_queue w0) (this_context w0) s p (ok (event w))"
proof -
  obtain x w1 where got1: "AcquireCompletionQueueItems E (check_remote_queue E w0) = Some (x, w1)"
    using acquires [OF nx, of w0] b by (auto simp: booted_def)
  note w1 = next_booted [OF E b got1]
  have run1: "run_loop E t sp w0 = run_loop E t sp w1"
    using run_loop_none [OF E, of w0 t sp] w1 got1 b by (auto simp: after_batch_def booted_def)
  obtain call where call: "run_sender s (this_context w1) p = Inr call" using calls by blast
  then obtain w2 where w2: "execute_op E t p (emptied E w1) = Inr w2" "awaited E t sp p s r w2" "same_place w1 w2"
    "cq_start_call E (completion_queue w1) call = Some (completion_queue w2)"
    using execute_scheduled [OF E _ _ acc] w1 by blast
  obtain y w3 where got2: "AcquireCompletionQueueItems E (check_remote_queue E w2) = Some (y, w3)"
    using acquires [OF nx, of w2] w2(2) by (auto simp: awaited_def)
  note w3 = next_awaited [OF E w2(2) got2]
  have "run_loop E t sp w1 = run_loop E t sp w3"
    using run_loop_one [OF E, of w1 p t sp] w1 w2(1,2) w3 got2 by (auto simp: after_batch_def queued_def)
  moreover have "call_report E (completion_queue w0) (this_context w0) s p (ok (event w3))"
    using w1 w2(3,4) w3 call unfolding call_report_def by (auto simp: same_place_def)
  ultimately show ?thesis using run1 w1 w2(3) w3
    by (intro exI [of _ w3]) (auto simp: same_place_def)
qed

lemma returns_after_shutdown:
  assumes C: "coroutine_ext E slot resume" and nx: "next_returns E"
    and q: "queued E t sp p OnRequestComplete s r w"
    and res: "resume r (ok (event w)) = Return es" and down: "Shuts_down \<in> set es"
  shows "\<exists>w'. run_loop E t sp w = Some (Inr w') \<and> finished E t sp w' \<and> cq_down E (completion_queue w') \<and>
    current_thread_context w' = current_thread_context w \<and> client w' = client w @ lines_of es"
proof -
  have E: "ext_ok E" using C by (simp add: coroutine_ext_def)
  from execute_return [OF C q res] down obtain w1 where
    w1: "execute_op E t p (emptied E w) = Inr w1" "finished E t sp w1" "cq_down E (completion_queue w1)"
      "current_thread_context w1 = current_thread_context w" "client w1 = client w @ lines_of es" by blast
  obtain b w2 where got: "AcquireCompletionQueueItems E (check_remote_queue E w1) = Some (b, w2)"
    using acquires [OF nx, of w1] w1(3) by auto
  note w2 = after_finished [OF E w1(2) got]
  have "run_loop E t sp w = Some (Inr w2)"
    using run_loop_one [OF E, of w p t sp] q w1(1,2) got w2 by (simp add: after_batch_def queued_def)
  with w2 w1(4,5) show ?thesis by (intro exI [of _ w2]) (simp add: same_place_def)
qed

lemma run_loop_aborts:
  assumes C: "coroutine_ext E slot resume" and q: "queued E t sp p OnRequestComplete s r w"
    and res: "resume r (ok (event w)) = Check_fails"
  shows "run_loop E t sp w = Some (Inl Process_ended)"
proof -
  have "execute_op E t p (emptied E w) = Inl Process_ended"
    using execute_completed [OF C q] res by (simp add: resume_receiver_def)
  then show ?thesis
    using run_loop_one [of E w p t sp] C q by (simp add: queued_def coroutine_ext_def)
qed

text \<open>
  C9. The hello world client ends as gRPC reports its call, provided that \<^verbatim>\<open>Next\<close> returns while it owes an
  event or is shut down. If the call is reported as ok, the reply is logged once, and \<^verbatim>\<open>ShutDown\<close> in the
  coroutine makes \<^verbatim>\<open>Run\<close> return with the queue drained, no operation alive, no stop callback registered
  and the thread's former context restored. If it is reported as failed, the client's own check ends
  the process.
\<close>
theorem hello_client_returns:
  assumes "coroutine_ext E slot (hello_client reply)" and "cq_tags E cq = {#}" and "\<not> cq_down E cq"
    and "tls t \<noteq> Some this" and "slot Client_finish \<noteq> stop_op" and "next_returns E"
  shows "\<exists>flag. first_report E cq this (site AsyncFinish client_finish_args) (slot Client_finish) flag \<and>
    (if flag
     then \<exists>w. hello_client_main E t this tls cq stop_op slot = Some (Inr w) \<and>
       client w = [''Received: '' @ reply] \<and> cq_tags E (completion_queue w) = {#} \<and>
       cq_down E (completion_queue w) \<and> heap w = Map.empty \<and> iq_items E (local_queue w) = [] \<and>
       stop_callback w = None \<and> current_thread_context w = tls
     else hello_client_main E t this tls cq stop_op slot = Some (Inl Process_ended))"
proof -
  let ?p = "slot Client_finish" and ?s = "site AsyncFinish client_finish_args"
  have E: "ext_ok E" "accepts_calls E ?p" using assms(1) by (simp_all add: coroutine_ext_def)
  obtain w0 where w0: "booted E t stop_op ?p ?s Client_finish w0" "client w0 = []"
    "current_thread_context w0 = tls(t \<mapsto> this)"
    "hello_client_main E t this tls cq stop_op slot = leave t (tls t) stop_op (run_loop E t stop_op w0)"
    "cq_alarm_set E cq None = Some (completion_queue w0)" "this_context w0 = this"
    using run_program_boots [where tls = tls and pt = Client_finish and s = ?s, OF E(1) assms(2,3,4,5)]
    by (auto simp: hello_client_main_def)
  obtain w where w: "run_loop E t stop_op w0 = run_loop E t stop_op w"
    "queued E t stop_op ?p OnRequestComplete ?s Client_finish w" "same_place w0 w"
    "call_report E (completion_queue w0) this ?s ?p (ok (event w))"
    using two_turns [OF E(1) assms(6) w0(1) _ E(2)] w0(6) by (auto simp: example_calls)
  have rep: "first_report E cq this ?s ?p (ok (event w))"
    using w0(5) w(4) unfolding first_report_def by blast
  show ?thesis
  proof (cases "ok (event w)")
    case False
    then have "run_loop E t stop_op w = Some (Inl Process_ended)"
      by (intro run_loop_aborts [OF assms(1) w(2)]) simp
    then show ?thesis using w0(4) w(1) rep False by (intro exI [of _ False]) (simp add: leave_def)
  next
    case True
    then have "hello_client reply Client_finish (ok (event w)) =
        Return [Logs (''Received: '' @ reply), Shuts_down]" by simp
    from returns_after_shutdown [OF assms(1,6) w(2) this] show ?thesis
      using w0 w(1,3) rep True
      by (intro exI [of _ True])
        (auto simp: leave_def end_run_def enter_context_def release_def finished_def resting_def same_place_def)
  qed
qed

theorem hello_client_returns_witness:
  "\<exists>w. hello_client_main (ref_libs (resume_receiver (\<lambda>pt. 1) (hello_client (HandleRequest ''world''))))
     0 7 (\<lambda>t. None) ([], False) 3 (\<lambda>pt. 1) = Some (Inr w) \<and> client w = [''Received: Hello world'']"
proof -
  let ?E = "ref_libs (resume_receiver (\<lambda>pt :: client_point. 1) (hello_client (HandleRequest ''world'')))"
  have "ref_next cq \<noteq> None" if "fst cq \<noteq> [] \<or> snd cq" for cq
    using that by (cases cq; cases "fst cq") auto
  then have nx: "next_returns ?E"
    by (simp add: next_returns_def split_def)
  have "case hello_client_main ?E 0 7 (\<lambda>t. None) ([], False) 3 (\<lambda>pt. 1) of
      Some (Inr w) \<Rightarrow> True | _ \<Rightarrow> False"
    by code_simp
  then have "hello_client_main ?E 0 7 (\<lambda>t. None) ([], False) 3 (\<lambda>pt. 1) \<noteq> Some (Inl Process_ended)"
    by auto
  with hello_client_returns [of ?E "\<lambda>pt. 1" "HandleRequest ''world''" "([], False)" "\<lambda>t. None" 0 7 3] nx show ?thesis
    by (auto simp: coroutine_ext_def ref_libs_ok ref_accepts HandleRequest_def split: if_split_asm)
qed

end
