(* ===== verification/Run_Endings.thy ===== *)
theory Run_Endings
  imports Example_Runs Loop_Execution
begin

text \<open>
  How \<^verbatim>\<open>Run\<close> ends, and what that means for the end of the context's life. \<^verbatim>\<open>~GrpcContext()\<close> has an empty body: it destroys the members, the
  completion queue among them, and neither shuts it down nor drains it. Whether that is allowed
  depends on how \<^verbatim>\<open>Run\<close> ended. And a stop request after which it does not end.
\<close>

section \<open>The destructor\<close>

text \<open>
  The contract that gRPC documents for \<^verbatim>\<open>CompletionQueue\<close>: an instance may be destroyed only once it
  has been shut down and drained.
\<close>

definition cq_drained :: "('q, 'rq, 'cq, 'r, 'u) ext \<Rightarrow> 'cq \<Rightarrow> bool" where
  "cq_drained E cq \<longleftrightarrow> cq_down E cq \<and> cq_tags E cq = {#}"

definition GrpcContext_delete ::
  "('q, 'rq, 'cq, 'r, 'u) ext \<Rightarrow> ('q, 'rq, 'cq, 'r, 'u) world \<Rightarrow> unit res" where
  "GrpcContext_delete E w = (if cq_drained E (completion_queue w) then Inr () else Inl QueueMisuse)"

text \<open>The loop is left on a stop request or because \<^verbatim>\<open>Next\<close> has reported a drained queue.\<close>

lemma Acquire_drained:
  "ext_ok E \<Longrightarrow> AcquireCompletionQueueItems E w = Some (False, w') \<Longrightarrow> cq_drained E (completion_queue w')"
  by (auto simp: AcquireCompletionQueueItems_def cq_drained_def Let_def dest: cq_drainedD
      split: option.split_asm next_result.split_asm prod.split_asm)

lemma run_loop_exit:
  fixes E :: "('q, 'rq, 'cq, 'r, 'u) ext"
  assumes "ext_ok E" and "run_loop E t p w = Some (Inr w')"
  shows "stopped (heap w') p \<or> cq_drained E (completion_queue w')"
proof -
  have "ext_ok E' \<longrightarrow> y = Inr w' \<longrightarrow> stopped (heap w') p' \<or> cq_drained E' (completion_queue w')"
    if "run_loop E' t' p' v = Some y" for E' :: "('q, 'rq, 'cq, 'r, 'u) ext" and t' p' v y
    using that
  proof (induction rule: run_loop.raw_induct [rotated 1, consumes 1, case_names round])
    case (round rec E' t' p' v y)
    show ?case
    proof (intro impI)
      assume E: "ext_ok E'" and y: "y = Inr w'"
      obtain n w1 where ex: "ExecutePendingLocal E' t' v = Some (Inr (n, w1))"
        using round(2) y by (auto split: option.split_asm sum.split_asm prod.split_asm)
      show "stopped (heap w') p' \<or> cq_drained E' (completion_queue w')"
      proof (cases "stopped (heap w1) p'")
        case True
        then show ?thesis using round(2) ex y by simp
      next
        case False
        then obtain b w2 where aq: "AcquireCompletionQueueItems E' (check_remote_queue E' w1) = Some (b, w2)"
          using round(2) ex by (auto split: option.split_asm)
        show ?thesis
        proof (cases b)
          case True
          then show ?thesis using round(1) round(2) ex False aq y E by auto
        next
          case nb: False
          then have "w' = w2" using round(2) ex False aq y by simp
          then show ?thesis using Acquire_drained [OF E, of _ w2] aq nb by simp
        qed
      qed
    qed
  qed
  with assms show ?thesis by blast
qed

text \<open>
  A context that nobody has stopped can be destroyed when \<^verbatim>\<open>Run\<close> has returned: the only other way
  out of the loop is a queue that was shut down and has delivered everything it owed, which is what
  its destructor asks for.
\<close>
theorem drained_context_can_be_destroyed:
  assumes "ext_ok E" and "begin_run p w = Inr w0" and "RunImpl E t p w0 = Some (Inr w1)"
    and "\<not> stopped (heap w1) p"
  shows "Run E t p w = Some (Inr (end_run p w1)) \<and> GrpcContext_delete E (end_run p w1) = Inr ()"
proof -
  obtain w2 where "run_loop E t p (enter_context t (Some (this_context w0)) w0) = Some (Inr w2)"
    and "w1 = enter_context t (current_thread_context w0 t) w2"
    using assms(3) by (auto simp: RunImpl_def Let_def)
  with run_loop_exit [OF assms(1)] assms(4) have "cq_drained E (completion_queue (end_run p w1))"
    by (fastforce simp: enter_context_def end_run_def release_def)
  then show ?thesis
    using assms(2,3) by (simp add: Run_def GrpcContext_delete_def)
qed

theorem drained_context_can_be_destroyed_witness:
  "\<exists>w'. Run ref_ext 0 8 (wld at_closing) = Some (Inr w') \<and> GrpcContext_delete ref_ext w' = Inr () \<and>
     completion_queue w' = ([], True)"
proof -
  have "case begin_run 8 (wld at_closing) of Inl e \<Rightarrow> False | Inr w0 \<Rightarrow>
      (case RunImpl ref_ext 0 8 w0 of None \<Rightarrow> False | Some r \<Rightarrow>
        (case r of Inl e \<Rightarrow> False
         | Inr w1 \<Rightarrow> \<not> stopped (heap w1) 8 \<and> completion_queue w1 = ([], True)))"
    unfolding demo_defs closing_moves_def at_closing_def by code_simp
  then obtain w0 w1 where w: "begin_run 8 (wld at_closing) = Inr w0" "RunImpl ref_ext 0 8 w0 = Some (Inr w1)"
    "\<not> stopped (heap w1) 8" "completion_queue w1 = ([], True)"
    by (cases "begin_run 8 (wld at_closing)"; simp only: sum.case)
      (auto split: option.split_asm sum.split_asm)
  from drained_context_can_be_destroyed [OF ref_ok w(1-3)] w(4) show ?thesis
    by (intro exI [of _ "end_run 8 w1"]) (simp add: end_run_def release_def)
qed

text \<open>A continuation that starts another call and then requests a stop.\<close>

definition at_stopping :: "(op_ptr list, queue_view, ref_cq, script, nat) sys" where
  "at_stopping = the (demo_run (Script [Await 6 demo_sender quiet_receiver, RequestStop] False) closing_moves)"

lemma at_stopping_reachable: "reachable ref_ext at_stopping" "pc at_stopping = Outside"
proof -
  have "demo_run (Script [Await 6 demo_sender quiet_receiver, RequestStop] False) closing_moves \<noteq> None"
    unfolding demo_defs closing_moves_def by code_simp
  then show "reachable ref_ext at_stopping" unfolding at_stopping_def by (rule demo_the)
  show "pc at_stopping = Outside" unfolding demo_defs closing_moves_def at_stopping_def by code_simp
qed

text \<open>
  C23. A context that was stopped cannot be destroyed: there is an execution in which \<^verbatim>\<open>Run\<close> returns on
  a stop request, with every operation completed, no item left in the local queue and no event owed,
  and the destructor of the context still breaks the completion queue's contract, because nothing
  has shut it down.
\<close>
theorem stopped_context_breaks_destructor:
  "\<exists>s w'. reachable ref_ext s \<and> pc s = Outside \<and> Run ref_ext 0 8 (wld s) = Some (Inr w') \<and>
     delivered (history w') = [(5, True), (6, True)] \<and> local_queue w' = [] \<and>
     cq_tags ref_ext (completion_queue w') = {#} \<and> GrpcContext_delete ref_ext w' = Inl QueueMisuse"
proof -
  have "case Run ref_ext 0 8 (wld at_stopping) of None \<Rightarrow> False | Some r \<Rightarrow>
      (case r of Inl e \<Rightarrow> False | Inr w' \<Rightarrow> local_queue w' = [] \<and> completion_queue w' = ([], False) \<and>
        delivered (history w') = [(5, True), (6, True)])"
    unfolding demo_defs closing_moves_def at_stopping_def by code_simp
  then obtain w' where w': "Run ref_ext 0 8 (wld at_stopping) = Some (Inr w')" "local_queue w' = []"
    "completion_queue w' = ([], False)" "delivered (history w') = [(5, True), (6, True)]"
    by (auto split: option.split_asm sum.split_asm)
  with at_stopping_reachable show ?thesis
    by (intro exI [of _ at_stopping] exI [of _ w']) (simp add: GrpcContext_delete_def cq_drained_def)
qed

section \<open>A stop request that hangs the loop\<close>

lemma next_blocks:
  assumes E: "ext_ok E" and "cq_tags E cq = {#}" and "\<not> cq_down E cq"
  shows "cq_next E cq = None"
proof (rule ccontr)
  assume "cq_next E cq \<noteq> None"
  then obtain ev cq' where nx: "cq_next E cq = Some (ev, cq')" by auto
  then show False
    using cq_nextD(1) [OF E] cq_drainedD(2) [OF E] assms(2,3) by (cases ev) fastforce+
qed

text \<open>
  C6. A continuation that requests a stop hangs the loop: when the only operation left completes and its
  continuation asks the stop source to stop, the stop operation is put into the local queue, behind
  the batch that is being executed; the loop then calls \<^verbatim>\<open>Next\<close> before it looks at that queue again,
  and as nothing is owed \<^verbatim>\<open>Run\<close> never returns.
\<close>
theorem stop_from_continuation_hangs:
  assumes "ext_ok E" and "queued E t sp p OnRequestComplete s r w"
    and "rcv_set_value E r (ok (event w)) (client w) = ([RequestStop], False, u)"
  shows "run_loop E t sp w = None"
proof -
  define w1 where "w1 = release p ((emptied E w)\<lparr>client := u,
    history := history w @ [Set_value p (ok (event w))]\<rparr>)"
  define w2 where "w2 = ScheduleLocal E sp (w1\<lparr>stop_callback := None\<rparr>)"
  have h: "heap w1 = [sp \<mapsto> new_stop_operation]"
    unfolding w1_def using assms(2) by (intro release_only_op [of sp p OnRequestComplete s r w])
      (simp_all add: queued_def emptied_def)
  have w1: "IsRunningOnThisThread t w1" "stop_callback w1 = Some sp" "remote_idle E w1"
    "cq_tags E (completion_queue w1) = {#}" "\<not> cq_down E (completion_queue w1)"
    using assms(2) by (simp_all add: w1_def emptied_def release_def phase_defs IsRunningOnThisThread_def)
  have "execute_op E t p (emptied E w) = perform_all E t [RequestStop] w1"
    using assms(2,3) by (simp add: execute_op_def complete_def phase_defs emptied_def w1_def Let_def)
  also have "\<dots> = Inr w2"
    using w1(1,2) by (simp add: on_stop_requested_def ScheduleImpl_def w2_def IsRunningOnThisThread_def)
  finally have run: "run_loop E t sp w = after_batch E t sp w2"
    using run_loop_one [OF assms(1), of w p t sp] assms(2) by (simp add: queued_def)
  have "\<not> stopped (heap w2) sp"
    by (simp add: w2_def ScheduleLocal_def h stopped_def new_stop_operation_def)
  moreover have "AcquireCompletionQueueItems E (check_remote_queue E w2) = None"
  proof -
    have "remote_idle E w2" using w1(3) by (simp add: w2_def ScheduleLocal_def remote_idle_def)
    then obtain rq where "check_remote_queue E w2 = w2\<lparr>remote_queue := rq, remote_queue_read_submitted := True\<rparr>"
      using check_idle [OF assms(1)] by blast
    moreover have "cq_next E (completion_queue w2) = None"
      using next_blocks [OF assms(1) w1(4,5)] by (simp add: w2_def ScheduleLocal_def)
    ultimately show ?thesis by (simp add: AcquireCompletionQueueItems_def)
  qed
  ultimately show ?thesis using run by (simp add: after_batch_def)
qed

definition hanging :: "(op_ptr list, queue_view, ref_cq, script, nat) world" where
  "hanging = (GrpcContext_new ref_ext 7 [0 \<mapsto> 7] ([], False) 0)
     \<lparr>heap := [8 \<mapsto> new_stop_operation,
        5 \<mapsto> \<lparr>execute = Some OnRequestComplete, body = AsyncOperation demo_sender (Script [RequestStop] False)\<rparr>],
      stop_callback := Some 8, local_queue := [5], remote_queue_read_submitted := True\<rparr>"

theorem stop_from_continuation_hangs_witness:
  "local_queue hanging = [5] \<and> run_loop ref_ext 0 8 hanging = None"
proof -
  have "queued ref_ext 0 8 5 OnRequestComplete demo_sender (Script [RequestStop] False) hanging"
    by (simp add: phase_defs hanging_def GrpcContext_new_def IsRunningOnThisThread_def)
  from stop_from_continuation_hangs [OF ref_ok this, of 1] show ?thesis
    by (simp add: hanging_def GrpcContext_new_def)
qed

end
