(* ===== verification/Stream_Runs.thy ===== *)
theory Stream_Runs
  imports Example_Runs
begin

text \<open>
  The streaming server as a whole program, from the construction of its context to the end: what
  one turn of the loop does for a coroutine whose call has been completed, whether gRPC delivers
  the next completion or lets the loop wait for ever, and where that leads the server.
\<close>

section \<open>Turns that may wait for ever\<close>

text \<open>A call that is under way: the loop gets its completion or waits in \<^verbatim>\<open>Next\<close> for ever.\<close>

lemma after_awaited:
  assumes E: "ext_ok E" and a: "awaited E t sp p s r w"
  shows "after_batch E t sp w = None \<and> \<not> next_returns E \<or>
    (\<exists>w'. after_batch E t sp w = run_loop E t sp w' \<and> queued E t sp p OnRequestComplete s r w' \<and>
       (\<exists>cq'. cq_next E (completion_queue w) = Some (Event (Some p) (ok (event w')), cq')))"
proof (cases "AcquireCompletionQueueItems E (check_remote_queue E w)")
  case None
  then have "\<not> next_returns E" using acquires [of E w] a by (auto simp: awaited_def)
  with None a show ?thesis by (simp add: after_batch_def)
next
  case (Some res)
  then obtain b w' where got: "AcquireCompletionQueueItems E (check_remote_queue E w) = Some (b, w')"
    by (cases res) auto
  from next_awaited [OF E a got] got a show ?thesis by (auto simp: after_batch_def)
qed

text \<open>The coroutine makes another call.\<close>

lemma run_loop_call:
  assumes C: "coroutine_ext E slot resume" and q: "queued E t sp p OnRequestComplete s r w"
    and res: "resume r (ok (event w)) = Call s' r'" and "slot r' \<noteq> sp"
    and call: "run_sender s' (this_context w) (slot r') = Inr call"
  shows "run_loop E t sp w = None \<and> \<not> next_returns E \<or>
    (\<exists>w'. run_loop E t sp w = run_loop E t sp w' \<and> queued E t sp (slot r') OnRequestComplete s' r' w')"
proof -
  have E: "ext_ok E" using C by (simp add: coroutine_ext_def)
  obtain w1 where w1: "execute_op E t p (emptied E w) = Inr w1" "awaited E t sp (slot r') s' r' w1"
    using execute_call [OF C q res assms(4) call] by blast
  then have "run_loop E t sp w = after_batch E t sp w1"
    using run_loop_one [OF E, of w p t sp] q by (simp add: queued_def)
  with after_awaited [OF E w1(2)] show ?thesis by auto
qed

text \<open>The coroutine returns and leaves the queue open.\<close>

lemma run_loop_returned:
  assumes C: "coroutine_ext E slot resume" and q: "queued E t sp p OnRequestComplete s r w"
    and res: "resume r (ok (event w)) = Return es" and "Shuts_down \<notin> set es"
  shows "run_loop E t sp w = None"
proof -
  have E: "ext_ok E" using C by (simp add: coroutine_ext_def)
  obtain w1 where w1: "execute_op E t p (emptied E w) = Inr w1" "finished E t sp w1"
    "\<not> cq_down E (completion_queue w1)"
    using execute_return [OF C q res] assms(4) by blast
  have "AcquireCompletionQueueItems E (check_remote_queue E w1) = None"
    using after_finished [OF E w1(2)] w1(3) by (metis not_None_eq surj_pair)
  then show ?thesis
    using run_loop_one [OF E, of w p t sp] q w1(1,2) by (simp add: queued_def after_batch_def)
qed

lemma run_loop_undefined:
  assumes C: "coroutine_ext E slot resume" and q: "queued E t sp p OnRequestComplete s r w"
    and res: "resume r (ok (event w)) = Undefined"
  shows "run_loop E t sp w = Some (Inl Undefined_behaviour)"
proof -
  have "execute_op E t p (emptied E w) = Inl Undefined_behaviour"
    using execute_completed [OF C q] res by (simp add: resume_receiver_def)
  then show ?thesis using run_loop_one [of E w p t sp] C q by (simp add: queued_def coroutine_ext_def)
qed

text \<open>The alarm and the start of the first call.\<close>

lemma run_loop_booted:
  assumes E: "ext_ok E" and b: "booted E t sp p s r w"
    and calls: "\<And>ctx. \<exists>call. run_sender s ctx p = Inr call" and acc: "accepts_calls E p"
  shows "run_loop E t sp w = None \<and> \<not> next_returns E \<or>
    (\<exists>w'. run_loop E t sp w = run_loop E t sp w' \<and> queued E t sp p OnRequestComplete s r w' \<and>
       call_report E (completion_queue w) (this_context w) s p (ok (event w')))"
proof -
  have run: "run_loop E t sp w = after_batch E t sp w"
    using run_loop_none [OF E] b by (simp add: booted_def)
  show ?thesis
  proof (cases "AcquireCompletionQueueItems E (check_remote_queue E w)")
    case None
    then have "\<not> next_returns E" using acquires [of E w] b by (auto simp: booted_def)
    with None b run show ?thesis by (simp add: after_batch_def)
  next
    case (Some res)
    then obtain x w1 where got: "AcquireCompletionQueueItems E (check_remote_queue E w) = Some (x, w1)"
      by (cases res) auto
    note w1 = next_booted [OF E b got]
    obtain call where call: "run_sender s (this_context w1) p = Inr call" using calls by blast
    then obtain w2 where w2: "execute_op E t p (emptied E w1) = Inr w2" "awaited E t sp p s r w2"
      "cq_start_call E (completion_queue w1) call = Some (completion_queue w2)"
      using execute_scheduled [OF E _ _ acc] w1 by blast
    have report: "call_report E (completion_queue w) (this_context w) s p flag"
      if "cq_next E (completion_queue w2) = Some (Event (Some p) flag, cq4)" for flag cq4
      using that w1 w2(3) call unfolding call_report_def by (auto simp: same_place_def)
    have "run_loop E t sp w = after_batch E t sp w2"
      using run run_loop_one [OF E, of w1 p t sp] w1 w2(1) got b by (simp add: after_batch_def queued_def)
    with after_awaited [OF E w2(2)] report show ?thesis by metis
  qed
qed

section \<open>The streaming server\<close>

fun stream_site :: "stream_point \<Rightarrow> sender" where
  "stream_site Stream_request = site AsyncRequest stream_request_args"
| "stream_site Stream_first = site AsyncWrite stream_write_args"
| "stream_site Stream_second = site AsyncWrite stream_write_args"
| "stream_site Stream_finish = site AsyncFinish stream_finish_args"

lemma run_stream_site: "\<exists>call. run_sender (stream_site pt) ctx p = Inr call"
  by (cases pt) (simp_all add: example_calls)

definition stream_server_main ::
  "('q, 'rq, 'cq, stream_point, string list) ext \<Rightarrow> thread \<Rightarrow> ctx_ref \<Rightarrow> (thread \<Rightarrow> ctx_ref option) \<Rightarrow>
   'cq \<Rightarrow> op_ptr \<Rightarrow> (stream_point \<Rightarrow> op_ptr) \<Rightarrow> ('q, 'rq, 'cq, stream_point, string list) world res option" where
  "stream_server_main E t this tls cq stop_op slot =
     run_program E t this tls cq stop_op (slot Stream_request) (site AsyncRequest stream_request_args) Stream_request"

text \<open>The two writes, and what comes after them.\<close>

lemma after_first_write:
  assumes C: "coroutine_ext E slot stream_server" and sp: "\<And>pt. slot pt \<noteq> sp"
    and q: "queued E t sp (slot Stream_first) OnRequestComplete s Stream_first w"
  shows "run_loop E t sp w = None \<and> \<not> next_returns E \<or> run_loop E t sp w = Some (Inl Undefined_behaviour)"
proof -
  have res: "stream_server Stream_first (ok (event w)) = Call (stream_site Stream_second) Stream_second" by simp
  obtain call where "run_sender (stream_site Stream_second) (this_context w) (slot Stream_second) = Inr call"
    using run_stream_site by blast
  from run_loop_call [OF C q res sp this] show ?thesis
    using run_loop_undefined [OF C] by fastforce
qed

text \<open>
  C13. The streaming server never finishes a call. Whatever gRPC does, its \<^verbatim>\<open>Run\<close> does not return: the
  loop waits in \<^verbatim>\<open>Next\<close> for ever, or the first request, when gRPC reports it as accepted, drives the
  process into undefined behaviour, because \<^verbatim>\<open>HandleRequest\<close> flows off its end after its second write.
  When \<^verbatim>\<open>Next\<close> returns every event that is owed, the report of the first request decides: undefined
  behaviour if it is accepted, whatever the two writes report, and waiting for ever if it is refused.
\<close>
theorem stream_server_ends_undefined:
  assumes "coroutine_ext E slot stream_server" and "cq_tags E cq = {#}" and "\<not> cq_down E cq"
    and "tls t \<noteq> Some this" and "\<forall>pt. slot pt \<noteq> stop_op"
  shows "(stream_server_main E t this tls cq stop_op slot = None \<or>
      stream_server_main E t this tls cq stop_op slot = Some (Inl Undefined_behaviour) \<and>
      first_report E cq this (site AsyncRequest stream_request_args) (slot Stream_request) True) \<and>
    (next_returns E \<longrightarrow>
      (\<exists>accepted. first_report E cq this (site AsyncRequest stream_request_args) (slot Stream_request) accepted \<and>
         stream_server_main E t this tls cq stop_op slot =
           (if accepted then Some (Inl Undefined_behaviour) else None)))"
proof -
  define main where "main = stream_server_main E t this tls cq stop_op slot"
  define reported where
    "reported = first_report E cq this (site AsyncRequest stream_request_args) (slot Stream_request)"
  have E: "ext_ok E" and acc: "accepts_calls E (slot Stream_request)"
    using assms(1) by (simp_all add: coroutine_ext_def)
  have sp: "slot pt \<noteq> stop_op" for pt using assms(5) by simp
  obtain w0 where w0: "booted E t stop_op (slot Stream_request) (stream_site Stream_request) Stream_request w0"
    "main = leave t (tls t) stop_op (run_loop E t stop_op w0)"
    "cq_alarm_set E cq None = Some (completion_queue w0)" "this_context w0 = this"
    using run_program_boots [where tls = tls and pt = Stream_request and s = "stream_site Stream_request",
        OF E assms(2,3,4) sp]
    by (auto simp: stream_server_main_def main_def)
  have ends: "run_loop E t stop_op w0 = None \<and> \<not> next_returns E \<or>
      run_loop E t stop_op w0 = Some (Inl Undefined_behaviour) \<and> reported True \<or>
      run_loop E t stop_op w0 = None \<and> reported False"
    using run_loop_booted [OF E w0(1) run_stream_site acc]
  proof (elim disjE exE conjE)
    fix w
    assume eq: "run_loop E t stop_op w0 = run_loop E t stop_op w"
      and rep: "call_report E (completion_queue w0) (this_context w0) (stream_site Stream_request)
        (slot Stream_request) (ok (event w))"
      and q: "queued E t stop_op (slot Stream_request) OnRequestComplete (stream_site Stream_request) Stream_request w"
    have rep: "reported (ok (event w))"
      using rep w0(3,4) unfolding reported_def first_report_def by auto
    show ?thesis
    proof (cases "ok (event w)")
      case True
      then have res: "stream_server Stream_request (ok (event w)) = Call (stream_site Stream_first) Stream_first"
        by simp
      obtain call where "run_sender (stream_site Stream_first) (this_context w) (slot Stream_first) = Inr call"
        using run_stream_site by blast
      from run_loop_call [OF assms(1) q res sp this] show ?thesis
        using after_first_write [OF assms(1) sp] eq rep True by fastforce
    next
      case False
      then show ?thesis using run_loop_returned [OF assms(1) q, of "[]"] eq rep by simp
    qed
  qed simp_all
  have "leave t (tls t) stop_op None = None"
    "leave t (tls t) stop_op (Some (Inl Undefined_behaviour)) = Some (Inl Undefined_behaviour)"
    by (simp_all add: leave_def)
  with ends w0(2) have "(main = None \<or> main = Some (Inl Undefined_behaviour) \<and> reported True) \<and>
      (next_returns E \<longrightarrow>
        (\<exists>accepted. reported accepted \<and> main = (if accepted then Some (Inl Undefined_behaviour) else None)))"
    by (metis (full_types))
  then show ?thesis unfolding main_def reported_def .
qed

theorem stream_server_ends_undefined_witness:
  "stream_server_main (ref_libs (resume_receiver (\<lambda>pt. 1) stream_server)) 0 7 (\<lambda>t. None) ([], False) 3 (\<lambda>pt. 1)
     = Some (Inl Undefined_behaviour)"
proof -
  let ?E = "ref_libs (resume_receiver (\<lambda>pt :: stream_point. 1) stream_server)"
  let ?main = "stream_server_main ?E 0 7 (\<lambda>t. None) ([], False) 3 (\<lambda>pt. 1)"
  have "case ?main of None \<Rightarrow> False | Some r \<Rightarrow> True" by code_simp
  then have ne: "?main \<noteq> None" by (auto split: option.split_asm)
  have "coroutine_ext ?E (\<lambda>pt. 1) stream_server" by (simp add: coroutine_ext_def ref_libs_ok ref_accepts)
  from stream_server_ends_undefined [OF this, of "([], False)" "\<lambda>t. None" 0 7 3] have
    "?main = None \<or> ?main = Some (Inl Undefined_behaviour)" by auto
  with ne show ?thesis by argo
qed

end
