(* ===== verification/Coroutine_System.thy ===== *)
theory Coroutine_System
  imports Example_Runs Context_Properties
begin

text \<open>
  Several coroutines on one context, among threads. Every coroutine is started by some thread once,
  at its first place; from then on its calls are made on the loop's thread. The theory shows that
  they do not disturb each other: whatever the schedule, each one has received the flags of its own
  completions and waits where its own protocol says, with exactly one operation alive.
\<close>

section \<open>Live operations\<close>

text \<open>The calls of the live RPC operations and the places that wait for them, by address.\<close>

definition calls_at :: "('q, 'rq, 'cq, 'p, 'u) world \<Rightarrow> op_ptr \<Rightarrow> (sender \<times> 'p) option" where
  "calls_at w q =
     (case heap w q of
       None \<Rightarrow> None
     | Some op \<Rightarrow> (case body op of StopOperation b \<Rightarrow> None | AsyncOperation s pt \<Rightarrow> Some (s, pt)))"

definition waits_at :: "('q, 'rq, 'cq, 'p, 'u) world \<Rightarrow> op_ptr \<Rightarrow> 'p option" where
  "waits_at w q = map_option snd (calls_at w q)"

definition stop_at :: "('q, 'rq, 'cq, 'p, 'u) world \<Rightarrow> op_ptr \<Rightarrow> bool" where
  "stop_at w q \<longleftrightarrow> (\<exists>op. heap w q = Some op \<and> is_stop_body (body op))"

lemma stop_not_waiting: "stop_at w q \<Longrightarrow> waits_at w q = None"
  by (auto simp: stop_at_def waits_at_def calls_at_def split: op_body.split)

text \<open>What most steps keep: the calls, the stop operations and the delivered flags.\<close>

definition keeps :: "('q, 'rq, 'cq, 'p, 'u) world \<Rightarrow> ('q, 'rq, 'cq, 'p, 'u) world \<Rightarrow> bool" where
  "keeps w w' \<longleftrightarrow> calls_at w' = calls_at w \<and> (\<forall>q. stop_at w q \<longrightarrow> stop_at w' q) \<and>
     delivered (history w') = delivered (history w)"

lemma keepsI: "heap w' = heap w \<Longrightarrow> delivered (history w') = delivered (history w) \<Longrightarrow> keeps w w'"
  by (simp add: keeps_def calls_at_def stop_at_def fun_eq_iff)

lemma keeps_waits: "keeps w w' \<Longrightarrow> waits_at w' = waits_at w"
  by (simp add: keeps_def waits_at_def fun_eq_iff)

lemma keeps_refl [simp]: "keeps w w"
  by (simp add: keepsI)

lemma keeps_trans: "keeps w1 w2 \<Longrightarrow> keeps w2 w3 \<Longrightarrow> keeps w1 w3"
  by (simp add: keeps_def)

lemma ShutDown_keeps [simp]: "keeps w (ShutDown E w)"
  by (simp add: ShutDown_def keepsI)

lemma check_remote_keeps [simp]: "keeps w (check_remote_queue E w)"
  by (rule keepsI)
    (simp_all add: check_remote_queue_def TryScheduleRemoteQueuedItems_def ScheduleLocal_queue_def Let_def
      split: prod.split)

lemma Acquire_keeps: "AcquireCompletionQueueItems E w = Some (b, w') \<Longrightarrow> keeps w w'"
  by (rule keepsI)
    (auto simp: AcquireCompletionQueueItems_def ScheduleLocal_def Let_def
      split: option.split_asm next_result.split_asm prod.split_asm)

lemma enqueue_keeps [simp]: "keeps w (wld (enqueue_from E i p s w))"
  by (rule keepsI) (simp_all add: enqueue_from_def remote_enqueue_def Let_def split: prod.split)

lemma progress_keeps [simp]: "keeps w (w\<lparr>completion_queue := cq\<rparr>)"
  by (rule keepsI) simp_all

lemma thread_local_keeps [simp]: "keeps w (w\<lparr>current_thread_context := tls\<rparr>)"
  by (rule keepsI) simp_all

lemma Signal_keeps: "SignalRemoteQueue E w = Inr w' \<Longrightarrow> keeps w w'"
  by (rule keepsI) (auto simp: SignalRemoteQueue_def split: option.split_asm)

lemma StartAsyncRPC_keeps:
  assumes "ext_ok E" and "StartAsyncRPC E t p w = Inr w'"
  shows "keeps w w'"
proof -
  obtain op cq where op: "heap w p = Some op" "\<not> is_stop_body (body op)"
    and w': "w' = w\<lparr>heap := (heap w)(p \<mapsto> op\<lparr>execute := Some OnRequestComplete\<rparr>), completion_queue := cq\<rparr>"
    using StartAsyncRPC_Inr [OF assms] by blast
  from op show ?thesis
    unfolding w' by (auto simp: keeps_def calls_at_def stop_at_def fun_eq_iff split: op_body.split)
qed

text \<open>An operation that becomes live, and one that dies.\<close>

lemma calls_at_place:
  assumes "place p (new_async_operation s pt) w = Inr w'"
  shows "calls_at w' = (calls_at w)(p \<mapsto> (s, pt)) \<and> waits_at w' = (waits_at w)(p \<mapsto> pt) \<and>
    (\<forall>q. stop_at w q \<longrightarrow> stop_at w' q) \<and> history w' = history w"
  using assms
  by (auto simp: place_def new_async_operation_def calls_at_def waits_at_def stop_at_def fun_eq_iff
      split: if_split_asm)

lemma calls_at_release:
  "calls_at (release p w) = (calls_at w)(p := None)" "waits_at (release p w) = (waits_at w)(p := None)"
  "history (release p w) = history w"
  by (simp_all add: release_def calls_at_def waits_at_def fun_eq_iff)

lemma stop_at_release: "stop_at w q \<Longrightarrow> q \<noteq> p \<Longrightarrow> stop_at (release p w) q"
  by (simp add: release_def stop_at_def)

lemma ScheduleRemote_keeps: "ScheduleRemote E p w = Inr w' \<Longrightarrow> keeps w w'"
  by (rule keepsI) (auto simp: ScheduleRemote_def remote_enqueue_def SignalRemoteQueue_def Let_def
      split: prod.split_asm if_split_asm option.split_asm)

lemma start_operation_keeps:
  assumes "ext_ok E" and "start_operation E t p w = Inr w'"
  shows "keeps w w'"
proof (cases "IsRunningOnThisThread t w")
  case True
  then show ?thesis using assms StartAsyncRPC_keeps by (simp add: start_operation_def)
next
  case False
  then obtain w1 where w1: "mark_scheduled p w = Inr w1" "ScheduleRemote E p w1 = Inr w'"
    using assms(2) by (auto simp: start_operation_def)
  have "keeps w w1"
    using w1(1) by (auto simp: mark_scheduled_def keeps_def calls_at_def stop_at_def fun_eq_iff
        split: option.split_asm)
  moreover have "keeps w1 w'" using ScheduleRemote_keeps [OF w1(2)] .
  ultimately show ?thesis by (rule keeps_trans)
qed

lemma perform_effects_keeps:
  "perform_all E t (actions_of es) w = Inr w' \<Longrightarrow> keeps w w'"
  by (induction es arbitrary: w rule: actions_of.induct) (auto intro: keeps_trans [OF ShutDown_keeps])

section \<open>The system\<close>

text \<open>
  The addresses of operations say whose they are: \<open>owner\<close> gives the coroutine, and a coroutine's
  next call is in its own frame. \<open>first\<close> is the place of a coroutine's first call.
\<close>

definition flags_of :: "(op_ptr \<Rightarrow> nat) \<Rightarrow> nat \<Rightarrow> observation list \<Rightarrow> bool list" where
  "flags_of owner c h = map snd (filter (\<lambda>(p, flag). owner p = c) (delivered h))"

text \<open>
  What is started by threads: every start is the first call of a coroutine that was not started
  before. \<open>cs\<close> are the coroutines started so far.
\<close>

fun starts_once ::
  "('p \<Rightarrow> op_ptr) \<Rightarrow> ('p \<Rightarrow> sender) \<Rightarrow> (op_ptr \<Rightarrow> nat) \<Rightarrow> (nat \<Rightarrow> 'p) \<Rightarrow> nat list \<Rightarrow> ('cq, 'p) move list \<Rightarrow>
   bool" where
  "starts_once slot site_of owner first cs [] \<longleftrightarrow> True"
| "starts_once slot site_of owner first cs (Start i p sd pt # ms) \<longleftrightarrow>
     pt = first (owner p) \<and> sd = site_of pt \<and> slot pt = p \<and> owner p \<notin> set cs \<and>
     starts_once slot site_of owner first (owner p # cs) ms"
| "starts_once slot site_of owner first cs (m # ms) \<longleftrightarrow> starts_once slot site_of owner first cs ms"

fun started :: "(op_ptr \<Rightarrow> nat) \<Rightarrow> ('cq, 'p) move list \<Rightarrow> nat list" where
  "started owner [] = []"
| "started owner (Start i p sd pt # ms) = owner p # started owner ms"
| "started owner (m # ms) = started owner ms"

locale coroutine_program =
  fixes slot :: "'p \<Rightarrow> op_ptr"
    and resume :: "'p \<Rightarrow> bool \<Rightarrow> 'p resumed"
    and site_of :: "'p \<Rightarrow> sender"
    and owner :: "op_ptr \<Rightarrow> nat"
    and first :: "nat \<Rightarrow> 'p"
  assumes own_frame: "resume pt flag = Call s pt' \<Longrightarrow> owner (slot pt') = owner (slot pt)"
    and own_site: "resume pt flag = Call s pt' \<Longrightarrow> s = site_of pt'"
begin

definition now_at :: "nat \<Rightarrow> ('q, 'rq, 'cq, 'p, string list) world \<Rightarrow> 'p option" where
  "now_at c w = co_place resume (first c) (flags_of owner c (history w))"

text \<open>
  Every live RPC operation is the one its coroutine waits for, every started coroutine that waits
  has its operation, nothing has been delivered to one that was not started, and every live
  operation makes the call that is written at the place that waits for it.
\<close>

definition on_protocol :: "nat list \<Rightarrow> ('q, 'rq, 'cq, 'p, string list) world \<Rightarrow> bool" where
  "on_protocol cs w \<longleftrightarrow>
     (\<forall>q pt. waits_at w q = Some pt \<longrightarrow> slot pt = q \<and> owner q \<in> set cs \<and> now_at (owner q) w = Some pt) \<and>
     (\<forall>c \<in> set cs. \<forall>pt. now_at c w = Some pt \<longrightarrow> owner (slot pt) = c \<and> waits_at w (slot pt) = Some pt) \<and>
     (\<forall>(p, flag) \<in> set (delivered (history w)). owner p \<in> set cs) \<and>
     (\<forall>q s pt. calls_at w q = Some (s, pt) \<longrightarrow> s = site_of pt)"

lemma on_protocolD:
  assumes "on_protocol cs w"
  shows "waits_at w q = Some pt \<Longrightarrow> slot pt = q" "waits_at w q = Some pt \<Longrightarrow> owner q \<in> set cs"
    "waits_at w q = Some pt \<Longrightarrow> now_at (owner q) w = Some pt"
    "c \<in> set cs \<Longrightarrow> now_at c w = Some pt \<Longrightarrow> owner (slot pt) = c \<and> waits_at w (slot pt) = Some pt"
    "(p, flag) \<in> set (delivered (history w)) \<Longrightarrow> owner p \<in> set cs"
    "calls_at w q = Some (s, pt) \<Longrightarrow> s = site_of pt"
  using assms unfolding on_protocol_def by blast+

lemma on_protocolI:
  assumes "\<And>q pt. waits_at w q = Some pt \<Longrightarrow>
      slot pt = q \<and> owner q \<in> set cs \<and> now_at (owner q) w = Some pt"
    and "\<And>c pt. c \<in> set cs \<Longrightarrow> now_at c w = Some pt \<Longrightarrow>
      owner (slot pt) = c \<and> waits_at w (slot pt) = Some pt"
    and "\<And>p flag. (p, flag) \<in> set (delivered (history w)) \<Longrightarrow> owner p \<in> set cs"
    and "\<And>q s pt. calls_at w q = Some (s, pt) \<Longrightarrow> s = site_of pt"
  shows "on_protocol cs w"
  using assms unfolding on_protocol_def by blast

lemma on_protocol_keeps: "keeps w w' \<Longrightarrow> on_protocol cs w \<Longrightarrow> on_protocol cs w'"
  using keeps_waits [of w w'] by (simp add: keeps_def on_protocol_def now_at_def flags_of_def)

lemma flags_of_delivered:
  "delivered h' = delivered h @ [(p, flag)] \<Longrightarrow>
   flags_of owner c h' = (if owner p = c then flags_of owner c h @ [flag] else flags_of owner c h)"
  by (simp add: flags_of_def)

text \<open>The operation of a place goes: its coroutine has been resumed with a flag.\<close>

lemma resumed_on_protocol:
  assumes on: "on_protocol cs w" and at: "waits_at w p = Some pt"
    and del: "delivered (history w') = delivered (history w) @ [(p, flag)]"
    and c': "calls_at w' = (case resume pt flag of
        Call s pt' \<Rightarrow> (calls_at w)(p := None, slot pt' \<mapsto> (s, pt')) | _ \<Rightarrow> (calls_at w)(p := None))"
  shows "on_protocol cs w'"
proof -
  have w': "waits_at w' = (case resume pt flag of
      Call s pt' \<Rightarrow> (waits_at w)(p := None, slot pt' \<mapsto> pt') | _ \<Rightarrow> (waits_at w)(p := None))"
    by (auto simp: waits_at_def fun_eq_iff c' split: resumed.split)
  have sites: "s = site_of pt'" if "calls_at w' q = Some (s, pt')" for q s pt'
    using that on_protocolD(6) [OF on] own_site
    by (auto simp: c' split: resumed.split_asm if_split_asm)
  have p: "slot pt = p" "owner p \<in> set cs" "now_at (owner p) w = Some pt"
    using on_protocolD(1-3) [OF on at] .
  have now: "now_at c w' = (if c = owner p
      then case resume pt flag of Call s pt' \<Rightarrow> Some pt' | _ \<Rightarrow> None else now_at c w)" for c
  proof (cases "c = owner p")
    case True
    have "co_place resume pt [flag] = (case resume pt flag of Call s pt' \<Rightarrow> Some pt' | _ \<Rightarrow> None)"
      by (simp split: resumed.split)
    with True p(3) show ?thesis
      by (simp add: now_at_def flags_of_delivered [OF del] co_place_append del: co_place.simps(2))
  next
    case False
    then show ?thesis by (auto simp: now_at_def flags_of_delivered [OF del])
  qed
  have alone: "waits_at w q = Some pt' \<Longrightarrow> owner q = owner p \<Longrightarrow> q = p" for q pt'
    using on_protocolD(1,3) [OF on, of q pt'] p(1,3) by simp
  have gone: "q \<noteq> p \<and> owner q \<noteq> owner p \<and> slot pt' = q \<and> owner q \<in> set cs \<and> now_at (owner q) w = Some pt'"
    if "waits_at w q = Some pt'" "q \<noteq> p" for q pt'
    using that alone on_protocolD(1-3) [OF on that(1)] by blast
  have others: "owner (slot pt') = c \<and> slot pt' \<noteq> p \<and> waits_at w (slot pt') = Some pt'"
    if "c \<in> set cs" "c \<noteq> owner p" "now_at c w = Some pt'" for c pt'
    using on_protocolD(4) [OF on that(1,3)] that(2) by auto
  have dels: "owner p' \<in> set cs" if "(p', flag') \<in> set (delivered (history w'))" for p' flag'
    using that on_protocolD(5) [OF on] p(2) by (auto simp: del)
  have over: "on_protocol cs w'"
    if none: "\<And>s pt'. resume pt flag \<noteq> Call s pt'"
  proof (rule on_protocolI)
    have *: "waits_at w' = (waits_at w)(p := None)" "now_at (owner p) w' = None"
      "\<And>c. c \<noteq> owner p \<Longrightarrow> now_at c w' = now_at c w"
      using none by (cases "resume pt flag"; simp add: now w')+
    fix q pt'' assume "waits_at w' q = Some pt''"
    then have q: "waits_at w q = Some pt''" "q \<noteq> p" by (auto simp: * split: if_split_asm)
    show "slot pt'' = q \<and> owner q \<in> set cs \<and> now_at (owner q) w' = Some pt''"
      using gone [OF q] by (simp add: *)
  next
    fix c pt'' assume c: "c \<in> set cs" "now_at c w' = Some pt''"
    then have "c \<noteq> owner p" using none by (cases "resume pt flag") (auto simp: now)
    then show "owner (slot pt'') = c \<and> waits_at w' (slot pt'') = Some pt''"
      using others [of c pt''] c none by (cases "resume pt flag") (auto simp: now w')
  qed (rule dels sites, assumption)+
  show ?thesis
  proof (cases "resume pt flag")
    case (Call s pt')
    then have own: "owner (slot pt') = owner p" using own_frame p(1) by blast
    show ?thesis
    proof (rule on_protocolI)
      fix q pt'' assume "waits_at w' q = Some pt''"
      then consider "q = slot pt'" "pt'' = pt'" | "q \<noteq> p" "waits_at w q = Some pt''"
        by (auto simp: w' Call split: if_split_asm)
      then show "slot pt'' = q \<and> owner q \<in> set cs \<and> now_at (owner q) w' = Some pt''"
        by cases (use own Call p(2) gone in \<open>simp_all add: now\<close>)
    next
      fix c pt'' assume c: "c \<in> set cs" "now_at c w' = Some pt''"
      show "owner (slot pt'') = c \<and> waits_at w' (slot pt'') = Some pt''"
      proof (cases "c = owner p")
        case True
        with c(2) Call have "pt'' = pt'" by (simp add: now)
        with True own Call show ?thesis by (simp add: w')
      next
        case False
        with c(2) have "now_at c w = Some pt''" by (simp add: now)
        from others [OF c(1) False this] own False Call show ?thesis by (auto simp: w')
      qed
    qed (rule dels sites, assumption)+
  next
    case (Return es)
    then show ?thesis by (intro over) simp_all
  qed (intro over; simp)+
qed

text \<open>Executing an item.\<close>

lemma complete_on_protocol:
  assumes ext: "coroutine_ext E slot resume"
    and on: "on_protocol cs w" and at: "waits_at w p = Some pt" and res: "complete E t p pt w = Inr w'"
  shows "on_protocol cs w' \<and> (\<forall>q. stop_at w q \<longrightarrow> stop_at w' q)"
proof -
  let ?flag = "ok (event w)"
  have ext_ok: "ext_ok E" using ext by (simp add: coroutine_ext_def)
  obtain as log where v: "rcv_set_value E pt ?flag (client w) = (as, False, log)"
    using ext by (cases "resume pt ?flag") (simp_all add: coroutine_ext_def resume_receiver_def)
  define w1 where "w1 = release p (w\<lparr>client := log, history := history w @ [Set_value p ?flag]\<rparr>)"
  have perf: "perform_all E t as w1 = Inr w'"
    using res v by (simp add: complete_def w1_def)
  have w1: "calls_at w1 = (calls_at w)(p := None)"
    "delivered (history w1) = delivered (history w) @ [(p, ?flag)]"
    by (simp_all add: w1_def calls_at_release) (simp add: calls_at_def fun_eq_iff)
  have stops: "stop_at w q \<Longrightarrow> stop_at w1 q" for q
    using at stop_not_waiting [of w q] unfolding w1_def
    by (intro stop_at_release) (auto simp: stop_at_def)
  have as: "as = fst (resume_receiver slot resume pt ?flag (client w))"
    using ext v by (simp add: coroutine_ext_def)
  show ?thesis
  proof (cases "resume pt ?flag")
    case (Call s pt')
    then obtain w2 where w2: "place (slot pt') (new_async_operation s pt') w1 = Inr w2"
      "start_operation E t (slot pt') w2 = Inr w'"
      using perf as by (auto simp: resume_receiver_def)
    note pl = calls_at_place [OF w2(1)]
    have k: "keeps w2 w'" using start_operation_keeps [OF ext_ok w2(2)] .
    have "on_protocol cs w'"
      using k pl w1 Call by (intro resumed_on_protocol [OF on at, where flag = ?flag]) (simp_all add: keeps_def)
    then show ?thesis using stops pl k by (simp add: keeps_def)
  next
    case (Return es)
    then have k: "keeps w1 w'" using perf as perform_effects_keeps by (simp add: resume_receiver_def)
    have "on_protocol cs w'"
      using k w1 Return by (intro resumed_on_protocol [OF on at, where flag = ?flag]) (simp_all add: keeps_def)
    then show ?thesis using stops k by (simp add: keeps_def)
  qed (use perf as in \<open>simp_all add: resume_receiver_def\<close>)
qed

lemma execute_on_protocol:
  assumes ext: "coroutine_ext E slot resume"
    and on: "on_protocol cs w" and res: "execute_op E t p w = Inr w'"
  shows "on_protocol cs w' \<and> (\<forall>q. stop_at w q \<longrightarrow> stop_at w' q)"
proof -
  have ext_ok: "ext_ok E" using ext by (simp add: coroutine_ext_def)
  obtain op f where op: "heap w p = Some op" "execute op = Some f"
    using res by (auto simp: execute_op_def split: option.split_asm)
  show ?thesis
  proof (cases "body op")
    case (StopOperation b)
    then have "w' = w\<lparr>heap := (heap w)(p \<mapsto> op\<lparr>body := StopOperation True\<rparr>)\<rparr>"
      using res op by (cases f) (simp_all add: execute_op_def)
    then have "keeps w w'"
      using op(1) StopOperation by (auto simp: keeps_def calls_at_def stop_at_def fun_eq_iff)
    with on show ?thesis using on_protocol_keeps by (auto simp: keeps_def)
  next
    case (AsyncOperation s pt)
    then have at: "waits_at w p = Some pt" using op(1) by (simp add: waits_at_def calls_at_def)
    consider "StartAsyncRPC E t p w = Inr w'" | "complete E t p pt w = Inr w'"
      using res op AsyncOperation by (cases f) (simp_all add: execute_op_def)
    then show ?thesis
    proof cases
      case 1
      from StartAsyncRPC_keeps [OF ext_ok this] on show ?thesis
        using on_protocol_keeps by (auto simp: keeps_def)
    next
      case 2
      then show ?thesis using complete_on_protocol [OF ext on at] by blast
    qed
  qed
qed

section \<open>Every schedule\<close>

definition sys_on_protocol :: "nat list \<Rightarrow> ('q, 'rq, 'cq, 'p, string list) sys \<Rightarrow> bool" where
  "sys_on_protocol cs s \<longleftrightarrow> on_protocol cs (wld s) \<and>
     (case pc s of Outside \<Rightarrow> True | Exited \<Rightarrow> True | _ \<Rightarrow> stop_at (wld s) (run_stop s))"

lemma sys_keeps:
  "sys_on_protocol cs s \<Longrightarrow> keeps (wld s) (wld s') \<Longrightarrow> pc s' = pc s \<Longrightarrow> run_stop s' = run_stop s \<Longrightarrow>
   sys_on_protocol cs s'"
  using on_protocol_keeps by (auto simp: sys_on_protocol_def keeps_def split: pc.split)

lemma leave_run_keeps: "stop_at w (run_stop s) \<Longrightarrow> calls_at (leave_run s w) = calls_at w"
  by (auto simp: calls_at_def stop_at_def fun_eq_iff split: op_body.split)

lemma leave_run_on_protocol:
  "on_protocol cs w \<Longrightarrow> stop_at w (run_stop s) \<Longrightarrow> on_protocol cs (leave_run s w)"
  using leave_run_keeps [of w s] by (simp add: on_protocol_def now_at_def waits_at_def)

lemma loop_next_on_protocol:
  assumes ext: "coroutine_ext E slot resume"
    and on: "sys_on_protocol cs s" and nx: "loop_next E s (pc s) = Some s'"
  shows "sys_on_protocol cs s'"
proof (cases "pc s")
  case (Executing q)
  show ?thesis
  proof (cases "iq_is_empty E q")
    case True
    then show ?thesis using on nx Executing by (auto simp: sys_on_protocol_def)
  next
    case False
    then obtain p q' w' where "execute_op E (run_thread s) p (wld s) = Inr w'"
      "s' = s\<lparr>wld := w', pc := Executing q'\<rparr>"
      using nx Executing by (auto split: prod.split_asm sum.split_asm)
    with execute_on_protocol [OF ext, of cs "wld s"] on Executing show ?thesis
      by (auto simp: sys_on_protocol_def)
  qed
next
  case Registered
  then have "keeps (wld s) (wld s')" using nx
    by (auto simp: enter_context_def intro: keepsI split: if_split_asm)
  then show ?thesis using on nx Registered on_protocol_keeps
    by (auto simp: sys_on_protocol_def keeps_def split: if_split_asm)
next
  case Loop_top
  then have "keeps (wld s) (wld s')" using nx by (auto intro: keepsI split: if_split_asm)
  then show ?thesis using on nx Loop_top on_protocol_keeps
    by (auto simp: sys_on_protocol_def keeps_def split: if_split_asm)
next
  case Check_stop
  then show ?thesis using on nx leave_run_on_protocol
    by (auto simp: sys_on_protocol_def split: if_split_asm)
next
  case Check_remote
  then show ?thesis using on nx on_protocol_keeps [OF check_remote_keeps] check_remote_keeps [of "wld s" E]
    by (auto simp: sys_on_protocol_def keeps_def)
next
  case Acquiring
  then obtain b w' where got: "AcquireCompletionQueueItems E (wld s) = Some (b, w')"
    "s' = (if b then s\<lparr>wld := w', pc := Loop_top\<rparr> else s\<lparr>wld := leave_run s w', pc := Exited\<rparr>)"
    using nx by (auto split: option.split_asm prod.split_asm if_split_asm)
  have "on_protocol cs w'" "stop_at w' (run_stop s)"
    using Acquire_keeps [OF got(1)] on Acquiring on_protocol_keeps
    by (auto simp: sys_on_protocol_def keeps_def)
  then show ?thesis using got(2) leave_run_on_protocol [of cs w' s] by (simp add: sys_on_protocol_def)
qed (use nx in simp_all)

lemma start_on_protocol:
  assumes on: "sys_on_protocol cs s" and st: "start_from E i p sd pt s = Inr s'"
    and new: "pt = first (owner p)" "slot pt = p" "owner p \<notin> set cs" "sd = site_of pt"
  shows "sys_on_protocol (owner p # cs) s'"
proof -
  obtain w1 w2 where w1: "place p (new_async_operation sd pt) (wld s) = Inr w1"
    and w2: "mark_scheduled p w1 = Inr w2" and s': "s' = enqueue_from E i p s w2"
    using st by (auto simp: start_from_def)
  have "keeps w1 w2"
    using w2 by (auto simp: mark_scheduled_def keeps_def calls_at_def stop_at_def fun_eq_iff
        split: option.split_asm)
  then have k: "keeps w1 (wld s')" unfolding s' by (rule keeps_trans) simp
  note pl = calls_at_place [OF w1]
  have w: "on_protocol cs (wld s)" using on by (simp add: sys_on_protocol_def)
  have same: "now_at c w1 = now_at c (wld s)" for c using pl by (simp add: now_at_def)
  have fresh: "now_at (owner p) (wld s) = Some pt"
  proof -
    have "filter (\<lambda>(q, flag). owner q = owner p) (delivered (history (wld s))) = []"
      using new(3) by (auto simp: filter_empty_conv dest: on_protocolD(5) [OF w])
    then show ?thesis using new(1) by (simp add: now_at_def flags_of_def)
  qed
  have "on_protocol (owner p # cs) w1"
  proof (rule on_protocolI)
    fix q pt' assume "waits_at w1 q = Some pt'"
    then show "slot pt' = q \<and> owner q \<in> set (owner p # cs) \<and> now_at (owner q) w1 = Some pt'"
      using on_protocolD(1-3) [OF w, of q pt'] pl new fresh same by (auto split: if_split_asm)
  next
    fix c pt' assume c: "c \<in> set (owner p # cs)" "now_at c w1 = Some pt'"
    show "owner (slot pt') = c \<and> waits_at w1 (slot pt') = Some pt'"
    proof (cases "c = owner p")
      case True
      then show ?thesis using c(2) fresh same new(2) pl by simp
    next
      case False
      then show ?thesis using c on_protocolD(4) [OF w, of c pt'] same new(2) pl by auto
    qed
  next
    fix q flag assume "(q, flag) \<in> set (delivered (history w1))"
    then show "owner q \<in> set (owner p # cs)" using on_protocolD(5) [OF w] pl by auto
  next
    fix q sd' pt' assume "calls_at w1 q = Some (sd', pt')"
    then show "sd' = site_of pt'"
      using on_protocolD(6) [OF w, of q] pl new(4) by (auto split: if_split_asm)
  qed
  with k have "on_protocol (owner p # cs) (wld s')" by (rule on_protocol_keeps)
  then show ?thesis
    using on k pl by (auto simp: sys_on_protocol_def keeps_def s' enqueue_from_def split: pc.split_asm prod.split)
qed

lemma begin_run_keeps:
  assumes "begin_run p w = Inr w'"
  shows "keeps w w' \<and> stop_at w' p"
  using assms
  by (auto simp: begin_run_def place_def  keeps_def calls_at_def stop_at_def fun_eq_iff
      new_stop_operation_def split: if_split_asm)

lemma exec_move_on_protocol:
  assumes ext: "coroutine_ext E slot resume" and on: "sys_on_protocol cs s"
    and ex: "exec_move E m s = Some s'" and once: "starts_once slot site_of owner first cs (m # ms)"
  shows "\<exists>cs'. sys_on_protocol cs' s' \<and> starts_once slot site_of owner first cs' ms \<and>
    set cs' = set cs \<union> set (started owner [m])"
proof (cases m)
  case (Start i p sd pt)
  then have "start_from E i p sd pt s = Inr s'"
    using ex by (auto split: if_split_asm sum.split_asm)
  then have "sys_on_protocol (owner p # cs) s'"
    using once Start by (intro start_on_protocol [OF on]) auto
  then show ?thesis using once Start by (intro exI [of _ "owner p # cs"]) simp
next
  case (Enter t p)
  then obtain w' where w': "begin_run p (wld s) = Inr w'" "pc s = Outside"
    "s' = s\<lparr>wld := w', pc := Registered, run_thread := t, run_stop := p\<rparr>"
    using ex by (auto split: if_split_asm sum.split_asm)
  from begin_run_keeps [OF w'(1)] w'(2,3) on on_protocol_keeps once Enter show ?thesis
    by (intro exI [of _ cs]) (auto simp: sys_on_protocol_def)
next
  case Loop
  with ex loop_next_on_protocol [OF ext on] once show ?thesis by (intro exI [of _ cs]) simp
next
  case (Stop_request i)
  then obtain p where "s' = enqueue_from E i p s ((wld s)\<lparr>stop_callback := None\<rparr>)"
    using ex by (auto split: if_split_asm option.split_asm)
  moreover have "keeps (wld s) (wld (enqueue_from E i p s ((wld s)\<lparr>stop_callback := None\<rparr>)))"
    by (rule keeps_trans [OF keepsI enqueue_keeps]) simp_all
  ultimately show ?thesis
    using once Stop_request by (intro exI [of _ cs]) (auto intro!: sys_keeps [OF on] simp: enqueue_from_def split: prod.split)
qed (use ex once in \<open>auto intro!: exI [of _ cs] sys_keeps [OF on]
      dest: Signal_keeps split: if_split_asm sum.split_asm\<close>)

lemma exec_moves_on_protocol:
  assumes "coroutine_ext E slot resume" and "sys_on_protocol cs s" and "exec_moves E ms s = Some s'"
    and "starts_once slot site_of owner first cs ms"
  shows "\<exists>cs'. sys_on_protocol cs' s' \<and> set cs' = set cs \<union> set (started owner ms)"
  using assms(2-4)
proof (induction ms arbitrary: cs s)
  case (Cons m ms)
  then obtain s1 where s1: "exec_move E m s = Some s1" "exec_moves E ms s1 = Some s'"
    by (auto split: option.split_asm)
  obtain cs1 where cs1: "sys_on_protocol cs1 s1" "starts_once slot site_of owner first cs1 ms"
    "set cs1 = set cs \<union> set (started owner [m])"
    using exec_move_on_protocol [OF assms(1) Cons.prems(1) s1(1) Cons.prems(3)] by blast
  obtain cs' where "sys_on_protocol cs' s'" "set cs' = set cs1 \<union> set (started owner ms)"
    using Cons.IH [OF cs1(1) s1(2) cs1(2)] by blast
  moreover have "set (started owner (m # ms)) = set (started owner [m]) \<union> set (started owner ms)"
    by (cases m) simp_all
  ultimately show ?case using cs1(3) by auto
qed auto

lemma new_on_protocol: "new_context E w \<Longrightarrow> sys_on_protocol [] (fresh_sys w)"
  by (auto simp: new_context_def GrpcContext_new_def fresh_sys_def sys_on_protocol_def on_protocol_def
      waits_at_def calls_at_def)

lemma scheduled_on_protocol:
  assumes "coroutine_ext E slot resume" and "new_context E w"
    and "starts_once slot site_of owner first [] (Start i p sd pt # ms)"
    and "scheduled E ms w i p sd pt = Some s"
  shows "\<exists>cs. sys_on_protocol cs s \<and> set cs = set (started owner (Start i p sd pt # ms))"
proof -
  obtain s0 where s0: "start_from E i p sd pt (fresh_sys w) = Inr s0" "exec_moves E ms s0 = Some s"
    using assms(4) by (auto simp: scheduled_def split: sum.split_asm)
  have "sys_on_protocol [owner p] s0"
    using assms(3) by (intro start_on_protocol [OF new_on_protocol [OF assms(2)] s0(1)]) auto
  from exec_moves_on_protocol [OF assms(1) this s0(2)] assms(3) show ?thesis by simp
qed

end

section \<open>The hello world server and client on one context\<close>

text \<open>Two programs side by side: a place of the one or of the other.\<close>

fun side_by_side ::
  "('p \<Rightarrow> bool \<Rightarrow> 'p resumed) \<Rightarrow> ('r \<Rightarrow> bool \<Rightarrow> 'r resumed) \<Rightarrow> 'p + 'r \<Rightarrow> bool \<Rightarrow> ('p + 'r) resumed" where
  "side_by_side f g (Inl pt) flag = map_resumed Inl (f pt flag)"
| "side_by_side f g (Inr pt) flag = map_resumed Inr (g pt flag)"

text \<open>
  The frames: the server's operations are at 1 and 2 as before, the client's is at 4. Coroutine 0
  is the server, coroutine 1 the client.
\<close>

definition hello_pair :: "hello_point + client_point \<Rightarrow> bool \<Rightarrow> (hello_point + client_point) resumed" where
  "hello_pair = side_by_side hello_server (hello_client (HandleRequest ''world''))"

definition pair_slot :: "hello_point + client_point \<Rightarrow> op_ptr" where
  "pair_slot pt = (case pt of Inl pt' \<Rightarrow> demo_slot pt' | Inr pt' \<Rightarrow> 4)"

definition pair_owner :: "op_ptr \<Rightarrow> nat" where
  "pair_owner p = (if p = 4 then 1 else 0)"

definition pair_first :: "nat \<Rightarrow> hello_point + client_point" where
  "pair_first c = (if c = 0 then Inl Hello_request else Inr Client_finish)"

fun pair_site :: "hello_point + client_point \<Rightarrow> sender" where
  "pair_site (Inl pt) = hello_site pt"
| "pair_site (Inr pt) = site AsyncFinish client_finish_args"

lemma pair_own_frame:
  assumes "hello_pair pt flag = Call s pt'"
  shows "pair_owner (pair_slot pt') = pair_owner (pair_slot pt)"
proof (cases pt)
  case (Inl q)
  then show ?thesis using assms by (cases "hello_server q flag")
      (auto simp: hello_pair_def pair_owner_def pair_slot_def demo_slot_def split: hello_point.split hello_point.split_asm)
next
  case (Inr q)
  then show ?thesis using assms by (cases q) (auto simp: hello_pair_def split: if_split_asm)
qed

lemma pair_own_site: "hello_pair pt flag = Call s pt' \<Longrightarrow> s = pair_site pt'"
proof (induction pt)
  case (Inl q)
  then show ?case using hello_server_cases [of q flag] by (auto simp: hello_pair_def)
next
  case (Inr q)
  then show ?case by (cases q) (auto simp: hello_pair_def split: if_split_asm)
qed

interpretation pair: coroutine_program pair_slot hello_pair pair_site pair_owner pair_first
  by unfold_locales (rule pair_own_frame pair_own_site, assumption)+

definition pair_ext :: "(op_ptr list, queue_view, ref_cq, hello_point + client_point, string list) ext" where
  "pair_ext = ref_libs (resume_receiver pair_slot hello_pair)"

text \<open>
  Thread 1 starts the server, thread 0 runs the context, and thread 2 starts the client while the
  loop waits: the request arrives, the client's call finishes, and the server's answer is under way.
\<close>

definition pair_moves :: "(ref_cq, hello_point + client_point) move list" where
  "pair_moves = [Signal 1, Enter 0 8] @ replicate 6 Loop @
     [Start 2 4 (site AsyncFinish client_finish_args) (Inr Client_finish)] @ replicate 14 Loop"

definition pair_world :: "(op_ptr list, queue_view, ref_cq, hello_point + client_point, string list) world" where
  "pair_world = GrpcContext_new pair_ext 7 (\<lambda>t. None) ([], False) []"

definition pair_run :: "(op_ptr list, queue_view, ref_cq, hello_point + client_point, string list) sys option" where
  "pair_run = scheduled pair_ext pair_moves pair_world 1 1 (hello_site Hello_request) (Inl Hello_request)"

lemma pair_setup:
  "coroutine_ext pair_ext pair_slot hello_pair" "new_context pair_ext pair_world"
  "starts_once pair_slot pair_site pair_owner pair_first []
     (Start 1 1 (hello_site Hello_request) (Inl Hello_request) # pair_moves)"
  "started pair_owner (Start 1 1 (hello_site Hello_request) (Inl Hello_request) # pair_moves) = [0, 1]"
proof -
  show "coroutine_ext pair_ext pair_slot hello_pair"
    by (simp add: coroutine_ext_def pair_ext_def ref_libs_ok ref_accepts)
  show "new_context pair_ext pair_world"
    unfolding new_context_def pair_world_def pair_ext_def
    by (intro exI [of _ 7] exI [of _ "\<lambda>t. None"] exI [of _ "([], False)"] exI [of _ "[]"]) simp
qed (simp_all add: pair_moves_def pair_first_def pair_slot_def demo_slot_def pair_owner_def
  replicate_append_same numeral_eq_Suc)

text \<open>
  C15. Coroutines that share a context do not disturb each other. Let threads start each coroutine
  once, at its first place, and let them, the loop and gRPC be scheduled in any way: the live RPC
  operations are at every moment exactly those that the started coroutines wait for, each at the
  place that its own protocol gives for the flags of its own completions alone and making the call
  that is written there. So every waiting coroutine has one operation alive, in its own frame, and
  one that has ended has none.
\<close>
theorem coroutines_do_not_interfere:
  assumes "coroutine_ext E slot resume"
    and "\<forall>pt flag s pt'. resume pt flag = Call s pt' \<longrightarrow> owner (slot pt') = owner (slot pt)"
    and "\<forall>pt flag s pt'. resume pt flag = Call s pt' \<longrightarrow> s = site_of pt'"
    and "new_context E w" and "starts_once slot site_of owner first [] (Start i p sd pt0 # ms)"
    and "scheduled E ms w i p sd pt0 = Some s"
    and "place_of = (\<lambda>c. co_place resume (first c) (flags_of owner c (history (wld s))))"
  shows "(\<forall>q sd' pt. calls_at (wld s) q = Some (sd', pt) \<longleftrightarrow>
      owner q \<in> set (started owner (Start i p sd pt0 # ms)) \<and> slot pt = q \<and>
      place_of (owner q) = Some pt \<and> sd' = site_of pt) \<and>
    (\<forall>c pt. c \<in> set (started owner (Start i p sd pt0 # ms)) \<and> place_of c = Some pt \<longrightarrow>
      owner (slot pt) = c \<and> calls_at (wld s) (slot pt) = Some (site_of pt, pt))"
proof -
  have P: "coroutine_program slot resume site_of owner" using assms(2,3) by unfold_locales blast+
  obtain cs where cs: "coroutine_program.sys_on_protocol slot resume site_of owner first cs s"
    "set cs = set (started owner (Start i p sd pt0 # ms))"
    using coroutine_program.scheduled_on_protocol [OF P assms(1,4,5,6)] by blast
  then have "coroutine_program.on_protocol slot resume site_of owner first cs (wld s)"
    by (simp add: coroutine_program.sys_on_protocol_def [OF P])
  note on = coroutine_program.on_protocolD [OF P this]
  have live: "calls_at (wld s) q = Some (sd', pt) \<longleftrightarrow> waits_at (wld s) q = Some pt \<and> sd' = site_of pt"
    for q sd' pt
    using on(6) by (auto simp: waits_at_def)
  show ?thesis
    unfolding live assms(7) cs(2) [symmetric] coroutine_program.now_at_def [OF P, symmetric]
    using on(1-4) by blast
qed

theorem coroutines_do_not_interfere_witness:
  "\<exists>s. pair_run = Some s \<and> delivered (history (wld s)) = [(1, True), (4, True)] \<and>
     calls_at (wld s) 2 = Some (site AsyncFinish hello_finish_args, Inl Hello_finish) \<and> calls_at (wld s) 4 = None"
proof -
  have "case pair_run of None \<Rightarrow> False | Some s \<Rightarrow> delivered (history (wld s)) = [(1, True), (4, True)]"
    unfolding pair_run_def pair_moves_def pair_world_def pair_ext_def hello_pair_def by code_simp
  then obtain s where s: "pair_run = Some s" "delivered (history (wld s)) = [(1, True), (4, True)]"
    by (auto split: option.split_asm)
  define place_of where "place_of = (\<lambda>c. co_place hello_pair (pair_first c)
    (flags_of pair_owner c (history (wld s))))"
  have "flags_of pair_owner 0 (history (wld s)) = [True]" "flags_of pair_owner 1 (history (wld s)) = [True]"
    by (simp_all add: flags_of_def s(2) pair_owner_def)
  then have "place_of 0 = Some (Inl Hello_finish)" "place_of 1 = None"
    by (simp_all add: place_of_def pair_first_def hello_pair_def)
  moreover have "pair_owner 2 = 0" "pair_owner 4 = 1" "pair_slot (Inl Hello_finish) = 2"
    by (simp_all add: pair_owner_def pair_slot_def demo_slot_def)
  moreover note coroutines_do_not_interfere [OF pair_setup(1) _ _ pair_setup(2,3)
      s(1) [unfolded pair_run_def] place_of_def] pair.own_frame pair.own_site
  ultimately have "calls_at (wld s) 2 = Some (site AsyncFinish hello_finish_args, Inl Hello_finish)"
    "calls_at (wld s) 4 \<noteq> Some (sd', pt)" for sd' pt
    unfolding pair_setup(4) by auto
  with s show ?thesis by (metis not_None_eq surj_pair)
qed

end
