(* ===== verification/Context_Pair.thy ===== *)
theory Context_Pair
  imports Reference_Libs
begin

text \<open>
  Two contexts in one process. They share nothing but the thread-local \<^verbatim>\<open>current_thread_context\<close>, which
  each of them writes when its loop is entered and left. The theory shows that seen from either
  of them the other one is only the environment that \<^verbatim>\<open>Loop_System\<close> allows for, so that everything
  proved of the reachable states of one context holds of both.
\<close>

section \<open>What a context does to the thread-locals\<close>

abbreviation tls :: "('q, 'rq, 'cq, 'r, 'u) sys \<Rightarrow> thread \<Rightarrow> ctx_ref option" where
  "tls s \<equiv> current_thread_context (wld s)"

abbreviation this :: "('q, 'rq, 'cq, 'r, 'u) sys \<Rightarrow> ctx_ref" where
  "this s \<equiv> this_context (wld s)"

definition same_threads :: "('q, 'rq, 'cq, 'r, 'u) world \<Rightarrow> ('q, 'rq, 'cq, 'r, 'u) world \<Rightarrow> bool" where
  "same_threads w w' \<longleftrightarrow> this_context w' = this_context w \<and> current_thread_context w' = current_thread_context w"

lemma same_threads_refl [simp]: "same_threads w w"
  by (simp add: same_threads_def)

lemma same_threads_trans: "same_threads w1 w2 \<Longrightarrow> same_threads w2 w3 \<Longrightarrow> same_threads w1 w3"
  by (simp add: same_threads_def)

lemma place_threads: "place p op w = Inr w' \<Longrightarrow> same_threads w w'"
  by (auto simp: place_def same_threads_def split: if_split_asm)

lemma StartAsyncRPC_threads: "StartAsyncRPC E t p w = Inr w' \<Longrightarrow> same_threads w w'"
  by (auto simp: StartAsyncRPC_def same_threads_def split: if_split_asm option.split_asm op_body.split_asm)

lemma ScheduleRemote_threads: "ScheduleRemote E p w = Inr w' \<Longrightarrow> same_threads w w'"
  by (auto simp: ScheduleRemote_def remote_enqueue_def SignalRemoteQueue_def same_threads_def Let_def
      split: prod.split_asm if_split_asm option.split_asm)

lemma mark_scheduled_threads: "mark_scheduled p w = Inr w' \<Longrightarrow> same_threads w w'"
  by (auto simp: mark_scheduled_def same_threads_def split: option.split_asm)

lemma perform_threads: "perform E t a w = Inr w' \<Longrightarrow> same_threads w w'"
  by (cases a)
    (auto simp: start_operation_def on_stop_requested_def ScheduleImpl_def ScheduleLocal_def ShutDown_def
      same_threads_def split: if_split_asm option.split_asm
      dest!: place_threads StartAsyncRPC_threads ScheduleRemote_threads mark_scheduled_threads)

lemma perform_all_threads: "perform_all E t as w = Inr w' \<Longrightarrow> same_threads w w'"
  by (induction as arbitrary: w) (auto dest: perform_threads intro: same_threads_trans)

lemma complete_threads: "complete E t p r w = Inr w' \<Longrightarrow> same_threads w w'"
  by (auto simp: complete_def signal_error_def release_def same_threads_def case_prod_beta Let_def
      split: if_split_asm dest!: perform_all_threads)

lemma execute_op_threads: "execute_op E t p w = Inr w' \<Longrightarrow> same_threads w w'"
  by (auto simp: execute_op_def same_threads_def split: option.split_asm exec_fn.split_asm op_body.split_asm
      dest!: StartAsyncRPC_threads complete_threads)

lemma check_remote_threads: "same_threads w (check_remote_queue E w)"
  by (simp add: check_remote_queue_def TryScheduleRemoteQueuedItems_def ScheduleLocal_queue_def
      same_threads_def Let_def split: prod.split)

lemma Acquire_threads: "AcquireCompletionQueueItems E w = Some (b, w') \<Longrightarrow> same_threads w w'"
  by (auto simp: AcquireCompletionQueueItems_def ScheduleLocal_def same_threads_def Let_def
      split: option.split_asm next_result.split_asm prod.split_asm)

text \<open>An own move keeps the thread-locals, enters the context on its thread, or leaves it.\<close>

fun own_move :: "('cq, 'r) move \<Rightarrow> bool" where
  "own_move (Other_context t c) \<longleftrightarrow> False"
| "own_move _ \<longleftrightarrow> True"

definition silent :: "('q, 'rq, 'cq, 'r, 'u) sys \<Rightarrow> ('q, 'rq, 'cq, 'r, 'u) sys \<Rightarrow> bool" where
  "silent s s' \<longleftrightarrow> tls s' = tls s \<and> in_loop (pc s') = in_loop (pc s) \<and>
     (in_loop (pc s) \<longrightarrow> run_thread s' = run_thread s \<and> old_context s' = old_context s)"

definition enters :: "('q, 'rq, 'cq, 'r, 'u) sys \<Rightarrow> ('q, 'rq, 'cq, 'r, 'u) sys \<Rightarrow> bool" where
  "enters s s' \<longleftrightarrow> pc s = Registered \<and> in_loop (pc s') \<and> run_thread s' = run_thread s \<and>
     old_context s' = tls s (run_thread s) \<and> tls s' = (tls s)(run_thread s \<mapsto> this s)"

definition leaves :: "('q, 'rq, 'cq, 'r, 'u) sys \<Rightarrow> ('q, 'rq, 'cq, 'r, 'u) sys \<Rightarrow> bool" where
  "leaves s s' \<longleftrightarrow> in_loop (pc s) \<and> \<not> in_loop (pc s') \<and> tls s' = (tls s)(run_thread s := old_context s)"

lemma leave_run_threads:
  "this_context (leave_run s w) = this_context w"
  "current_thread_context (leave_run s w) = (current_thread_context w)(run_thread s := old_context s)"
  by (simp_all add: leave_run_def end_run_def release_def enter_context_def)

lemma loop_move_threads:
  assumes "loop_next E s (pc s) = Some s'"
  shows "this s' = this s \<and> (silent s s' \<or> enters s s' \<or> leaves s s')"
proof (cases "pc s")
  case (Executing q)
  then show ?thesis
    using assms
    by (auto simp: silent_def in_loop_def split: if_split_asm prod.split_asm sum.split_asm
        dest!: execute_op_threads [unfolded same_threads_def])
next
  case Acquiring
  then show ?thesis
    using assms
    by (auto simp: silent_def leaves_def in_loop_def leave_run_threads
        split: option.split_asm prod.split_asm if_split_asm dest!: Acquire_threads [unfolded same_threads_def])
qed (use assms check_remote_threads [of "wld s" E] in \<open>auto simp: silent_def enters_def leaves_def in_loop_def
      leave_run_threads enter_context_def same_threads_def split: if_split_asm\<close>)

lemma start_from_threads:
  assumes "start_from E i p sd r s = Inr s'"
  shows "this s' = this s \<and> tls s' = tls s \<and> pc s' = pc s \<and> run_thread s' = run_thread s \<and>
    old_context s' = old_context s"
proof -
  obtain w1 w2 where "place p (new_async_operation sd r) (wld s) = Inr w1" "mark_scheduled p w1 = Inr w2"
    and s': "s' = enqueue_from E i p s w2"
    using assms by (auto simp: start_from_def)
  then have "same_threads (wld s) w2" using place_threads mark_scheduled_threads same_threads_trans by blast
  then show ?thesis
    by (simp add: s' enqueue_from_def remote_enqueue_def same_threads_def Let_def split: prod.split)
qed

lemma own_move_threads:
  assumes "exec_move E m s = Some s'" and "own_move m"
  shows "this s' = this s \<and> (silent s s' \<or> enters s s' \<or> leaves s s')"
proof (cases m)
  case Loop
  with assms show ?thesis using loop_move_threads by simp
next
  case (Enter t p)
  with assms show ?thesis
    by (auto simp: silent_def in_loop_def begin_run_def split: if_split_asm sum.split_asm
        dest!: place_threads [unfolded same_threads_def])
next
  case (Start i p sd r)
  then have "start_from E i p sd r s = Inr s'"
    using assms(1) by (auto split: if_split_asm sum.split_asm)
  from start_from_threads [OF this] show ?thesis by (simp add: silent_def)
qed (use assms in \<open>auto simp: silent_def enqueue_from_def remote_enqueue_def SignalRemoteQueue_def ShutDown_def
      Let_def split: if_split_asm sum.split_asm option.split_asm prod.split_asm\<close>)

section \<open>Two contexts\<close>

text \<open>
  A thread runs at most one of the two contexts: a continuation that runs one context inside the other
  is the subject of \<^verbatim>\<open>Context_Nesting\<close>.
\<close>

definition in_run :: "'q pc \<Rightarrow> bool" where
  "in_run c \<longleftrightarrow> c = Registered \<or> in_loop c"

definition apart ::
  "('q, 'rq, 'cq, 'r, 'u) sys \<Rightarrow> ('q2, 'rq2, 'cq2, 'r2, 'u2) sys \<Rightarrow> bool" where
  "apart s r \<longleftrightarrow> \<not> (in_run (pc s) \<and> in_run (pc r) \<and> run_thread s = run_thread r)"

definition share ::
  "(thread \<Rightarrow> ctx_ref option) \<Rightarrow> ('q, 'rq, 'cq, 'r, 'u) sys \<Rightarrow> ('q, 'rq, 'cq, 'r, 'u) sys" where
  "share c s = s\<lparr>wld := (wld s)\<lparr>current_thread_context := c\<rparr>\<rparr>"

inductive two_step ::
  "('q, 'rq, 'cq, 'r, 'u) ext \<Rightarrow> ('q2, 'rq2, 'cq2, 'r2, 'u2) ext \<Rightarrow>
   ('q, 'rq, 'cq, 'r, 'u) sys \<times> ('q2, 'rq2, 'cq2, 'r2, 'u2) sys \<Rightarrow>
   ('q, 'rq, 'cq, 'r, 'u) sys \<times> ('q2, 'rq2, 'cq2, 'r2, 'u2) sys \<Rightarrow> bool" for E F where
  one_moves: "exec_move E m s = Some s' \<Longrightarrow> own_move m \<Longrightarrow> apart s' r \<Longrightarrow>
     two_step E F (s, r) (s', share (tls s') r)"
| other_moves: "exec_move F m r = Some r' \<Longrightarrow> own_move m \<Longrightarrow> apart s r' \<Longrightarrow>
     two_step E F (s, r) (share (tls r') s, r')"

text \<open>Both contexts are new, each with its first operation started by some thread.\<close>

definition two_start ::
  "('q, 'rq, 'cq, 'r, 'u) ext \<Rightarrow> ('q2, 'rq2, 'cq2, 'r2, 'u2) ext \<Rightarrow>
   ('q, 'rq, 'cq, 'r, 'u) sys \<times> ('q2, 'rq2, 'cq2, 'r2, 'u2) sys \<Rightarrow> bool" where
  "two_start E F = (\<lambda>(s, r). start_sys E s \<and> start_sys F r \<and> pc s = Outside \<and> pc r = Outside \<and>
     tls s = tls r \<and> this s \<noteq> this r \<and> (\<forall>t. tls s t \<noteq> Some (this s) \<and> tls s t \<noteq> Some (this r)))"

text \<open>What one context promises about the thread-locals, given the name of the other.\<close>

definition marks_own ::
  "ctx_ref \<Rightarrow> ('q, 'rq, 'cq, 'r, 'u) sys \<Rightarrow> bool" where
  "marks_own other s \<longleftrightarrow> (\<forall>t. tls s t = Some (this s) \<longleftrightarrow> in_loop (pc s) \<and> t = run_thread s) \<and>
     (in_loop (pc s) \<longrightarrow> old_context s \<noteq> Some other \<and> old_context s \<noteq> Some (this s))"

definition two_inv ::
  "('q, 'rq, 'cq, 'r, 'u) ext \<Rightarrow> ('q2, 'rq2, 'cq2, 'r2, 'u2) ext \<Rightarrow>
   ('q, 'rq, 'cq, 'r, 'u) sys \<times> ('q2, 'rq2, 'cq2, 'r2, 'u2) sys \<Rightarrow> bool" where
  "two_inv E F = (\<lambda>(s, r). reachable E s \<and> reachable F r \<and> apart s r \<and> tls s = tls r \<and> this s \<noteq> this r \<and>
     marks_own (this r) s \<and> marks_own (this s) r)"

lemma share_same [simp]: "share (tls s) s = s"
  by (simp add: share_def)

lemma share_simps [simp]:
  "pc (share c s) = pc s" "run_thread (share c s) = run_thread s" "old_context (share c s) = old_context s"
  "this (share c s) = this s" "tls (share c s) = c"
  by (simp_all add: share_def)

lemma share_other:
  assumes "reachable F r" and "\<not> (in_loop (pc r) \<and> t = run_thread r)" and "c \<noteq> Some (this r)"
  shows "reachable F (share ((tls r)(t := c)) r)"
proof -
  have "loop_step F r (share ((tls r)(t := c)) r)"
    unfolding share_def using assms(2,3) by (rule loop_step.other_context)
  with assms(1) show ?thesis unfolding reachable_def by (meson rtranclp.rtrancl_into_rtrancl)
qed

text \<open>One step of either, by the symmetry of the invariant.\<close>

lemma own_move_two:
  assumes move: "exec_move E m s = Some s'" "own_move m" and ap: "apart s' r"
    and s: "reachable E s" "marks_own (this r) s" and r: "reachable F r" "marks_own (this s) r"
    and both: "apart s r" "tls s = tls r" "this s \<noteq> this r"
  shows "reachable E s' \<and> reachable F (share (tls s') r) \<and> this s' = this s \<and>
    marks_own (this r) s' \<and> marks_own (this s) (share (tls s') r)"
proof -
  have s': "reachable E s'"
    using s(1) exec_move_step [OF move(1)] unfolding reachable_def by (meson rtranclp.rtrancl_into_rtrancl)
  have kinds: "this s' = this s" "silent s s' \<or> enters s s' \<or> leaves s s'"
    using own_move_threads [OF move] by auto
  from kinds(2) show ?thesis
  proof (elim disjE)
    assume k: "silent s s'"
    then have "share (tls s') r = r" using both(2) by (simp add: silent_def)
    then show ?thesis using s' kinds(1) s(2) r k by (auto simp: silent_def marks_own_def)
  next
    assume k: "enters s s'"
    then have nr: "\<not> (in_loop (pc r) \<and> run_thread s = run_thread r)"
      using ap by (auto simp: enters_def apart_def in_run_def)
    have old: "tls s (run_thread s) \<noteq> Some (this r)" "tls s (run_thread s) \<noteq> Some (this s)"
      using nr r(2) s(2) both(2) k by (auto simp: marks_own_def enters_def in_loop_def)
    have "tls s' = (tls r)(run_thread s \<mapsto> this s)" using k both(2) by (simp add: enters_def)
    then have "reachable F (share (tls s') r)" using share_other [OF r(1) nr, of "Some (this s)"] both(3) by simp
    moreover have "marks_own (this r) s'"
      using k s(2) old kinds(1) by (auto simp: marks_own_def enters_def in_loop_def)
    moreover have "marks_own (this s) (share (tls s') r)"
      using k r(2) both nr by (auto simp: marks_own_def enters_def)
    ultimately show ?thesis using s' kinds(1) by simp
  next
    assume k: "leaves s s'"
    then have nr: "\<not> (in_loop (pc r) \<and> run_thread s = run_thread r)"
      using both(1) by (auto simp: leaves_def apart_def in_run_def)
    have old: "old_context s \<noteq> Some (this r)" "old_context s \<noteq> Some (this s)"
      using k s(2) by (auto simp: marks_own_def leaves_def)
    have "tls s' = (tls r)(run_thread s := old_context s)" using k both(2) by (simp add: leaves_def)
    then have "reachable F (share (tls s') r)" using share_other [OF r(1) nr old(1)] by simp
    moreover have "marks_own (this r) s'"
      using k s(2) old kinds(1) by (auto simp: marks_own_def leaves_def)
    moreover have "marks_own (this s) (share (tls s') r)"
      using k r(2) both old nr by (auto simp: marks_own_def leaves_def)
    ultimately show ?thesis using s' kinds(1) by simp
  qed
qed

lemma apart_sym: "apart s r \<Longrightarrow> apart r s"
  by (auto simp: apart_def)

lemma apart_share [simp]: "apart (share c s) r = apart s r" "apart s (share c r) = apart s r"
  by (simp_all add: apart_def)

lemma two_step_inv: "two_step E F x y \<Longrightarrow> two_inv E F x \<Longrightarrow> two_inv E F y"
proof (induction rule: two_step.induct)
  case (one_moves m s s' r)
  then have "reachable E s" "marks_own (this r) s" "reachable F r" "marks_own (this s) r" "apart s r"
    "tls s = tls r" "this s \<noteq> this r" by (simp_all add: two_inv_def)
  note inv = this
  from own_move_two [OF one_moves.hyps inv] have
    "reachable E s' \<and> reachable F (share (tls s') r) \<and> this s' = this s \<and>
      marks_own (this r) s' \<and> marks_own (this s) (share (tls s') r)" .
  with one_moves.hyps(3) inv(7) show ?case unfolding two_inv_def by simp
next
  case (other_moves m r r' s)
  then have inv: "reachable F r" "marks_own (this s) r" "reachable E s" "marks_own (this r) s" "apart r s"
    "tls r = tls s" "this r \<noteq> this s" by (auto simp: two_inv_def intro: apart_sym)
  have ap: "apart r' s" using other_moves.hyps(3) by (rule apart_sym)
  from own_move_two [OF other_moves.hyps(1,2) ap inv] have
    "reachable F r' \<and> reachable E (share (tls r') s) \<and> this r' = this r \<and>
      marks_own (this s) r' \<and> marks_own (this r) (share (tls r') s)" .
  with other_moves.hyps(3) inv(7) show ?case unfolding two_inv_def by auto
qed

interpretation two: inductive_invariant "two_start E F" "two_step E F" "two_inv E F"
  for E :: "('q, 'rq, 'cq, 'r, 'u) ext" and F :: "('q2, 'rq2, 'cq2, 'r2, 'u2) ext"
proof unfold_locales
  fix x assume "two_start E F x"
  then show "two_inv E F x"
    by (auto simp: two_start_def two_inv_def reachable_def apart_def in_run_def in_loop_def marks_own_def
        split: prod.split_asm)
qed (rule two_step_inv)

text \<open>
  C16. Two contexts in one process do not disturb each other, as long as no thread runs one inside the
  other: however their threads, their loops and gRPC interleave, the state of each of them is one
  that it can reach alone, so every property of the reachable states holds of both; and
  \<^verbatim>\<open>IsRunningOnThisThread\<close> is never true of both on the same thread.
\<close>
theorem contexts_are_independent:
  assumes "two_start E F (s0, r0)" and "(two_step E F)\<^sup>*\<^sup>* (s0, r0) (s, r)"
  shows "reachable E s \<and> reachable F r \<and>
    (\<forall>t. \<not> (IsRunningOnThisThread t (wld s) \<and> IsRunningOnThisThread t (wld r)))"
proof -
  have "two_inv E F (s, r)" using two.holds_from_start [OF assms] .
  then show ?thesis by (auto simp: two_inv_def IsRunningOnThisThread_def)
qed

text \<open>Schedules of two contexts, and one in which both loops execute their first operation.\<close>

fun two_moves ::
  "('q, 'rq, 'cq, 'r, 'u) ext \<Rightarrow> ('q2, 'rq2, 'cq2, 'r2, 'u2) ext \<Rightarrow> (('cq, 'r) move + ('cq2, 'r2) move) list \<Rightarrow>
   ('q, 'rq, 'cq, 'r, 'u) sys \<times> ('q2, 'rq2, 'cq2, 'r2, 'u2) sys \<Rightarrow>
   (('q, 'rq, 'cq, 'r, 'u) sys \<times> ('q2, 'rq2, 'cq2, 'r2, 'u2) sys) option" where
  "two_moves E F [] x = Some x"
| "two_moves E F (Inl m # ms) (s, r) =
     (case exec_move E m s of None \<Rightarrow> None | Some s' \<Rightarrow>
        if own_move m \<and> apart s' r then two_moves E F ms (s', share (tls s') r) else None)"
| "two_moves E F (Inr m # ms) (s, r) =
     (case exec_move F m r of None \<Rightarrow> None | Some r' \<Rightarrow>
        if own_move m \<and> apart s r' then two_moves E F ms (share (tls r') s, r') else None)"

lemma two_moves_steps: "two_moves E F ms x = Some y \<Longrightarrow> (two_step E F)\<^sup>*\<^sup>* x y"
  by (induction E F ms x rule: two_moves.induct)
    (auto split: option.split_asm if_split_asm intro: two_step.intros converse_rtranclp_into_rtranclp)

definition other_world :: "(op_ptr list, queue_view, ref_cq, script, nat) world" where
  "other_world = GrpcContext_new ref_ext 17 (\<lambda>t. None) ([], False) 0"

definition demo_first :: "script \<Rightarrow> (op_ptr list, queue_view, ref_cq, script, nat) world \<Rightarrow>
    (op_ptr list, queue_view, ref_cq, script, nat) sys res" where
  "demo_first rc w = start_from ref_ext 1 5 demo_sender rc (fresh_sys w)"

definition both_loops :: "((ref_cq, script) move + (ref_cq, script) move) list" where
  "both_loops = [Inl (Signal 1), Inr (Signal 1), Inl (Enter 0 8), Inr (Enter 9 8)] @
     concat (replicate 13 [Inl Loop, Inr Loop])"

lemma other_new: "new_context ref_ext other_world"
  unfolding new_context_def other_world_def
  by (intro exI [of _ 17] exI [of _ "\<lambda>t. None"] exI [of _ "([], False)"] exI [of _ 0]) simp

lemma demo_pair_starts:
  assumes "demo_first rc demo_world = Inr s0" and "demo_first rc' other_world = Inr r0"
  shows "two_start ref_ext ref_ext (s0, r0)"
proof -
  have "start_sys ref_ext s0" "start_sys ref_ext r0"
    using assms demo_new other_new unfolding start_sys_def demo_first_def by blast+
  moreover have "this s0 = 7 \<and> tls s0 = (\<lambda>t. None) \<and> pc s0 = Outside"
    "this r0 = 17 \<and> tls r0 = (\<lambda>t. None) \<and> pc r0 = Outside"
    using assms start_from_threads [of ref_ext 1 5 demo_sender]
    by (simp_all add: demo_first_def) (simp_all add: fresh_sys_def demo_world_def other_world_def GrpcContext_new_def)
  ultimately show ?thesis by (simp add: two_start_def)
qed

theorem contexts_are_independent_witness:
  "\<exists>s r. reachable ref_ext s \<and> reachable ref_ext r \<and> delivered (history (wld s)) = [(5, True)] \<and>
     delivered (history (wld r)) = [(5, True)] \<and> IsRunningOnThisThread 0 (wld s) \<and>
     \<not> IsRunningOnThisThread 0 (wld r)"
proof -
  have "case demo_first quiet_receiver demo_world of Inl e \<Rightarrow> False | Inr s0 \<Rightarrow>
      (case demo_first quiet_receiver other_world of Inl e \<Rightarrow> False | Inr r0 \<Rightarrow>
        (case two_moves ref_ext ref_ext both_loops (s0, r0) of None \<Rightarrow> False | Some (s, r) \<Rightarrow>
          delivered (history (wld s)) = [(5, True)] \<and> delivered (history (wld r)) = [(5, True)] \<and>
          IsRunningOnThisThread 0 (wld s)))"
    unfolding demo_first_def demo_world_def other_world_def both_loops_def by code_simp
  then obtain s0 r0 s r where s0: "demo_first quiet_receiver demo_world = Inr s0" "demo_first quiet_receiver other_world = Inr r0"
    and sr: "two_moves ref_ext ref_ext both_loops (s0, r0) = Some (s, r)"
    and v: "delivered (history (wld s)) = [(5, True)]" "delivered (history (wld r)) = [(5, True)]"
      "IsRunningOnThisThread 0 (wld s)"
    by (auto split: sum.split_asm option.split_asm prod.split_asm)
  from contexts_are_independent [OF demo_pair_starts [OF s0] two_moves_steps [OF sr]] v show ?thesis
    by (intro exI [of _ s] exI [of _ r]) simp
qed

end
