(* ===== verification/Context_Nesting.thy ===== *)
theory Context_Nesting
  imports Context_Pair
begin

text \<open>
  A context that is run inside another one: the continuation of an item of the outer context calls
  \<^verbatim>\<open>Run\<close> of the inner one, and goes on when that has returned. \<^verbatim>\<open>RunImpl\<close> keeps the thread's former
  context in \<^verbatim>\<open>old_context\<close> for this. While the inner loop runs, the thread is not the outer
  context's any more, so an operation or a stop request of the outer one that the inner loop's
  continuations make goes through the remote queue. The theory shows that the inner context always is
  in a state that it can reach alone, and that the outer one differs from such a state in one entry of
  the thread-local at most: while the inner loop runs, the outer loop's thread is marked with the
  inner context and would be marked with the outer one.
  An item is one step of \<^verbatim>\<open>Loop_System\<close>, so the inner loop runs between two items of the outer batch: the
  call of \<^verbatim>\<open>Run\<close> is the last thing that the continuation does. A continuation that does more after the
  inner \<^verbatim>\<open>Run\<close> has returned is not modelled.
\<close>

section \<open>The system\<close>

text \<open>
  The inner context may be run on a thread of its own, or inside an item of the outer one. The
  outer context's thread does not move while the inner one is run on it; other threads, and the
  inner loop's continuations, go on using the outer context from outside.
\<close>

fun uses_thread :: "('cq, 'r) move \<Rightarrow> bool" where
  "uses_thread Loop \<longleftrightarrow> True"
| "uses_thread (Enter t p) \<longleftrightarrow> True"
| "uses_thread _ \<longleftrightarrow> False"

definition in_item :: "('q, 'rq, 'cq, 'r, 'u) sys \<Rightarrow> bool" where
  "in_item s \<longleftrightarrow> (case pc s of Executing q \<Rightarrow> True | _ \<Rightarrow> False)"

inductive nest_step ::
  "('q, 'rq, 'cq, 'r, 'u) ext \<Rightarrow> ('q2, 'rq2, 'cq2, 'r2, 'u2) ext \<Rightarrow>
   ('q, 'rq, 'cq, 'r, 'u) sys \<times> ('q2, 'rq2, 'cq2, 'r2, 'u2) sys \<Rightarrow>
   ('q, 'rq, 'cq, 'r, 'u) sys \<times> ('q2, 'rq2, 'cq2, 'r2, 'u2) sys \<Rightarrow> bool" for E F where
  outer_moves: "exec_move E m s = Some s' \<Longrightarrow> own_move m \<Longrightarrow>
     (uses_thread m \<longrightarrow> apart s r \<and> apart s' r) \<Longrightarrow> nest_step E F (s, r) (s', share (tls s') r)"
| inner_moves: "exec_move F m r = Some r' \<Longrightarrow> own_move m \<Longrightarrow> apart s r' \<or> in_item s \<Longrightarrow>
     nest_step E F (s, r) (share (tls r') s, r')"

text \<open>The thread-locals as the outer context would have them without the inner one.\<close>

definition outer_view ::
  "('q, 'rq, 'cq, 'r, 'u) sys \<Rightarrow> ('q2, 'rq2, 'cq2, 'r2, 'u2) sys \<Rightarrow> thread \<Rightarrow> ctx_ref option" where
  "outer_view s r =
     (if \<not> apart s r \<and> in_loop (pc r) then (tls s)(run_thread s \<mapsto> this s) else tls s)"

section \<open>What the outer context allows from outside\<close>

lemma start_from_share:
  "start_from E i p sd rc s = Inr s' \<Longrightarrow> start_from E i p sd rc (share c s) = Inr (share c s')"
  by (auto simp: start_from_def place_def mark_scheduled_def enqueue_from_def remote_enqueue_def share_def
      Let_def split: prod.split if_split_asm option.split_asm)

lemma outside_move_keeps:
  assumes "exec_move E m s = Some s'" and "own_move m" and "\<not> uses_thread m"
  shows "this s' = this s \<and> tls s' = tls s \<and> pc s' = pc s \<and> run_thread s' = run_thread s \<and>
    old_context s' = old_context s"
proof (cases m)
  case (Start i p sd rc)
  then have "start_from E i p sd rc s = Inr s'"
    using assms(1) by (auto split: if_split_asm sum.split_asm)
  then show ?thesis by (rule start_from_threads)
qed (use assms in \<open>auto simp: enqueue_from_def remote_enqueue_def SignalRemoteQueue_def ShutDown_def
      Let_def split: if_split_asm sum.split_asm option.split_asm prod.split_asm\<close>)

lemma outside_move_share:
  assumes "exec_move E m s = Some s'" and "own_move m" and "\<not> uses_thread m"
    and "in_item s" and "\<And>i. i \<noteq> run_thread s \<Longrightarrow> c i = tls s i"
  shows "loop_step E (share c s) (share c s')"
proof -
  have out: "from_outside i (share c s)" if "\<not> IsRunningOnThisThread i (wld s)" for i
    using that assms(4) assms(5) [of i]
    by (cases "i = run_thread s") (auto simp: from_outside_def IsRunningOnThisThread_def in_item_def share_def
        split: pc.split_asm)
  show ?thesis
  proof (cases m)
    case (Start i p sd rc)
    then have "start_from E i p sd rc s = Inr s'" "i \<notin> set (signalling s)" "\<not> IsRunningOnThisThread i (wld s)"
      using assms(1) by (auto split: if_split_asm sum.split_asm)
    then show ?thesis using out start_from_share
      by (intro loop_step.remote_start [of i _ E p sd rc]) (auto simp: share_def)
  next
    case (Stop_request i)
    then obtain p where p: "stop_callback (wld s) = Some p" "i \<notin> set (signalling s)"
      "\<not> IsRunningOnThisThread i (wld s)" "s' = enqueue_from E i p s ((wld s)\<lparr>stop_callback := None\<rparr>)"
      using assms(1) by (auto split: if_split_asm option.split_asm)
    have "share c s' = enqueue_from E i p (share c s) ((wld (share c s))\<lparr>stop_callback := None\<rparr>)"
      unfolding p(4) by (simp add: enqueue_from_def remote_enqueue_def share_def Let_def split: prod.split)
    then show ?thesis using loop_step.remote_stop [of i "share c s" p E] out p(1-3) by (simp add: share_def)
  next
    case (Signal i)
    then obtain cq where cq: "cq_alarm_set E (completion_queue (wld s)) None = Some cq"
      "i \<in> set (signalling s)"
      "s' = s\<lparr>wld := (wld s)\<lparr>completion_queue := cq\<rparr>, signalling := remove1 i (signalling s)\<rparr>"
      using assms(1) by (auto simp: SignalRemoteQueue_def split: if_split_asm sum.split_asm option.split_asm)
    have s': "share c s' = (share c s)\<lparr>wld := (wld (share c s))\<lparr>completion_queue := cq\<rparr>,
        signalling := remove1 i (signalling (share c s))\<rparr>"
      unfolding cq(3) by (simp add: share_def)
    have "SignalRemoteQueue E (wld (share c s)) = Inr ((wld (share c s))\<lparr>completion_queue := cq\<rparr>)"
      "i \<in> set (signalling (share c s))"
      using cq(1,2) by (simp_all add: share_def SignalRemoteQueue_def)
    from loop_step.remote_signal [OF this(2,1)] show ?thesis by (simp only: s')
  next
    case (Shut_down i)
    then have s': "share c s' = (share c s)\<lparr>wld := ShutDown E (wld (share c s))\<rparr>"
      and "i \<notin> set (signalling (share c s))"
      using assms(1) by (auto simp: share_def ShutDown_def split: if_split_asm)
    from loop_step.remote_shutdown [OF this(2)] show ?thesis by (simp only: s')
  next
    case (Progress cq)
    then have s': "share c s' = (share c s)\<lparr>wld := (wld (share c s))\<lparr>completion_queue := cq\<rparr>\<rparr>"
      and "cq_progress E (completion_queue (wld (share c s))) cq"
      using assms(1) by (auto simp: share_def split: if_split_asm)
    from loop_step.grpc_progress [of E "share c s" cq, OF this(2)] show ?thesis by (simp only: s')
  qed (use assms in simp_all)
qed

section \<open>The invariant\<close>

text \<open>
  Each context marks exactly the thread that runs it, except that the outer one's thread is marked
  with the inner one while it is run there; and what a loop restores when it is left is no
  leftover of its own or of the other context, but the outer context for an inner loop.
\<close>

definition nest_inv ::
  "('q, 'rq, 'cq, 'r, 'u) ext \<Rightarrow> ('q2, 'rq2, 'cq2, 'r2, 'u2) ext \<Rightarrow>
   ('q, 'rq, 'cq, 'r, 'u) sys \<times> ('q2, 'rq2, 'cq2, 'r2, 'u2) sys \<Rightarrow> bool" where
  "nest_inv E F = (\<lambda>(s, r).
     reachable E (share (outer_view s r) s) \<and> reachable F r \<and> tls s = tls r \<and> this s \<noteq> this r \<and>
     (\<not> apart s r \<longrightarrow> in_item s) \<and>
     (\<forall>t. tls s t = Some (this s) \<longleftrightarrow>
        in_loop (pc s) \<and> t = run_thread s \<and> \<not> (\<not> apart s r \<and> in_loop (pc r))) \<and>
     (\<forall>t. tls s t = Some (this r) \<longleftrightarrow> in_loop (pc r) \<and> t = run_thread r) \<and>
     (in_loop (pc s) \<longrightarrow> old_context s \<noteq> Some (this s) \<and> old_context s \<noteq> Some (this r)) \<and>
     (in_loop (pc r) \<longrightarrow> old_context r \<noteq> Some (this r) \<and> (old_context r = Some (this s) \<longleftrightarrow> \<not> apart s r)))"

lemma in_item_loop: "in_item s \<Longrightarrow> in_loop (pc s)"
  by (auto simp: in_item_def in_loop_def split: pc.split_asm)

lemma in_item_share [simp]: "in_item (share c s) = in_item s"
  by (simp add: in_item_def share_def)

lemma share_share [simp]: "share c (share d s) = share c s"
  by (simp add: share_def)

lemma reachable_loop_step: "reachable E s \<Longrightarrow> loop_step E s s' \<Longrightarrow> reachable E s'"
  unfolding reachable_def by (meson rtranclp.rtrancl_into_rtrancl)

text \<open>A move of the outer context from outside, while the inner one may be run on its thread.\<close>

lemma outer_quiet_inv:
  assumes inv: "nest_inv E F (s, r)" and nested: "\<not> apart s r"
    and move: "exec_move E m s = Some s'" "own_move m" "\<not> uses_thread m"
  shows "nest_inv E F (s', share (tls s') r)"
proof -
  have item: "in_item s" using inv nested by (simp add: nest_inv_def)
  note same = outside_move_keeps [OF move]
  have "loop_step E (share (outer_view s r) s) (share (outer_view s r) s')"
    by (rule outside_move_share [OF move item]) (simp add: outer_view_def)
  then have "reachable E (share (outer_view s r) s')"
    using inv reachable_loop_step by (auto simp: nest_inv_def)
  moreover have "outer_view s' (share (tls s') r) = outer_view s r"
    using same by (simp add: outer_view_def apart_def)
  moreover have "share (tls s') r = r" "in_item s'" using inv same item by (simp_all add: nest_inv_def in_item_def)
  moreover have "apart s' r = apart s r" using same by (simp add: apart_def)
  ultimately show ?thesis using inv same unfolding nest_inv_def by auto
qed

text \<open>A move of the outer context while the inner one is not run on its thread.\<close>

lemma outer_move_inv:
  assumes inv: "nest_inv E F (s, r)" and ap: "apart s r" "apart s' r"
    and move: "exec_move E m s = Some s'" "own_move m"
  shows "nest_inv E F (s', share (tls s') r)"
proof -
  have both: "reachable E s" "reachable F r" "tls s = tls r" "this s \<noteq> this r"
    using inv ap by (simp_all add: nest_inv_def outer_view_def)
  have "marks_own (this r) s" "marks_own (this s) r"
    using inv ap(1) unfolding nest_inv_def marks_own_def by auto
  from own_move_two [OF move ap(2) both(1) this(1) both(2) this(2) ap(1) both(3,4)]
  show ?thesis using ap(2) both(4) unfolding nest_inv_def marks_own_def
    by (auto simp: outer_view_def)
qed

lemma leaves_run:
  assumes "exec_move F m r = Some r'" and "in_loop (pc r) \<and> \<not> in_loop (pc r')"
  shows "\<not> in_run (pc r')"
proof (cases m)
  case Loop
  then have "loop_next F r (pc r) = Some r'" using assms(1) by simp
  with assms(2) show ?thesis
    by (cases "pc r") (auto simp: in_run_def in_loop_def split: if_split_asm option.split_asm prod.split_asm
        sum.split_asm)
next
  case (Start i p sd rc)
  then have "start_from F i p sd rc r = Inr r'"
    using assms(1) by (auto split: if_split_asm sum.split_asm)
  from start_from_threads [OF this] assms(2) show ?thesis by simp
qed (use assms in \<open>auto simp: in_loop_def enqueue_from_def Let_def split: if_split_asm sum.split_asm
      option.split_asm prod.split_asm\<close>)

text \<open>The inner context enters on the outer one's thread, or leaves it.\<close>

lemma inner_move_inv:
  assumes inv: "nest_inv E F (s, r)" and ap: "apart s r' \<or> in_item s"
    and move: "exec_move F m r = Some r'" "own_move m"
  shows "nest_inv E F (share (tls r') s, r')"
proof -
  have r': "reachable F r'"
    using inv exec_move_step [OF move(1)] reachable_loop_step by (auto simp: nest_inv_def)
  have kinds: "this r' = this r" "silent r r' \<or> enters r r' \<or> leaves r r'"
    using own_move_threads [OF move] by auto
  have s: "reachable E (share (outer_view s r) s)" "tls r = tls s" "in_item s \<Longrightarrow> in_loop (pc s)"
    using inv in_item_loop by (simp_all add: nest_inv_def)
  have item: "\<not> apart s r \<or> \<not> apart s r' \<Longrightarrow> in_item s" using inv ap by (auto simp: nest_inv_def)
  from kinds(2) consider (same) "silent r r'" | (alone) "apart s r" "apart s r'"
    | (enter) "enters r r'" "\<not> apart s r" | (leave) "leaves r r'" "\<not> apart s r"
    | (other) "\<not> silent r r'" "apart s r" "\<not> apart s r'" by blast
  then show ?thesis
  proof cases
    case same
    have "in_loop (pc r) \<Longrightarrow> apart s r' = apart s r"
      using same by (auto simp: silent_def apart_def in_run_def)
    moreover have "outer_view s r' = outer_view s r"
      using same calculation by (auto simp: outer_view_def silent_def)
    moreover have "share (tls r') s = s" using same s(2) by (simp add: silent_def)
    ultimately show ?thesis
      using inv r' kinds(1) item same unfolding nest_inv_def silent_def by auto
  next
    case alone
    then have ap': "apart r s" "apart r' s" by (auto intro: apart_sym)
    have "reachable E s" "reachable F r" "this r \<noteq> this s"
      using inv alone(1) by (auto simp: nest_inv_def outer_view_def)
    moreover have "marks_own (this r) s" "marks_own (this s) r"
      using inv alone(1) unfolding nest_inv_def marks_own_def by auto
    ultimately have "reachable E (share (tls r') s) \<and> marks_own (this s) r' \<and> marks_own (this r) (share (tls r') s)"
      using own_move_two [OF move ap'(2), of E] ap'(1) s(2) by auto
    then show ?thesis
      using inv r' kinds(1) alone(2) unfolding nest_inv_def marks_own_def by (auto simp: outer_view_def)
  next
    case enter
    then have t: "run_thread r = run_thread s" "\<not> in_loop (pc r)" "in_loop (pc r')" "run_thread r' = run_thread r"
      "tls r' = (tls r)(run_thread r \<mapsto> this r)" "old_context r' = tls r (run_thread r)"
      by (auto simp: enters_def apart_def in_loop_def)
    have nested': "\<not> apart s r'" using enter t by (auto simp: apart_def in_run_def)
    have own: "tls s (run_thread s) = Some (this s)"
      using inv item enter(2) in_item_loop t(2) by (auto simp: nest_inv_def)
    have "outer_view (share (tls r') s) r' = tls s"
      using own t nested' s(2) by (auto simp: outer_view_def fun_eq_iff)
    moreover have "reachable E s" "share (tls s) s = s" using s(1) t(2) by (simp_all add: outer_view_def)
    ultimately have "reachable E (share (outer_view (share (tls r') s) r') (share (tls r') s))" by simp
    then show ?thesis
      using inv r' kinds(1) item enter(2) nested' t own in_item_loop unfolding nest_inv_def
      by (auto split: if_split_asm)
  next
    case leave
    then have t: "run_thread r = run_thread s" "in_loop (pc r)" "\<not> in_loop (pc r')"
      "tls r' = (tls r)(run_thread r := old_context r)"
      by (auto simp: leaves_def apart_def)
    have old: "old_context r = Some (this s)" using inv t(2) leave(2) by (simp add: nest_inv_def)
    have "outer_view (share (tls r') s) r' = outer_view s r"
      using t old s(2) leave(2) by (simp add: outer_view_def)
    then show ?thesis
      using inv r' kinds(1) item leave(2) t old s(1,3) unfolding nest_inv_def by (auto split: if_split_asm)
  next
    case other
    then have "leaves r r'" using kinds(2) by (auto simp: enters_def apart_def in_run_def)
    then have "\<not> in_run (pc r')" using leaves_run [OF move(1)] by (simp add: leaves_def)
    with other(3) show ?thesis by (simp add: apart_def)
  qed
qed

lemma nest_step_inv: "nest_step E F x y \<Longrightarrow> nest_inv E F x \<Longrightarrow> nest_inv E F y"
proof (induction rule: nest_step.induct)
  case (outer_moves m s s' r)
  show ?case
  proof (cases "apart s r \<and> apart s' r")
    case True
    then show ?thesis using outer_moves outer_move_inv by blast
  next
    case False
    then have "\<not> uses_thread m" using outer_moves.hyps(3) by blast
    moreover from this have "\<not> apart s r"
      using False outside_move_keeps [OF outer_moves.hyps(1,2)] by (auto simp: apart_def)
    ultimately show ?thesis using outer_moves outer_quiet_inv by blast
  qed
next
  case (inner_moves m r r' s)
  then show ?case using inner_move_inv by blast
qed

interpretation nesting: inductive_invariant "two_start E F" "nest_step E F" "nest_inv E F"
  for E :: "('q, 'rq, 'cq, 'r, 'u) ext" and F :: "('q2, 'rq2, 'cq2, 'r2, 'u2) ext"
proof unfold_locales
  fix x assume "two_start E F x"
  then show "nest_inv E F x"
    by (auto simp: two_start_def nest_inv_def reachable_def apart_def in_run_def in_loop_def outer_view_def
        in_item_def split: prod.split_asm)
qed (rule nest_step_inv)

text \<open>
  C17. A context can be run by a continuation of another one, as the last thing that the continuation does,
  that is between two items of the outer batch. However the two loops, other threads and gRPC interleave, the inner
  context is in a state that it can reach alone. While no inner loop runs on the outer loop's thread, so is
  the outer one, and its thread is marked as its own. While an inner loop runs there, the thread is
  marked with the inner context, \<^verbatim>\<open>IsRunningOnThisThread\<close> is false of the outer one on every thread, and
  so whatever is started on it goes through the remote queue; the outer state with this one entry of
  the thread-local put back, which is what the inner loop does when it is left, is one that the outer
  context can reach alone. (Alone: in \<^verbatim>\<open>loop_step\<close>, which lets the loop's
  thread use its own context from outside while it executes a batch.)
\<close>
theorem contexts_nest:
  assumes "two_start E F (s0, r0)" and "(nest_step E F)\<^sup>*\<^sup>* (s0, r0) (s, r)"
  shows "reachable F r \<and> reachable E (share (outer_view s r) s) \<and>
    (if \<not> apart s r \<and> in_loop (pc r)
     then in_item s \<and> old_context r = Some (this s) \<and>
       (\<forall>t. \<not> IsRunningOnThisThread t (wld s)) \<and> IsRunningOnThisThread (run_thread s) (wld r) \<and>
       outer_view s r = (tls s)(run_thread s \<mapsto> this s)
     else reachable E s \<and> outer_view s r = tls s \<and> share (outer_view s r) s = s \<and>
       (\<forall>t. IsRunningOnThisThread t (wld s) \<longleftrightarrow> in_loop (pc s) \<and> t = run_thread s))"
proof -
  have inv: "nest_inv E F (s, r)" using nesting.holds_from_start [OF assms] .
  then have both: "reachable F r" "reachable E (share (outer_view s r) s)" by (simp_all add: nest_inv_def)
  show ?thesis
  proof (cases "\<not> apart s r \<and> in_loop (pc r)")
    case True
    then have "run_thread s = run_thread r" by (simp add: apart_def)
    moreover have "outer_view s r = (tls s)(run_thread s \<mapsto> this s)" using True by (simp add: outer_view_def)
    ultimately show ?thesis using True inv both by (auto simp: nest_inv_def IsRunningOnThisThread_def)
  next
    case False
    then have "outer_view s r = tls s" by (simp only: outer_view_def if_False)
    moreover have "tls s t = Some (this s) \<longleftrightarrow> in_loop (pc s) \<and> t = run_thread s" for t
      using False inv unfolding nest_inv_def by blast
    moreover have "share (tls s) s = s" by (rule share_same)
    ultimately show ?thesis using False both unfolding IsRunningOnThisThread_def by auto
  qed
qed

section \<open>An execution\<close>

fun nest_moves ::
  "('q, 'rq, 'cq, 'r, 'u) ext \<Rightarrow> ('q2, 'rq2, 'cq2, 'r2, 'u2) ext \<Rightarrow> (('cq, 'r) move + ('cq2, 'r2) move) list \<Rightarrow>
   ('q, 'rq, 'cq, 'r, 'u) sys \<times> ('q2, 'rq2, 'cq2, 'r2, 'u2) sys \<Rightarrow>
   (('q, 'rq, 'cq, 'r, 'u) sys \<times> ('q2, 'rq2, 'cq2, 'r2, 'u2) sys) option" where
  "nest_moves E F [] x = Some x"
| "nest_moves E F (Inl m # ms) (s, r) =
     (case exec_move E m s of None \<Rightarrow> None | Some s' \<Rightarrow>
        if own_move m \<and> (uses_thread m \<longrightarrow> apart s r \<and> apart s' r)
        then nest_moves E F ms (s', share (tls s') r) else None)"
| "nest_moves E F (Inr m # ms) (s, r) =
     (case exec_move F m r of None \<Rightarrow> None | Some r' \<Rightarrow>
        if own_move m \<and> (apart s r' \<or> in_item s) then nest_moves E F ms (share (tls r') s, r') else None)"

lemma nest_moves_steps: "nest_moves E F ms x = Some y \<Longrightarrow> (nest_step E F)\<^sup>*\<^sup>* x y"
  by (induction E F ms x rule: nest_moves.induct)
    (auto split: option.split_asm if_split_asm intro: nest_step.intros converse_rtranclp_into_rtranclp)

text \<open>
  Thread 0 runs the outer context; in the continuation of its first call it runs the inner one, whose
  first continuation starts a call on the outer context and then shuts the inner queue down. When
  the inner \<^verbatim>\<open>Run\<close> has returned, the outer loop takes the call over, and then blocks in \<^verbatim>\<open>Next\<close> before it
  executes it, as \<^verbatim>\<open>Loop_Stall\<close> shows.
\<close>

definition up_to_nested :: "((ref_cq, script) move + (ref_cq, script) move) list" where
  "up_to_nested = map Inl ([Signal 1, Enter 0 8] @ replicate 13 Loop) @
     map Inr ([Signal 1, Enter 0 8] @ replicate 13 Loop) @ [Inl (Start 0 6 demo_sender quiet_receiver)]"

definition after_nested :: "((ref_cq, script) move + (ref_cq, script) move) list" where
  "after_nested = [Inl (Signal 0)] @ map Inr (replicate 4 Loop) @ map Inl (replicate 7 Loop)"

lemma run_caseD:
  "(case x of Inl e \<Rightarrow> False | Inr y \<Rightarrow> P y) \<Longrightarrow> \<exists>y. x = Inr y \<and> P y"
  "(case z of None \<Rightarrow> False | Some (s, r) \<Rightarrow> Q s r) \<Longrightarrow> \<exists>s r. z = Some (s, r) \<and> Q s r"
  by (cases x; simp) (cases z; auto)

theorem contexts_nest_witness:
  "\<exists>s r s' r'. nest_moves ref_ext ref_ext after_nested (s, r) = Some (s', r') \<and>
     remote_queue (wld s) = Active [6] \<and> (\<forall>t. \<not> IsRunningOnThisThread t (wld s)) \<and>
     IsRunningOnThisThread 0 (wld r) \<and>
     local_queue (wld s') = [6] \<and> reachable ref_ext s' \<and> IsRunningOnThisThread 0 (wld s')"
proof -
  have "case demo_first quiet_receiver demo_world of Inl e \<Rightarrow> False | Inr s0 \<Rightarrow>
      (case demo_first (Script [ShutDown_queue] False) other_world of Inl e \<Rightarrow> False | Inr r0 \<Rightarrow>
        (case nest_moves ref_ext ref_ext up_to_nested (s0, r0) of None \<Rightarrow> False | Some (s, r) \<Rightarrow>
          \<not> apart s r \<and> in_loop (pc r) \<and> run_thread s = 0 \<and> remote_queue (wld s) = Active [6] \<and>
          (case nest_moves ref_ext ref_ext after_nested (s, r) of None \<Rightarrow> False | Some (s', r') \<Rightarrow>
            \<not> in_loop (pc r') \<and> in_loop (pc s') \<and> run_thread s' = 0 \<and> local_queue (wld s') = [6])))"
    unfolding demo_first_def demo_world_def other_world_def up_to_nested_def after_nested_def
    by code_simp
  then obtain s0 r0 s r s' r' where s0: "demo_first quiet_receiver demo_world = Inr s0"
      "demo_first (Script [ShutDown_queue] False) other_world = Inr r0"
    and sr: "nest_moves ref_ext ref_ext up_to_nested (s0, r0) = Some (s, r)"
      "nest_moves ref_ext ref_ext after_nested (s, r) = Some (s', r')"
    and v: "\<not> apart s r" "in_loop (pc r)" "run_thread s = 0" "remote_queue (wld s) = Active [6]"
    and v': "\<not> in_loop (pc r')" "in_loop (pc s')" "run_thread s' = 0" "local_queue (wld s') = [6]"
    by (elim run_caseD [elim_format] exE conjE) (rule that)
  have start: "two_start ref_ext ref_ext (s0, r0)" using s0 by (rule demo_pair_starts)
  note nest = nest_moves_steps [OF sr(1)]
  have in_nested: "\<not> apart s r \<and> in_loop (pc r)" using v(1,2) by blast
  have "(\<forall>t. \<not> IsRunningOnThisThread t (wld s)) \<and> IsRunningOnThisThread 0 (wld r)"
    using contexts_nest [OF start nest, unfolded if_P [OF in_nested] v(3)] by blast
  moreover have left: "\<not> (\<not> apart s' r' \<and> in_loop (pc r'))" using v'(1) by blast
  have "reachable ref_ext s'" "IsRunningOnThisThread 0 (wld s')"
    using contexts_nest [OF start rtranclp_trans [OF nest nest_moves_steps [OF sr(2)]], unfolded if_not_P [OF left]]
      v'(2,3) by metis+
  ultimately show ?thesis using sr(2) v(4) v'(4) by blast
qed

end
