(* ===== verification/Loop_Log.thy ===== *)
theory Loop_Log
  imports Loop_Execution Log_Macros
begin

text \<open>
  What the run loop writes to the log in a debug build. The loop of \<^verbatim>\<open>grpc_context.cc\<close> once more,
  with its \<^verbatim>\<open>AGRPC_DLOG_INFO\<close> statements in place; the prefix providers see the client's state, and the
  loop goes on with the state that a log statement leaves. With providers that only append, that is the
  state before, and the loop with its log does what the loop without does. And what the lines of a
  run look like.
\<close>

section \<open>Log statements\<close>

text \<open>
  Code that logs gives the lines written so far with its result. A log statement evaluates its
  providers and its message on the client's state, and may change it. A provider that throws ends the
  process, because \<^verbatim>\<open>FormatLog\<close> is \<^verbatim>\<open>noexcept\<close>: the outcome \<open>Terminated\<close>.
\<close>

type_synonym log_lines = "(severity \<times> string) list"

definition dlog ::
  "'u config \<Rightarrow> nat \<Rightarrow> string \<Rightarrow> ('q, 'rq, 'cq, 'r, 'u) world \<Rightarrow> log_lines \<Rightarrow>
   (('q, 'rq, 'cq, 'r, 'u) world \<times> log_lines) option" where
  "dlog cfg line msg w ls =
     (case seq_all (AGRPC_DLOG cfg INFO ''grpc_context.cc'' line (Some (\<lambda>u. (Inr msg, u))))
             \<lparr>env = client w, written = ls\<rparr> of
       Continues lw \<Rightarrow> Some (w\<lparr>client := env lw\<rparr>, written lw)
     | _ \<Rightarrow> None)"

fun say ::
  "('w \<times> log_lines) option \<Rightarrow> ('w \<Rightarrow> log_lines \<Rightarrow> ('a \<times> log_lines) res option) \<Rightarrow>
   ('a \<times> log_lines) res option" where
  "say None rest = Some (Inl Terminated)"
| "say (Some (w, ls)) rest = rest w ls"

section \<open>The loop with its log\<close>

definition ExecutePendingLocal_logged ::
  "'u config \<Rightarrow> ('q, 'rq, 'cq, 'r, 'u) ext \<Rightarrow> thread \<Rightarrow> ('q, 'rq, 'cq, 'r, 'u) world \<Rightarrow> log_lines \<Rightarrow>
   (('q, 'rq, 'cq, 'r, 'u) world \<times> log_lines) res option" where
  "ExecutePendingLocal_logged cfg E t w ls =
     (if iq_is_empty E (local_queue w)
      then say (dlog cfg 99 ''local queue is empty'' w ls) (\<lambda>w ls1. Some (Inr (w, ls1)))
      else say (dlog cfg 103 ''Processing local queue items'' w ls) (\<lambda>w ls1.
        case run_pending E t (local_queue w) 0 (w\<lparr>local_queue := iq_moved_from E (local_queue w)\<rparr>) of
          None \<Rightarrow> None
        | Some (Inl e) \<Rightarrow> Some (Inl e)
        | Some (Inr (n, w1)) \<Rightarrow>
            say (dlog cfg 113 (''Processed '' @ decimal n @ '' local queue items'') w1 ls1)
              (\<lambda>w1 ls2. Some (Inr (w1, ls2)))))"

definition TryScheduleRemoteQueuedItems_logged ::
  "'u config \<Rightarrow> ('q, 'rq, 'cq, 'r, 'u) ext \<Rightarrow> ('q, 'rq, 'cq, 'r, 'u) world \<Rightarrow> log_lines \<Rightarrow>
   ((bool \<times> ('q, 'rq, 'cq, 'r, 'u) world) \<times> log_lines) res option" where
  "TryScheduleRemoteQueuedItems_logged cfg E w ls =
     (let (queued_items, rq) = aiq_try_mark_inactive_or_dequeue_all E (remote_queue w);
          w1 = w\<lparr>remote_queue := rq\<rparr>
      in if \<not> iq_is_empty E queued_items
         then say (dlog cfg 134 ''Schedule remote queued items'' w1 ls)
                (\<lambda>w1 ls1. Some (Inr ((False, ScheduleLocal_queue E queued_items w1), ls1)))
         else say (dlog cfg 138 ''Remote queue is empty'' w1 ls) (\<lambda>w1 ls1. Some (Inr ((True, w1), ls1))))"

definition check_remote_logged ::
  "'u config \<Rightarrow> ('q, 'rq, 'cq, 'r, 'u) ext \<Rightarrow> ('q, 'rq, 'cq, 'r, 'u) world \<Rightarrow> log_lines \<Rightarrow>
   (('q, 'rq, 'cq, 'r, 'u) world \<times> log_lines) res option" where
  "check_remote_logged cfg E w ls =
     (if \<not> remote_queue_read_submitted w
      then map_option (\<lambda>r. bind_res r (\<lambda>((b, w1), ls1). Inr (w1\<lparr>remote_queue_read_submitted := b\<rparr>, ls1)))
             (TryScheduleRemoteQueuedItems_logged cfg E w ls)
      else Some (Inr (w, ls)))"

partial_function (option) run_loop_logged ::
  "'u config \<Rightarrow> ('q, 'rq, 'cq, 'r, 'u) ext \<Rightarrow> thread \<Rightarrow> op_ptr \<Rightarrow> ('q, 'rq, 'cq, 'r, 'u) world \<Rightarrow>
   log_lines \<Rightarrow> (('q, 'rq, 'cq, 'r, 'u) world \<times> log_lines) res option" where
  "run_loop_logged cfg E t stop_op w ls =
     (case ExecutePendingLocal_logged cfg E t w ls of
       None \<Rightarrow> None
     | Some (Inl e) \<Rightarrow> Some (Inl e)
     | Some (Inr (w1, ls1)) \<Rightarrow>
         if stopped (heap w1) stop_op then Some (Inr (w1, ls1))
         else
           (case check_remote_logged cfg E w1 ls1 of
             None \<Rightarrow> None
           | Some (Inl e) \<Rightarrow> Some (Inl e)
           | Some (Inr (w2, ls2)) \<Rightarrow>
               (case AcquireCompletionQueueItems E w2 of
                 None \<Rightarrow> None
               | Some (b, w3) \<Rightarrow>
                   if \<not> b then Some (Inr (w3, ls2)) else run_loop_logged cfg E t stop_op w3 ls2)))"

declare run_loop_logged.simps [code]

text \<open>\<^verbatim>\<open>RunImpl\<close>: the last line is written by the scope guard, after the former context is back.\<close>

definition RunImpl_logged ::
  "'u config \<Rightarrow> ('q, 'rq, 'cq, 'r, 'u) ext \<Rightarrow> thread \<Rightarrow> op_ptr \<Rightarrow> ('q, 'rq, 'cq, 'r, 'u) world \<Rightarrow>
   log_lines \<Rightarrow> (('q, 'rq, 'cq, 'r, 'u) world \<times> log_lines) res option" where
  "RunImpl_logged cfg E t stop_op w ls =
     say (dlog cfg 41 ''Run loop started'' w ls) (\<lambda>w ls1.
       let old_context = current_thread_context w t
       in (case run_loop_logged cfg E t stop_op (enter_context t (Some (this_context w)) w) ls1 of
            None \<Rightarrow> None
          | Some (Inl e) \<Rightarrow> Some (Inl e)
          | Some (Inr (w1, ls2)) \<Rightarrow>
              (let w2 = enter_context t old_context w1
               in say (dlog cfg 46 ''Run loop exited'' w2 ls2) (\<lambda>w2 ls3. Some (Inr (w2, ls3))))))"

section \<open>The loop does what it does without log\<close>

text \<open>A debug line is written when every provider only appends; in a release build there is none.\<close>

definition logs_safely :: "'u config \<Rightarrow> bool" where
  "logs_safely cfg \<longleftrightarrow> ndebug cfg \<or> (\<exists>fs. list_all2 appending (providers cfg) fs)"

definition prefix_text :: "('u \<Rightarrow> string) list \<Rightarrow> 'u \<Rightarrow> string" where
  "prefix_text fs u = concat (map (\<lambda>f. spaced (f u)) fs)"

lemma dlog_release: "ndebug cfg \<Longrightarrow> dlog cfg line msg w ls = Some (w, ls)"
  by (simp add: dlog_def AGRPC_DLOG_def)

lemma dlog_debug:
  "\<not> ndebug cfg \<Longrightarrow> list_all2 appending (providers cfg) fs \<Longrightarrow>
   dlog cfg line msg w ls = Some (w, ls @ [(INFO, prefix_text fs (client w) @ msg)])"
  by (simp add: dlog_def AGRPC_DLOG_def log_line_def FormatLog_appending emit_def less_eq_severity_def
      no_text_def prefix_text_def)

lemma dlog_safely: "logs_safely cfg \<Longrightarrow> \<exists>ls'. dlog cfg line msg w ls = Some (w, ls')"
  using dlog_debug dlog_release unfolding logs_safely_def by blast

lemma say_safely:
  assumes "logs_safely cfg"
  obtains ls' where "\<And>rest. say (dlog cfg line msg w ls) rest = rest w ls'"
  using dlog_safely [OF assms, of line msg w ls] by auto

text \<open>The outcome without the lines.\<close>

abbreviation erase :: "('a \<times> log_lines) res \<Rightarrow> 'a res" where
  "erase \<equiv> map_sum id fst"

lemma ExecutePendingLocal_erase:
  assumes "logs_safely cfg"
  shows "map_option erase (ExecutePendingLocal_logged cfg E t w ls) =
    map_option (map_sum id snd) (ExecutePendingLocal E t w)"
proof -
  note safe = dlog_safely [OF assms]
  obtain ls1 ls2 where l: "dlog cfg 99 ''local queue is empty'' w ls = Some (w, ls1)"
    "dlog cfg 103 ''Processing local queue items'' w ls = Some (w, ls2)"
    using safe by blast
  let ?run = "run_pending E t (local_queue w) 0 (w\<lparr>local_queue := iq_moved_from E (local_queue w)\<rparr>)"
  have ran: "map_option erase (say (dlog cfg 113 m w1 ls2) (\<lambda>w1 ls3. Some (Inr (w1, ls3)))) = Some (Inr w1)" for m w1
    using safe [of 113 m w1 ls2] by auto
  show ?thesis
  proof (cases "iq_is_empty E (local_queue w)")
    case True
    then show ?thesis by (simp add: ExecutePendingLocal_logged_def ExecutePendingLocal_def l)
  next
    case False
    show ?thesis
    proof (cases ?run)
      case None
      then show ?thesis using False by (simp add: ExecutePendingLocal_logged_def ExecutePendingLocal_def l)
    next
      case (Some r)
      then show ?thesis using False ran
        by (cases r) (auto simp: ExecutePendingLocal_logged_def ExecutePendingLocal_def l)
    qed
  qed
qed

lemma ExecutePendingLocal_logged_Some:
  assumes "logs_safely cfg" and "ExecutePendingLocal_logged cfg E t w ls = Some y"
  shows "y = Inl e \<Longrightarrow> ExecutePendingLocal E t w = Some (Inl e)"
    and "y = Inr (w1, ls1) \<Longrightarrow> \<exists>n. ExecutePendingLocal E t w = Some (Inr (n, w1))"
proof -
  obtain z where "ExecutePendingLocal E t w = Some z" "map_sum id snd z = erase y"
    using ExecutePendingLocal_erase [OF assms(1), of E t w ls] assms(2)
    by (cases "ExecutePendingLocal E t w") simp_all
  then show "y = Inl e \<Longrightarrow> ExecutePendingLocal E t w = Some (Inl e)"
    and "y = Inr (w1, ls1) \<Longrightarrow> \<exists>n. ExecutePendingLocal E t w = Some (Inr (n, w1))"
    by (cases z; auto)+
qed

lemma TrySchedule_erase:
  assumes "logs_safely cfg"
  shows "\<exists>ls'. TryScheduleRemoteQueuedItems_logged cfg E w ls =
    Some (Inr (TryScheduleRemoteQueuedItems E w, ls'))"
proof -
  obtain queued rq where deq: "aiq_try_mark_inactive_or_dequeue_all E (remote_queue w) = (queued, rq)"
    by (rule prod.exhaust)
  obtain ls1 ls2 where
    "dlog cfg 134 ''Schedule remote queued items'' (w\<lparr>remote_queue := rq\<rparr>) ls = Some (w\<lparr>remote_queue := rq\<rparr>, ls1)"
    "dlog cfg 138 ''Remote queue is empty'' (w\<lparr>remote_queue := rq\<rparr>) ls = Some (w\<lparr>remote_queue := rq\<rparr>, ls2)"
    using dlog_safely [OF assms] by blast
  then show ?thesis
    by (simp add: TryScheduleRemoteQueuedItems_logged_def TryScheduleRemoteQueuedItems_def deq
        Let_def)
qed

lemma check_remote_erase:
  assumes "logs_safely cfg"
  shows "\<exists>ls'. check_remote_logged cfg E w ls = Some (Inr (check_remote_queue E w, ls'))"
  using TrySchedule_erase [OF assms, of E w ls]
  by (auto simp: check_remote_logged_def check_remote_queue_def split: prod.split)

text \<open>Each loop does what the other does.\<close>

lemma run_loop_logged_erase:
  assumes "run_loop_logged cfg E t p w ls = Some y" and "logs_safely cfg"
  shows "run_loop E t p w = Some (erase y)"
proof -
  have "logs_safely cfg \<longrightarrow> run_loop E t p w = Some (erase y)"
    using assms(1)
  proof (induction rule: run_loop_logged.raw_induct [rotated 1, consumes 1, case_names round])
    case (round rec cfg E t p w ls y)
    show ?case
    proof
      assume safe: "logs_safely cfg"
      show "run_loop E t p w = Some (erase y)"
      proof (cases "ExecutePendingLocal_logged cfg E t w ls")
        case None
        then show ?thesis using round(2) by simp
      next
        case (Some r)
        note lp = ExecutePendingLocal_logged_Some [OF safe Some]
        show ?thesis
        proof (cases r)
          case (Inl e)
          then show ?thesis using round(2) Some lp(1) [OF Inl] by (subst run_loop.simps) auto
        next
          case (Inr r1)
          obtain w1 ls1 where r1: "r1 = (w1, ls1)" by (rule prod.exhaust)
          obtain n where lp: "ExecutePendingLocal E t w = Some (Inr (n, w1))"
            using lp(2) Inr r1 by blast
          obtain ls2 where poll: "check_remote_logged cfg E w1 ls1 = Some (Inr (check_remote_queue E w1, ls2))"
            using check_remote_erase [OF safe] by blast
          show ?thesis
            using round Some Inr r1 lp poll safe
            by (subst run_loop.simps) (auto simp: id_def split: option.split_asm if_split_asm)
        qed
      qed
    qed
  qed
  with assms(2) show ?thesis by blast
qed

lemma run_loop_has_log:
  assumes "run_loop E t p w = Some r" and "logs_safely cfg"
  shows "\<exists>y. run_loop_logged cfg E t p w ls = Some y"
proof -
  have "logs_safely (cfg :: 'e config) \<longrightarrow> (\<forall>ls. \<exists>y. run_loop_logged cfg E t p w ls = Some y)"
    if "run_loop E t p w = Some r" for E :: "('a, 'b, 'c, 'd, 'e) ext" and t p w r cfg
    using that
  proof (induction rule: run_loop.raw_induct [rotated 1, consumes 1, case_names round])
    case (round rec E t p w r)
    show ?case
    proof (intro impI allI)
      fix ls assume safe: "logs_safely cfg"
      note ex = ExecutePendingLocal_erase [OF safe, of E t w ls]
      have "ExecutePendingLocal E t w \<noteq> None" using round(2) by (auto split: option.split_asm)
      then obtain y where y: "ExecutePendingLocal_logged cfg E t w ls = Some y"
        using ex by (metis option.exhaust option.map_disc_iff)
      show "\<exists>y. run_loop_logged cfg E t p w ls = Some y"
      proof (cases y)
        case (Inl e)
        then show ?thesis using y by (subst run_loop_logged.simps) simp
      next
        case (Inr r1)
        obtain w1 ls1 where r1: "r1 = (w1, ls1)" by (rule prod.exhaust)
        obtain n where lp: "ExecutePendingLocal E t w = Some (Inr (n, w1))"
          using ExecutePendingLocal_logged_Some(2) [OF safe y] Inr r1 by blast
        obtain ls2 where poll: "check_remote_logged cfg E w1 ls1 = Some (Inr (check_remote_queue E w1, ls2))"
          using check_remote_erase [OF safe] by blast
        show ?thesis
          using round y Inr r1 lp poll safe
          by (subst run_loop_logged.simps) (auto split: option.split option.split_asm if_split_asm)
      qed
    qed
  qed
  with assms show ?thesis by blast
qed

lemma run_loop_logged_is_run_loop:
  "logs_safely cfg \<Longrightarrow> map_option erase (run_loop_logged cfg E t p w ls) = run_loop E t p w"
  using run_loop_logged_erase [of cfg E t p w ls] run_loop_has_log [of E t p w _ cfg ls]
  by (cases "run_loop_logged cfg E t p w ls"; cases "run_loop E t p w") auto

section \<open>What the lines say\<close>

datatype entry = Started | Local_empty | Processing | Processed nat | Scheduled_remote | Remote_empty | Loop_exited

fun entry_text :: "entry \<Rightarrow> string" where
  "entry_text Started = ''Run loop started''"
| "entry_text Local_empty = ''local queue is empty''"
| "entry_text Processing = ''Processing local queue items''"
| "entry_text (Processed n) = ''Processed '' @ decimal n @ '' local queue items''"
| "entry_text Scheduled_remote = ''Schedule remote queued items''"
| "entry_text Remote_empty = ''Remote queue is empty''"
| "entry_text Loop_exited = ''Run loop exited''"

text \<open>
  What may follow what. In particular an empty local queue is followed by a look at the remote one,
  and what was taken from the remote queue by its execution or by the end of the loop.
\<close>

fun follows :: "entry \<Rightarrow> entry \<Rightarrow> bool" where
  "follows Started b \<longleftrightarrow> b = Local_empty \<or> b = Processing"
| "follows Local_empty b \<longleftrightarrow> b = Scheduled_remote \<or> b = Remote_empty"
| "follows Processing b \<longleftrightarrow> (case b of Processed n \<Rightarrow> 0 < n | _ \<Rightarrow> False)"
| "follows (Processed n) b \<longleftrightarrow> b \<noteq> Started \<and> (case b of Processed m \<Rightarrow> False | _ \<Rightarrow> True)"
| "follows Scheduled_remote b \<longleftrightarrow> b = Processing \<or> b = Loop_exited"
| "follows Remote_empty b \<longleftrightarrow> b = Local_empty \<or> b = Processing \<or> b = Loop_exited"
| "follows Loop_exited b \<longleftrightarrow> False"

text \<open>The lines of some entries, with the client's state that the providers saw.\<close>

definition lines_of :: "('u \<Rightarrow> string) list \<Rightarrow> ('u \<times> entry) list \<Rightarrow> log_lines" where
  "lines_of fs = map (\<lambda>(u, x). (INFO, prefix_text fs u @ entry_text x))"

lemma lines_of_simps [simp]:
  "lines_of fs [] = []" "lines_of fs ((u, x) # xs) = (INFO, prefix_text fs u @ entry_text x) # lines_of fs xs"
  "lines_of fs (xs @ ys) = lines_of fs xs @ lines_of fs ys"
  by (simp_all add: lines_of_def)

definition waits_for :: "('q, 'rq, 'cq, 'r, 'u) ext \<Rightarrow> ('q, 'rq, 'cq, 'r, 'u) world \<Rightarrow> bool" where
  "waits_for E w \<longleftrightarrow> iq_items E (local_queue w) = [] \<and> remote_queue_read_submitted w"

lemma ExecutePendingLocal_entries:
  assumes "\<not> ndebug cfg" and "list_all2 appending (providers cfg) fs" and "ext_ok E"
    and "ExecutePendingLocal_logged cfg E t w ls = Some (Inr (w1, ls1))"
  shows "if iq_items E (local_queue w) = []
    then w1 = w \<and> ls1 = ls @ lines_of fs [(client w, Local_empty)]
    else \<exists>n > 0. ls1 = ls @ lines_of fs [(client w, Processing), (client w1, Processed n)]"
  using assms(3,4)
  by (auto simp: ExecutePendingLocal_logged_def dlog_debug [OF assms(1,2)] lib_simps
      run_pending_is_execute_all [OF assms(3)] split: if_splits sum.split_asm)

lemma check_remote_entries:
  assumes "\<not> ndebug cfg" and "list_all2 appending (providers cfg) fs" and "ext_ok E"
    and "check_remote_logged cfg E w ls = Some (Inr (w1, ls1))"
  shows "heap w1 = heap w" and "remote_queue_read_submitted w \<Longrightarrow> w1 = w \<and> ls1 = ls"
    and "\<not> remote_queue_read_submitted w \<Longrightarrow>
      ls1 = ls @ lines_of fs [(client w, Scheduled_remote)] \<and> iq_items E (local_queue w1) \<noteq> [] \<or>
      ls1 = ls @ lines_of fs [(client w, Remote_empty)] \<and> local_queue w1 = local_queue w"
  using assms(3,4)
  by (auto simp: check_remote_logged_def TryScheduleRemoteQueuedItems_logged_def Let_def lib_simps
      dlog_debug [OF assms(1,2)] ScheduleLocal_queue_def split: if_splits prod.split_asm)

lemma Acquire_entries:
  assumes "ext_ok E" and "AcquireCompletionQueueItems E w = Some (b, w1)"
  shows "heap w1 = heap w" and "b \<Longrightarrow> \<not> waits_for E w1"
    and "iq_items E (local_queue w) \<noteq> [] \<Longrightarrow> iq_items E (local_queue w1) \<noteq> []"
  using assms
  by (auto simp: AcquireCompletionQueueItems_def ScheduleLocal_def Let_def lib_simps waits_for_def
      split: option.split_asm next_result.split_asm prod.split_asm)

text \<open>The entries of a loop that is left: each may follow the one before, and the last the end.\<close>

definition first_entry :: "('q, 'rq, 'cq, 'r, 'u) ext \<Rightarrow> ('q, 'rq, 'cq, 'r, 'u) world \<Rightarrow> entry" where
  "first_entry E w = (if iq_items E (local_queue w) = [] then Local_empty else Processing)"

definition entries_of_loop ::
  "('u \<Rightarrow> string) list \<Rightarrow> ('q, 'rq, 'cq, 'r, 'u) ext \<Rightarrow> ('q, 'rq, 'cq, 'r, 'u) world \<Rightarrow> log_lines \<Rightarrow> log_lines \<Rightarrow> bool" where
  "entries_of_loop fs E w ls ls' \<longleftrightarrow>
     (\<exists>xs. ls' = ls @ lines_of fs xs \<and> xs \<noteq> [] \<and> successively follows (map snd xs @ [Loop_exited]) \<and>
       hd (map snd xs) = first_entry E w)"

lemma entries_of_loopI:
  "successively follows (map snd xs @ [Loop_exited]) \<Longrightarrow> xs \<noteq> [] \<Longrightarrow> hd (map snd xs) = first_entry E w \<Longrightarrow>
   entries_of_loop fs E w ls (ls @ lines_of fs xs)"
  unfolding entries_of_loop_def by blast

lemma entries_of_loop_more:
  assumes "entries_of_loop fs E w1 (ls @ lines_of fs xs) ls'"
    and "successively follows (map snd xs @ [first_entry E w1])" and "xs \<noteq> []"
    and "hd (map snd xs) = first_entry E w"
  shows "entries_of_loop fs E w ls ls'"
proof -
  obtain ys where ys: "ls' = ls @ lines_of fs (xs @ ys)" "ys \<noteq> []"
    "successively follows (map snd ys @ [Loop_exited])" "hd (map snd ys) = first_entry E w1"
    using assms(1) by (auto simp: entries_of_loop_def)
  have "successively follows (map snd (xs @ ys) @ [Loop_exited])"
    using assms(2) ys(2-4) by (auto simp: successively_append_iff hd_append)
  then show ?thesis
    unfolding ys(1) using assms(3,4) by (intro entries_of_loopI) (simp_all add: hd_append)
qed

text \<open>The entries of one execution of the local queue, and of the look at the remote queue after it.\<close>

definition after_execution ::
  "('q, 'rq, 'cq, 'r, 'u) ext \<Rightarrow> ('q, 'rq, 'cq, 'r, 'u) world \<Rightarrow> ('q, 'rq, 'cq, 'r, 'u) world \<Rightarrow> entry list \<Rightarrow> bool" where
  "after_execution E w w1 xs \<longleftrightarrow> xs \<noteq> [] \<and> hd xs = first_entry E w \<and> successively follows xs \<and>
     (last xs = Local_empty \<and> w1 = w \<and> iq_items E (local_queue w) = [] \<or> (\<exists>n. last xs = Processed n))"

definition after_poll ::
  "('q, 'rq, 'cq, 'r, 'u) ext \<Rightarrow> ('q, 'rq, 'cq, 'r, 'u) world \<Rightarrow> ('q, 'rq, 'cq, 'r, 'u) world \<Rightarrow> entry list \<Rightarrow> bool" where
  "after_poll E w w2 xs \<longleftrightarrow> xs \<noteq> [] \<and> hd xs = first_entry E w \<and> successively follows xs \<and>
     (case last xs of Processed n \<Rightarrow> True | Remote_empty \<Rightarrow> True
      | Scheduled_remote \<Rightarrow> iq_items E (local_queue w2) \<noteq> [] | _ \<Rightarrow> False)"

lemma successively_snoc: "successively P xs \<Longrightarrow> xs \<noteq> [] \<Longrightarrow> P (last xs) x \<Longrightarrow> successively P (xs @ [x])"
  by (simp add: successively_append_iff)

lemma execution_entries:
  assumes "\<not> ndebug cfg" and "list_all2 appending (providers cfg) fs" and "ext_ok E"
    and "ExecutePendingLocal_logged cfg E t w ls = Some (Inr (w1, ls1))"
  shows "\<exists>xs. ls1 = ls @ lines_of fs xs \<and> after_execution E w w1 (map snd xs)"
proof (cases "iq_items E (local_queue w) = []")
  case True
  then show ?thesis using ExecutePendingLocal_entries [OF assms]
    by (intro exI [of _ "[(client w, Local_empty)]"]) (simp add: after_execution_def first_entry_def)
next
  case False
  then obtain n where "0 < n" "ls1 = ls @ lines_of fs [(client w, Processing), (client w1, Processed n)]"
    using ExecutePendingLocal_entries [OF assms] by auto
  with False show ?thesis
    by (intro exI [of _ "[(client w, Processing), (client w1, Processed n)]"])
      (simp add: after_execution_def first_entry_def)
qed

lemma poll_entries:
  assumes "\<not> ndebug cfg" and "list_all2 appending (providers cfg) fs" and "ext_ok E"
    and "check_remote_logged cfg E w1 ls1 = Some (Inr (w2, ls2))"
    and ls1: "ls1 = ls @ lines_of fs xs" and xs: "after_execution E w w1 (map snd xs)" and "\<not> waits_for E w"
  shows "\<exists>zs. ls2 = ls @ lines_of fs zs \<and> after_poll E w w2 (map snd zs)"
proof (cases "remote_queue_read_submitted w1")
  case True
  then obtain n where "last (map snd xs) = Processed n"
    using assms(6,7) by (auto simp: after_execution_def waits_for_def)
  then show ?thesis using check_remote_entries(2) [OF assms(1-4) True] ls1 xs
    by (intro exI [of _ xs]) (simp add: after_poll_def after_execution_def)
next
  case False
  have more: "successively follows (map snd xs @ [x])" "hd (map snd xs @ [x]) = first_entry E w"
    if "x = Scheduled_remote \<or> x = Remote_empty" for x
    using that xs by (auto simp: after_execution_def hd_append intro!: successively_snoc)
  from check_remote_entries(3) [OF assms(1-4) False] show ?thesis
  proof (elim disjE conjE)
    assume "ls2 = ls1 @ lines_of fs [(client w1, Scheduled_remote)]" "iq_items E (local_queue w2) \<noteq> []"
    then show ?thesis using more [of Scheduled_remote] ls1
      by (intro exI [of _ "xs @ [(client w1, Scheduled_remote)]"]) (simp add: after_poll_def)
  next
    assume "ls2 = ls1 @ lines_of fs [(client w1, Remote_empty)]"
    then show ?thesis using more [of Remote_empty] ls1
      by (intro exI [of _ "xs @ [(client w1, Remote_empty)]"]) (simp add: after_poll_def)
  qed
qed

lemma run_loop_entries:
  fixes E :: "('q, 'rq, 'cq, 'r, 'u) ext" and cfg :: "'u config"
  assumes "\<not> ndebug cfg" and "list_all2 appending (providers cfg) fs" and "ext_ok E"
    and "\<not> waits_for E w" and "\<not> stopped (heap w) p"
    and "run_loop_logged cfg E t p w ls = Some (Inr (w', ls'))"
  shows "entries_of_loop fs E w ls ls'"
proof -
  have "\<not> ndebug cfg \<longrightarrow> list_all2 appending (providers cfg) fs \<longrightarrow> ext_ok E \<longrightarrow> \<not> waits_for E w \<longrightarrow>
      \<not> stopped (heap w) p \<longrightarrow> (\<forall>w' ls'. y = Inr (w', ls') \<longrightarrow> entries_of_loop fs E w ls ls')"
    if "run_loop_logged cfg E t p w ls = Some y" for cfg :: "'u config"
      and E :: "('q, 'rq, 'cq, 'r, 'u) ext" and t p w ls y
    using that
  proof (induction rule: run_loop_logged.raw_induct [rotated 1, consumes 1, case_names round])
    case (round rec cfg E t p w ls y)
    show ?case
    proof (intro impI allI)
      fix w' ls'
      assume cfg: "\<not> ndebug cfg" "list_all2 appending (providers cfg) fs" and E: "ext_ok E"
        and w: "\<not> waits_for E w" "\<not> stopped (heap w) p" and y: "y = Inr (w', ls')"
      obtain w1 ls1 where ex: "ExecutePendingLocal_logged cfg E t w ls = Some (Inr (w1, ls1))"
        using round(2) y by (auto split: option.split_asm sum.split_asm prod.split_asm)
      obtain xs where xs: "ls1 = ls @ lines_of fs xs" "after_execution E w w1 (map snd xs)"
        using execution_entries [OF cfg E ex] by blast
      show "entries_of_loop fs E w ls ls'"
      proof (cases "stopped (heap w1) p")
        case True
        then have "successively follows (map snd xs @ [Loop_exited])"
          using xs(2) w(2) by (auto simp: after_execution_def intro!: successively_snoc)
        with True show ?thesis using round(2) ex y xs
          by (auto simp: after_execution_def intro: entries_of_loopI)
      next
        case False
        obtain w2 ls2 where poll: "check_remote_logged cfg E w1 ls1 = Some (Inr (w2, ls2))"
          using round(2) ex y False by (auto split: option.split_asm sum.split_asm prod.split_asm)
        obtain zs where zs: "ls2 = ls @ lines_of fs zs" "after_poll E w w2 (map snd zs)"
          using poll_entries [OF cfg E poll xs w(1)] by blast
        obtain b w3 where aq: "AcquireCompletionQueueItems E w2 = Some (b, w3)"
          using round(2) ex y False poll by (auto split: option.split_asm)
        note [simp] = check_remote_entries(1) [OF cfg E poll] Acquire_entries(1) [OF E aq]
        have goes_on: "successively follows (map snd zs @ [Loop_exited])"
          "successively follows (map snd zs @ [first_entry E w3])"
          using zs(2) Acquire_entries(3) [OF E aq]
          by (auto simp: after_poll_def first_entry_def intro!: successively_snoc split: entry.split_asm)
        show ?thesis
        proof (cases b)
          case True
          have "rec cfg E t p w3 ls2 = Some y" using round(2) ex False poll aq True by simp
          from round(1) [OF this] cfg E y False Acquire_entries(2) [OF E aq True]
          have "entries_of_loop fs E w3 ls2 ls'" by simp
          then show ?thesis using zs goes_on(2)
            by (auto simp: after_poll_def intro: entries_of_loop_more)
        next
          case nb: False
          then have "ls' = ls2" using round(2) ex False poll aq y by simp
          then show ?thesis using zs goes_on(1) by (auto simp: after_poll_def intro: entries_of_loopI)
        qed
      qed
    qed
  qed
  with assms show ?thesis by blast
qed

section \<open>A run\<close>

text \<open>
  The run of \<^verbatim>\<open>at_closing\<close>: one call is started remotely, and its continuation shuts the queue
  down. The prefix of the lines shows the client's state, which the continuation changes.
\<close>

definition log_demo_cfg :: "nat config" where
  "log_demo_cfg = \<lparr>providers = [\<lambda>u to. Some (to @ decimal u)], ndebug = False, vlog_is_on = (\<lambda>n. False),
     errno_text = (\<lambda>u. [])\<rparr>"

definition closing_world :: "(op_ptr list, queue_view, ref_cq, script, nat) world" where
  "closing_world = (case begin_run 8 (wld at_closing) of Inr w \<Rightarrow> w)"

definition closing_entries :: "(nat \<times> entry) list" where
  "closing_entries = [(0, Started), (0, Local_empty), (0, Scheduled_remote), (0, Processing), (0, Processed 1),
     (0, Remote_empty), (0, Processing), (1, Processed 1), (1, Loop_exited)]"

lemma log_demo_appending: "list_all2 appending (providers log_demo_cfg) [decimal]" "\<not> ndebug log_demo_cfg"
  by (auto simp: log_demo_cfg_def appending_def)

lemma closing_run:
  "case RunImpl_logged log_demo_cfg ref_ext 0 8 closing_world [] of
     Some (Inr (w, ls)) \<Rightarrow> ls = lines_of [decimal] closing_entries \<and> delivered (history w) = [(5, True)]
   | _ \<Rightarrow> False"
  "\<not> stopped (heap closing_world) 8" "\<not> remote_queue_read_submitted closing_world"
  unfolding closing_world_def demo_defs closing_moves_def at_closing_def by code_simp+

lemma closing_run_obtain:
  obtains w where "RunImpl_logged log_demo_cfg ref_ext 0 8 closing_world [] =
      Some (Inr (w, lines_of [decimal] closing_entries))" "delivered (history w) = [(5, True)]"
  using closing_run(1) by (auto split: option.split_asm sum.split_asm)

section \<open>The log of a run\<close>

text \<open>
  In a release build, and in a debug build whose prefix providers only append, \<^verbatim>\<open>RunImpl\<close> with its log
  statements returns exactly when \<^verbatim>\<open>RunImpl\<close> without them returns, with the same fault or the same
  state.
\<close>
theorem logging_keeps_the_run:
  assumes "ndebug cfg \<or> list_all2 appending (providers cfg) fs"
  shows "map_option (map_sum id fst) (RunImpl_logged cfg E t p w ls) = RunImpl E t p w"
proof -
  have safe: "logs_safely cfg" using assms by (auto simp: logs_safely_def)
  obtain ls1 where ls1: "dlog cfg 41 ''Run loop started'' w ls = Some (w, ls1)"
    using dlog_safely [OF safe] by blast
  let ?w = "enter_context t (Some (this_context w)) w"
  note loop = run_loop_logged_is_run_loop [OF safe, of E t p ?w ls1]
  show ?thesis
  proof (cases "run_loop_logged cfg E t p ?w ls1")
    case None
    then show ?thesis using loop by (simp add: RunImpl_logged_def RunImpl_def ls1)
  next
    case (Some r)
    show ?thesis
    proof (cases r)
      case (Inl e)
      then show ?thesis using Some loop by (simp add: RunImpl_logged_def RunImpl_def ls1 flip: loop)
    next
      case (Inr r1)
      obtain w1 ls2 where r1: "r1 = (w1, ls2)" by (rule prod.exhaust)
      obtain ls3 where "dlog cfg 46 ''Run loop exited''
          (enter_context t (current_thread_context w t) w1) ls2 =
          Some (enter_context t (current_thread_context w t) w1, ls3)"
        using dlog_safely [OF safe] by blast
      then show ?thesis using Some Inr r1 loop
        by (simp add: RunImpl_logged_def RunImpl_def ls1 Let_def flip: loop)
    qed
  qed
qed

theorem logging_keeps_the_run_witness:
  "\<exists>w. RunImpl_logged log_demo_cfg ref_ext 0 8 closing_world [] =
      Some (Inr (w, lines_of [decimal] closing_entries)) \<and>
    RunImpl ref_ext 0 8 closing_world = Some (Inr w)"
proof -
  obtain w where w: "RunImpl_logged log_demo_cfg ref_ext 0 8 closing_world [] =
      Some (Inr (w, lines_of [decimal] closing_entries))"
    by (rule closing_run_obtain)
  with logging_keeps_the_run [OF disjI2 [OF log_demo_appending(1)], of ref_ext 0 8 closing_world "[]"]
  show ?thesis by simp
qed

text \<open>
  C22. What the run loop writes in a debug build whose prefix providers only append. Let \<^verbatim>\<open>RunImpl\<close> be entered
  without a stop request and with something to look at: the local queue is not empty, or the read
  flag is clear, so that the loop polls the remote queue. When it has returned, its lines start with
  the one of the start and end with the one of the exit, each behind the prefixes of that moment, and
  each may follow the one before. So every batch is announced and then counted, and is not empty; an
  empty local queue is followed by a look at the remote one; and items taken from the remote queue are
  processed next, unless the loop ends first. (A loop entered with an empty local queue and the read flag set, as
  after a stop, says that the local queue is empty and goes on to \<^verbatim>\<open>Next\<close> without a look at the remote one.)
\<close>
theorem loop_log_lines:
  assumes "\<not> ndebug cfg" and "list_all2 appending (providers cfg) fs" and "ext_ok E"
    and "\<not> stopped (heap w) p" and "iq_items E (local_queue w) \<noteq> [] \<or> \<not> remote_queue_read_submitted w"
    and "RunImpl_logged cfg E t p w ls = Some (Inr (w', ls'))"
  shows "\<exists>xs. ls' = ls @ lines_of fs xs \<and> successively follows (map snd xs) \<and>
    2 < length xs \<and> hd (map snd xs) = Started \<and> last (map snd xs) = Loop_exited"
proof -
  let ?w = "enter_context t (Some (this_context w)) w"
  let ?ls = "ls @ lines_of fs [(client w, Started)]"
  obtain w1 ls2 where run: "run_loop_logged cfg E t p ?w ?ls = Some (Inr (w1, ls2))"
    and ls': "ls' = ls2 @ lines_of fs [(client w1, Loop_exited)]"
    using assms(6) by (auto simp: RunImpl_logged_def dlog_debug [OF assms(1,2)] Let_def enter_context_def
        split: option.split_asm sum.split_asm prod.split_asm)
  have "\<not> waits_for E ?w" "\<not> stopped (heap ?w) p"
    using assms(4,5) by (auto simp: waits_for_def enter_context_def)
  from run_loop_entries [OF assms(1-3) this run] obtain xs where xs: "ls2 = ?ls @ lines_of fs xs"
    "xs \<noteq> []" "successively follows (map snd xs @ [Loop_exited])" "hd (map snd xs) = first_entry E ?w"
    unfolding entries_of_loop_def by blast
  let ?xs = "(client w, Started) # xs @ [(client w1, Loop_exited)]"
  have "successively follows (map snd ?xs)"
    using xs(2-4) by (cases xs) (auto simp: first_entry_def split: if_split_asm)
  moreover have "ls' = ls @ lines_of fs ?xs" using ls' xs(1) by simp
  moreover have "2 < length ?xs" using xs(2) by (cases xs) simp_all
  ultimately show ?thesis by (intro exI [of _ ?xs]) simp
qed

theorem loop_log_lines_witness:
  "\<exists>w ls. RunImpl_logged log_demo_cfg ref_ext 0 8 closing_world [] = Some (Inr (w, ls)) \<and> 2 < length ls \<and>
     delivered (history w) = [(5, True)]"
proof -
  obtain w where w: "RunImpl_logged log_demo_cfg ref_ext 0 8 closing_world [] =
      Some (Inr (w, lines_of [decimal] closing_entries))" "delivered (history w) = [(5, True)]"
    by (rule closing_run_obtain)
  from loop_log_lines [OF log_demo_appending(2,1) ref_ok closing_run(2) _ w(1)] closing_run(3)
  have "2 < length (lines_of [decimal] closing_entries)" by (auto simp: lines_of_def dest: arg_cong [where f = length])
  with w show ?thesis by blast
qed

text \<open>
  A provider that throws ends the process of a debug build as soon as the context is run; a
  release build does not ask the providers.
\<close>

lemma throwing_provider_ends_the_run:
  assumes "WritePrefixTo (providers cfg) (client w) [] = None"
  shows "ndebug cfg \<or> RunImpl_logged cfg E t p w ls = Some (Inl Terminated)"
  using assms by (auto simp: RunImpl_logged_def dlog_def AGRPC_DLOG_def log_line_def FormatLog_def)

end
