(* ===== verification/Queue_Access.thy ===== *)
theory Queue_Access
  imports Example_Runs
begin

text \<open>
  The accessors of the context's queue. The context owns a \<^verbatim>\<open>grpc::CompletionQueue\<close>; a server gives it a
  \<^verbatim>\<open>ServerCompletionQueue\<close>, which is a derived class. \<^verbatim>\<open>get_server_completion_queue\<close> casts the pointer
  without a test, which is undefined when the queue is not one. The theory shows which calls need
  a server's queue, and that the example programs make their contexts over the right one.
\<close>

section \<open>The accessors\<close>

text \<open>The class of the queue object that the context was constructed with.\<close>

datatype queue_class = Plain_queue | Server_queue

definition get_completion_queue :: "('q, 'rq, 'cq, 'r, 'u) world \<Rightarrow> 'cq" where
  "get_completion_queue w = completion_queue w"

definition get_server_completion_queue ::
  "('cq \<Rightarrow> queue_class) \<Rightarrow> ('q, 'rq, 'cq, 'r, 'u) world \<Rightarrow> 'cq res" where
  "get_server_completion_queue class_of_queue w =
     (case class_of_queue (completion_queue w) of
       Server_queue \<Rightarrow> Inr (completion_queue w)
     | Plain_queue \<Rightarrow> Inl BadObject)"

text \<open>
  \<^verbatim>\<open>rpc_(context_, this)\<close>, the body of a sender's lambda, with the cast where the lambda has it, and
  \<^verbatim>\<open>StartAsyncRPC\<close> with that body.
\<close>

definition rpc_lambda ::
  "('cq \<Rightarrow> queue_class) \<Rightarrow> sender \<Rightarrow> ('q, 'rq, 'cq, 'r, 'u) world \<Rightarrow> op_ptr \<Rightarrow> grpc_call res" where
  "rpc_lambda class_of_queue s w p =
     (if snd_server_cq s
      then bind_res (get_server_completion_queue class_of_queue w) (\<lambda>cq. run_sender s (this_context w) p)
      else run_sender s (this_context w) p)"

definition StartAsyncRPC_cast ::
  "('cq \<Rightarrow> queue_class) \<Rightarrow> ('q, 'rq, 'cq, 'r, 'u) ext \<Rightarrow> thread \<Rightarrow> op_ptr \<Rightarrow> ('q, 'rq, 'cq, 'r, 'u) world \<Rightarrow>
   ('q, 'rq, 'cq, 'r, 'u) world res" where
  "StartAsyncRPC_cast class_of_queue E t p w =
     (if \<not> IsRunningOnThisThread t w then Inl CheckFailed
      else case heap w p of
        None \<Rightarrow> Inl BadObject
      | Some op \<Rightarrow>
          (case body op of
            StopOperation b \<Rightarrow> Inl BadObject
          | AsyncOperation s r \<Rightarrow>
              (let w1 = w\<lparr>heap := (heap w)(p \<mapsto> op\<lparr>execute := Some OnRequestComplete\<rparr>)\<rparr>
               in bind_res (rpc_lambda class_of_queue s w1 p) (\<lambda>call.
                  case cq_start_call E (get_completion_queue w1) call of
                    None \<Rightarrow> Inl QueueMisuse
                  | Some cq \<Rightarrow> Inr (w1\<lparr>completion_queue := cq\<rparr>)))))"

lemma only_requests_cast: "cpo_call c args = Some s \<Longrightarrow> snd_server_cq s \<longleftrightarrow> c = AsyncRequest"
  using cpo_call_sound [of c args s]
  by (cases c) (auto simp: tag_invoke_Some_iff invoke_defs overload_def split: if_split_asm)

text \<open>
  C32. Which operations need a server's queue: starting an operation that was made by \<^verbatim>\<open>AsyncRequest\<close> on a
  context over a plain \<^verbatim>\<open>CompletionQueue\<close> is undefined, whatever its arguments; every other
  operation starts in the same way on both kinds of queue.
\<close>
theorem request_needs_server_queue:
  assumes "cpo_call c args = Some s" and "heap w p = Some op" and "body op = AsyncOperation s r"
    and "IsRunningOnThisThread t w"
  shows "StartAsyncRPC_cast class_of_queue E t p w =
    (if c = AsyncRequest \<and> class_of_queue (completion_queue w) = Plain_queue then Inl BadObject
     else StartAsyncRPC E t p w)"
  using only_requests_cast [OF assms(1)] assms(2-4)
  by (cases "class_of_queue (completion_queue w)")
    (auto simp: StartAsyncRPC_cast_def StartAsyncRPC_def rpc_lambda_def get_server_completion_queue_def
      get_completion_queue_def Let_def)

definition request_world :: "(op_ptr list, queue_view, ref_cq, script, nat) world" where
  "request_world = (GrpcContext_new ref_ext 7 [0 \<mapsto> 7] ([], False) 0)\<lparr>
     heap := [2 \<mapsto> new_async_operation (site AsyncRequest hello_request_args) (Script [] False)]\<rparr>"

theorem request_needs_server_queue_witness:
  "StartAsyncRPC_cast (\<lambda>cq. Plain_queue) ref_ext 0 2 request_world = Inl BadObject \<and>
   (\<exists>w. StartAsyncRPC_cast (\<lambda>cq. Server_queue) ref_ext 0 2 request_world = Inr w \<and>
      completion_queue w = ([(Some 2, True)], False))"
proof -
  let ?op = "new_async_operation (site AsyncRequest hello_request_args) (Script [] False)"
  have at: "cpo_call AsyncRequest hello_request_args = Some (site AsyncRequest hello_request_args)"
    "heap request_world 2 = Some ?op" "body ?op = AsyncOperation (site AsyncRequest hello_request_args) (Script [] False)"
    "IsRunningOnThisThread 0 request_world"
    using sites_compile(1) by (auto simp: site_def request_world_def new_async_operation_def
        IsRunningOnThisThread_def GrpcContext_new_def)
  have "case StartAsyncRPC ref_ext 0 2 request_world of Inl e \<Rightarrow> False
      | Inr w \<Rightarrow> completion_queue w = ([(Some 2, True)], False)"
    unfolding request_world_def by code_simp
  then show ?thesis
    by (auto simp: request_needs_server_queue [OF at] split: sum.split_asm)
qed

section \<open>The example programs\<close>

text \<open>
  The servers construct their context with \<^verbatim>\<open>builder.AddCompletionQueue()\<close>, the client with
  \<^verbatim>\<open>std::make_unique<grpc::CompletionQueue>()\<close>.
\<close>

datatype example = Hello_server | Hello_client | Stream_server

fun context_queue :: "example \<Rightarrow> queue_class" where
  "context_queue Hello_server = Server_queue"
| "context_queue Hello_client = Plain_queue"
| "context_queue Stream_server = Server_queue"

fun call_sites :: "example \<Rightarrow> sender list" where
  "call_sites Hello_server = [site AsyncRequest hello_request_args, site AsyncFinish hello_finish_args]"
| "call_sites Hello_client = [site AsyncFinish client_finish_args]"
| "call_sites Stream_server = [site AsyncRequest stream_request_args, site AsyncWrite stream_write_args,
     site AsyncFinish stream_finish_args]"

lemma site_casts:
  "cpo_call c args \<noteq> None \<Longrightarrow> snd_server_cq (site c args) \<longleftrightarrow> c = AsyncRequest"
  using only_requests_cast by (auto simp: site_def)

text \<open>So every call of the examples is made on a queue of the class that it needs.\<close>

theorem example_queues_suffice:
  assumes "s \<in> set (call_sites prog)" and "class_of_queue (completion_queue w) = context_queue prog"
  shows "rpc_lambda class_of_queue s w p = run_sender s (this_context w) p"
  using assms sites_compile
  by (cases prog) (auto simp: rpc_lambda_def get_server_completion_queue_def site_casts)

end
