(* ===== verification/Hello_Exchange.thy ===== *)
theory Hello_Exchange
  imports Example_Runs
begin

text \<open>
  The hello world server and its clients together. A server process and any number of client
  processes run the coroutines of \<^verbatim>\<open>example/helloworld\<close>, each on objects of its own; gRPC carries
  the messages. What gRPC does with the objects of a call is what it documents for unary calls, and is the only
  part of the steps that is not code of the repository: an accepted request is written into the
  request object of the pending \<^verbatim>\<open>RequestSayHello\<close> and belongs to its responder object; the server's
  \<^verbatim>\<open>Finish\<close> sends the text of its response object to the caller of that responder; the client's
  \<^verbatim>\<open>Finish\<close> completes as ok, with that text in its own response object, or, when the call failed,
  with an error in its status object and the response as it was. So the theory is about the
  operands that the customisation points pass on, and about what the coroutines do with the
  messages. The client of the repository always names \<^verbatim>\<open>"world"\<close>; here every client has a name.
\<close>

section \<open>Messages\<close>

text \<open>The text of every message object of a process: the name of a request, the message of a reply.\<close>

type_synonym store = "ref \<Rightarrow> string"

text \<open>
  What the server's coroutine does with its objects when it is resumed: \<^verbatim>\<open>HandleRequest\<close> reads the
  request and makes the response; a new round of the loop has a new request object. The client
  names its request before the call.
\<close>

fun server_messages :: "hello_point \<Rightarrow> bool \<Rightarrow> store \<Rightarrow> store" where
  "server_messages Hello_request request_ok st = (if request_ok then st(5 := HandleRequest (st 3)) else st)"
| "server_messages Hello_finish finish_ok st = st(3 := [])"

definition client_messages :: "string \<Rightarrow> store" where
  "client_messages name = (\<lambda>r. [])(8 := name)"

section \<open>The processes\<close>

datatype client_state =
    Not_started | Calling store | Client_done "string list" | Client_aborted

record exchange =
  server_at :: "hello_point option"
  server_call :: grpc_call
  server_store :: store
  caller :: "ref \<Rightarrow> nat option"
  accepted :: "nat set"
  answers :: "nat \<Rightarrow> string list"
  clients :: "nat \<Rightarrow> client_state"
  failed_calls :: "nat set"

text \<open>
  A call that the server's coroutine makes: \<^verbatim>\<open>Finish\<close> sends the text of its first operand to the
  caller of its responder; \<^verbatim>\<open>RequestSayHello\<close> only waits.
\<close>

definition make_call :: "grpc_call \<Rightarrow> exchange \<Rightarrow> exchange" where
  "make_call c x =
     (case call_method c of
       Finish_method \<Rightarrow>
         (case caller x (call_object c) of
           Some i \<Rightarrow> x\<lparr>server_call := c, caller := (caller x)(call_object c := None),
             answers := (answers x)(i := answers x i @ [server_store x (call_operands c ! 0)])\<rparr>
         | None \<Rightarrow> x\<lparr>server_call := c\<rparr>)
     | _ \<Rightarrow> x\<lparr>server_call := c\<rparr>)"

definition resume_server :: "hello_point \<Rightarrow> bool \<Rightarrow> exchange \<Rightarrow> exchange" where
  "resume_server pt flag x =
     (let x1 = x\<lparr>server_store := server_messages pt flag (server_store x)\<rparr>
      in case hello_server pt flag of
           Call s pt' \<Rightarrow>
             (case run_sender s 0 0 of
               Inr c \<Rightarrow> make_call c (x1\<lparr>server_at := Some pt'\<rparr>)
             | Inl e \<Rightarrow> x1\<lparr>server_at := None\<rparr>)
         | _ \<Rightarrow> x1\<lparr>server_at := None\<rparr>)"

text \<open>The client's call writes its first operand; the coroutine then reads its response object.\<close>

definition resume_client :: "store \<Rightarrow> bool \<Rightarrow> client_state" where
  "resume_client st flag =
     (case hello_client (st 5) Client_finish flag of
       Return es \<Rightarrow> Client_done (lines_of es)
     | _ \<Rightarrow> Client_aborted)"

definition reply_operand :: ref where
  "reply_operand =
     (case run_sender (site AsyncFinish client_finish_args) 0 0 of Inr c \<Rightarrow> call_operands c ! 0 | Inl e \<Rightarrow> 0)"

inductive exchange_step :: "(nat \<Rightarrow> string) \<Rightarrow> exchange \<Rightarrow> exchange \<Rightarrow> bool" for names where
  client_calls: "clients x i = Not_started \<Longrightarrow>
     exchange_step names x (x\<lparr>clients := (clients x)(i := Calling (client_messages (names i)))\<rparr>)"
| server_accepts: "server_at x = Some Hello_request \<Longrightarrow> clients x i = Calling st \<Longrightarrow> i \<notin> accepted x \<Longrightarrow>
     exchange_step names x (resume_server Hello_request True
       (x\<lparr>server_store := (server_store x)(call_operands (server_call x) ! 2 := st 8),
          caller := (caller x)(call_operands (server_call x) ! 3 \<mapsto> i), accepted := insert i (accepted x)\<rparr>))"
| server_refused: "server_at x = Some Hello_request \<Longrightarrow>
     exchange_step names x (resume_server Hello_request False x)"
| server_answered: "server_at x = Some Hello_finish \<Longrightarrow>
     exchange_step names x (resume_server Hello_finish flag x)"
| client_finishes: "clients x i = Calling st \<Longrightarrow> answers x i = reply # replies \<Longrightarrow>
     exchange_step names x
       (x\<lparr>clients := (clients x)(i := resume_client (st(reply_operand := reply)) True)\<rparr>)"
| call_fails: "clients x i = Calling st \<Longrightarrow>
     exchange_step names x
       (x\<lparr>clients := (clients x)(i := resume_client st True), failed_calls := insert i (failed_calls x)\<rparr>)"
| client_not_ok: "clients x i = Calling st \<Longrightarrow>
     exchange_step names x (x\<lparr>clients := (clients x)(i := resume_client st False)\<rparr>)"

text \<open>The server has made its first request; no client has started.\<close>

definition exchange_start :: "exchange \<Rightarrow> bool" where
  "exchange_start x \<longleftrightarrow> server_at x = Some Hello_request \<and>
     run_sender (hello_site Hello_request) 0 0 = Inr (server_call x) \<and> server_store x = (\<lambda>r. []) \<and>
     caller x = (\<lambda>r. None) \<and> accepted x = {} \<and> answers x = (\<lambda>i. []) \<and> clients x = (\<lambda>i. Not_started) \<and>
     failed_calls x = {}"

section \<open>The operands\<close>

lemma request_call:
  "\<exists>c. run_sender (hello_site Hello_request) 0 0 = Inr c \<and> call_method c = Request_method \<and>
     call_operands c ! 2 = 3 \<and> call_operands c ! 3 = 4"
  unfolding hello_site.simps example_calls
  by (simp add: expected_call_def target_index_def) (simp add: hello_request_args_def)

lemma answer_call:
  "\<exists>c. run_sender (hello_site Hello_finish) 0 0 = Inr c \<and> call_method c = Finish_method \<and>
     call_object c = 4 \<and> call_operands c ! 0 = 5"
  unfolding hello_site.simps example_calls
  by (simp add: expected_call_def target_index_def) (simp add: hello_finish_args_def)

lemma reply_operand: "reply_operand = 5"
  unfolding reply_operand_def example_calls
  by (simp add: expected_call_def target_index_def) (simp add: client_finish_args_def)


section \<open>The invariant\<close>

text \<open>
  The server waits for the call of its place; no responder has a caller between two steps; an
  accepted client has exactly one answer, its own greeting; and a client that is done has logged it.
\<close>

fun client_inv :: "string \<Rightarrow> bool \<Rightarrow> bool \<Rightarrow> client_state \<Rightarrow> bool" where
  "client_inv name acc failed Not_started \<longleftrightarrow> \<not> acc \<and> \<not> failed"
| "client_inv name acc failed (Calling st) \<longleftrightarrow> st 8 = name \<and> st 5 = [] \<and> \<not> failed"
| "client_inv name acc failed (Client_done es) \<longleftrightarrow>
     (failed \<and> es = [''Received: ''] \<or> \<not> failed \<and> acc \<and> es = [''Received: '' @ HandleRequest name])"
| "client_inv name acc failed Client_aborted \<longleftrightarrow> True"

definition exchange_inv :: "(nat \<Rightarrow> string) \<Rightarrow> exchange \<Rightarrow> bool" where
  "exchange_inv names x \<longleftrightarrow>
     (\<forall>pt. server_at x = Some pt \<longrightarrow> run_sender (hello_site pt) 0 0 = Inr (server_call x)) \<and>
     caller x = (\<lambda>r. None) \<and>
     answers x = (\<lambda>i. if i \<in> accepted x then [HandleRequest (names i)] else []) \<and>
     (\<forall>i. client_inv (names i) (i \<in> accepted x) (i \<in> failed_calls x) (clients x i))"

lemma resume_stops: "resume_server Hello_request False x = x\<lparr>server_at := None\<rparr>"
  by (simp add: resume_server_def)

lemma resume_answered:
  "\<exists>c. run_sender (hello_site Hello_request) 0 0 = Inr c \<and>
     resume_server Hello_finish flag x =
       x\<lparr>server_at := Some Hello_request, server_call := c, server_store := (server_store x)(3 := [])\<rparr>"
  using request_call by (auto simp: resume_server_def make_call_def)

text \<open>
  The server of the exchange is the coroutine whose runs on a context \<^verbatim>\<open>Example_Runs\<close> follows: each
  resumption goes where its protocol says, and makes the call of that place.
\<close>

lemma server_follows_coroutine:
  "server_at (resume_server pt flag x) = co_place hello_server pt [flag]"
  "co_place hello_server pt [flag] = Some pt' \<Longrightarrow>
     run_sender (hello_site pt') 0 0 = Inr (server_call (resume_server pt flag x))"
proof -
  obtain c where c: "run_sender (hello_site Hello_request) 0 0 = Inr c" "call_method c = Request_method"
    using request_call by blast
  obtain d where d: "run_sender (hello_site Hello_finish) 0 0 = Inr d" "call_method d = Finish_method"
    using answer_call by blast
  show "server_at (resume_server pt flag x) = co_place hello_server pt [flag]"
    using c d by (cases pt) (auto simp: resume_server_def make_call_def Let_def split: option.split)
  show "co_place hello_server pt [flag] = Some pt' \<Longrightarrow>
      run_sender (hello_site pt') 0 0 = Inr (server_call (resume_server pt flag x))"
    using c d by (cases pt) (auto simp: resume_server_def make_call_def Let_def split: option.split if_split_asm)
qed

text \<open>A request that reaches the server is answered at once, with the greeting of its own name.\<close>

lemma resume_accepts:
  assumes "run_sender (hello_site Hello_request) 0 0 = Inr (server_call x)" and "caller x = (\<lambda>r. None)"
  shows "\<exists>c st. run_sender (hello_site Hello_finish) 0 0 = Inr c \<and>
     resume_server Hello_request True
       (x\<lparr>server_store := (server_store x)(call_operands (server_call x) ! 2 := name),
          caller := (caller x)(call_operands (server_call x) ! 3 \<mapsto> i), accepted := insert i (accepted x)\<rparr>) =
     x\<lparr>server_at := Some Hello_finish, server_call := c, server_store := st, accepted := insert i (accepted x),
       answers := (answers x)(i := answers x i @ [HandleRequest name])\<rparr>"
proof -
  obtain c where "run_sender (hello_site Hello_finish) 0 0 = Inr c" "call_method c = Finish_method"
    "call_object c = 4" "call_operands c ! 0 = 5"
    using answer_call by blast
  moreover have "call_operands (server_call x) ! 2 = 3" "call_operands (server_call x) ! 3 = 4"
    using request_call assms(1) by auto
  ultimately show ?thesis
    using assms(2) by (cases x) (auto simp: resume_server_def make_call_def)
qed

lemma resume_client_answered: "resume_client (st(reply_operand := reply)) True = Client_done [''Received: '' @ reply]"
  by (simp add: resume_client_def reply_operand)

lemma resume_client_failed:
  "resume_client st True = Client_done [''Received: '' @ st 5]" "resume_client st False = Client_aborted"
  by (simp_all add: resume_client_def)

lemma exchange_inv_step: "exchange_step names x y \<Longrightarrow> exchange_inv names x \<Longrightarrow> exchange_inv names y"
proof (induction rule: exchange_step.cases)
  case (server_accepts x' i st)
  then have "run_sender (hello_site Hello_request) 0 0 = Inr (server_call x)" "caller x = (\<lambda>r. None)"
    and st: "st 8 = names i"
    by (auto simp: exchange_inv_def dest: spec [of _ i])
  moreover have "client_inv (names j) (j = i \<or> j \<in> accepted x) (j \<in> failed_calls x) (clients x j)" for j
    using server_accepts by (cases "j = i") (auto simp: exchange_inv_def dest: spec [of _ j])
  ultimately show ?case using resume_accepts [of x i "st 8"] server_accepts
    by (auto simp: exchange_inv_def st fun_eq_iff)
next
  case (server_answered x' flag)
  with resume_answered [of flag x'] obtain c where "run_sender (hello_site Hello_request) 0 0 = Inr c"
    "y = x'\<lparr>server_at := Some Hello_request, server_call := c, server_store := (server_store x')(3 := [])\<rparr>"
    by auto
  with server_answered(1,3,4) show ?case by (auto simp: exchange_inv_def)
next
  case (client_finishes x' i st reply replies)
  then show ?case
    by (auto simp: exchange_inv_def resume_client_answered split: if_split_asm dest: spec [of _ i])
next
  case (client_calls x' i)
  then have "client_inv (names i) (i \<in> accepted x) (i \<in> failed_calls x) Not_started"
    by (auto simp: exchange_inv_def dest: spec [of _ i])
  with client_calls show ?case by (auto simp: exchange_inv_def client_messages_def)
next
  case (call_fails x' i st)
  then have "client_inv (names i) (i \<in> accepted x) (i \<in> failed_calls x) (Calling st)"
    by (auto simp: exchange_inv_def dest: spec [of _ i])
  with call_fails show ?case by (auto simp: exchange_inv_def resume_client_failed)
qed (auto simp: exchange_inv_def resume_stops resume_client_failed)

interpretation exchanges: inductive_invariant exchange_start "exchange_step names" "exchange_inv names" for names
proof
  show "exchange_start s \<Longrightarrow> exchange_inv names s" for s by (auto simp: exchange_start_def exchange_inv_def)
qed (rule exchange_inv_step)

section \<open>What the clients get\<close>

definition demo_exchange :: exchange where
  "demo_exchange = \<lparr>server_at = Some Hello_request,
     server_call = (case run_sender (hello_site Hello_request) 0 0 of Inr c \<Rightarrow> c), server_store = (\<lambda>r. []),
     caller = (\<lambda>r. None), accepted = {}, answers = (\<lambda>i. []), clients = (\<lambda>i. Not_started), failed_calls = {}\<rparr>"

definition demo_names :: "nat \<Rightarrow> string" where
  "demo_names i = (if i = 0 then ''world'' else ''moon'')"

lemma demo_exchange_starts: "exchange_start demo_exchange"
  using request_call by (auto simp: exchange_start_def demo_exchange_def)

lemma both_call:
  "\<exists>x. (exchange_step demo_names)\<^sup>*\<^sup>* demo_exchange x \<and> server_at x = Some Hello_request \<and>
     clients x 0 = Calling (client_messages ''world'') \<and> clients x (Suc 0) = Calling (client_messages ''moon'')"
proof -
  let ?x = "demo_exchange\<lparr>clients := (clients demo_exchange)(0 := Calling (client_messages (demo_names 0)))\<rparr>"
  let ?y = "?x\<lparr>clients := (clients ?x)(Suc 0 := Calling (client_messages (demo_names (Suc 0))))\<rparr>"
  have "exchange_step demo_names demo_exchange ?x"
    by (rule client_calls) (simp add: demo_exchange_def)
  moreover have "exchange_step demo_names ?x ?y"
    by (rule client_calls) (simp add: demo_exchange_def)
  ultimately have "(exchange_step demo_names)\<^sup>*\<^sup>* demo_exchange ?y"
    by (meson rtranclp.rtrancl_into_rtrancl rtranclp.rtrancl_refl)
  then show ?thesis by - (rule exI, intro conjI, assumption, simp_all add: demo_exchange_def demo_names_def)
qed

text \<open>A client whose request was answered can finish.\<close>

lemma client_can_finish:
  assumes "exchange_inv names x" and "clients x i = Calling st" and "i \<in> accepted x"
  shows "exchange_step names x (x\<lparr>clients := (clients x)(i := Client_done [''Received: Hello '' @ names i])\<rparr>)"
proof -
  have "answers x i = [HandleRequest (names i)]" using assms(1,3) by (simp add: exchange_inv_def)
  from exchange_step.client_finishes [OF assms(2) this] show ?thesis
    by (simp add: resume_client_answered HandleRequest_def)
qed

text \<open>A server that waits for a request can take the one of any client that was not served yet.\<close>

lemma server_can_accept:
  assumes "exchange_inv names x" and "server_at x = Some Hello_request" and "clients x i = Calling st"
    and "i \<notin> accepted x"
  shows "\<exists>y. exchange_step names x y \<and> clients y = clients x \<and> i \<in> accepted y \<and> server_at y = Some Hello_finish"
proof -
  have "run_sender (hello_site Hello_request) 0 0 = Inr (server_call x)" "caller x = (\<lambda>r. None)"
    using assms(1,2) by (auto simp: exchange_inv_def)
  from resume_accepts [OF this, where name = "st 8" and i = i] obtain c st' where
    "exchange_step names x (x\<lparr>server_at := Some Hello_finish, server_call := c, server_store := st',
       accepted := insert i (accepted x), answers := (answers x)(i := answers x i @ [HandleRequest (st 8)])\<rparr>)"
    using exchange_step.server_accepts [OF assms(2-4), of names] by auto
  then show ?thesis by - (rule exI, intro conjI, assumption, simp_all)
qed

lemma server_can_return:
  assumes "server_at x = Some Hello_finish"
  shows "\<exists>y. exchange_step names x y \<and> clients y = clients x \<and> accepted y = accepted x \<and>
    server_at y = Some Hello_request"
  using exchange_step.server_answered [OF assms, of names True] resume_answered [of True x] by auto

lemma server_can_serve:
  assumes "exchange_inv names x" and "server_at x \<noteq> None" and "clients x i = Calling st"
  shows "\<exists>y. (exchange_step names)\<^sup>*\<^sup>* x y \<and> clients y = clients x \<and> i \<in> accepted y \<and> server_at y \<noteq> None"
proof (cases "i \<in> accepted x")
  case False
  have "\<exists>y. (exchange_step names)\<^sup>*\<^sup>* x y \<and> clients y = clients x \<and> accepted y = accepted x \<and>
      server_at y = Some Hello_request"
    using assms(2) server_can_return [of x names] by (cases "server_at x"; cases "the (server_at x)") auto
  then obtain y where y: "(exchange_step names)\<^sup>*\<^sup>* x y" "clients y = clients x" "i \<notin> accepted y"
    "server_at y = Some Hello_request" using False by auto
  with server_can_accept [OF exchanges.holds_moves [OF y(1) assms(1)] y(4)] assms(3) show ?thesis
    by (metis option.distinct(1) rtranclp.rtrancl_into_rtrancl)
qed (use assms in blast)

lemma client_gets_served:
  assumes "exchange_inv names x" and "server_at x \<noteq> None" and "clients x i = Calling st"
  shows "\<exists>y. (exchange_step names)\<^sup>*\<^sup>* x y \<and>
     clients y = (clients x)(i := Client_done [''Received: Hello '' @ names i]) \<and>
     server_at y \<noteq> None"
proof -
  from server_can_serve [OF assms]
  obtain y where y: "(exchange_step names)\<^sup>*\<^sup>* x y" "clients y = clients x" "i \<in> accepted y" "server_at y \<noteq> None"
    by blast
  have "exchange_inv names y" by (rule exchanges.holds_moves [OF y(1) assms(1)])
  moreover have "clients y i = Calling st" using y(2) assms(3) by simp
  ultimately have "exchange_step names y
      (y\<lparr>clients := (clients y)(i := Client_done [''Received: Hello '' @ names i])\<rparr>)"
    using y(3) by (rule client_can_finish)
  with y(1) have "(exchange_step names)\<^sup>*\<^sup>* x
      (y\<lparr>clients := (clients y)(i := Client_done [''Received: Hello '' @ names i])\<rparr>)"
    by (rule rtranclp.rtrancl_into_rtrancl)
  then show ?thesis using y(2,4) by - (rule exI, intro conjI, assumption, simp_all)
qed

text \<open>
  C11. Every client gets its own greeting, or takes a failure for an empty one: whatever the order of
  calls, requests, answers and failures of any number of clients, a client that has finished has
  logged exactly the greeting of its own name, or, when its call failed, an empty message, which it
  logs as received because it never reads its status; and the server has answered each request
  that it accepted once, and no other.
\<close>
theorem hello_exchange:
  assumes "exchange_start x0" and "(exchange_step names)\<^sup>*\<^sup>* x0 x"
  shows "answers x i = (if i \<in> accepted x then [''Hello '' @ names i] else []) \<and>
    (\<forall>es. clients x i = Client_done es \<longrightarrow>
       es = (if i \<in> failed_calls x then [''Received: ''] else [''Received: Hello '' @ names i]))"
  using exchanges.holds_from_start [OF assms]
  by (auto simp: exchange_inv_def HandleRequest_def dest: spec [of _ i])

theorem hello_exchange_witness:
  "\<exists>x. (exchange_step demo_names)\<^sup>*\<^sup>* demo_exchange x \<and> clients x 0 = Client_done [''Received: Hello world''] \<and> 0 \<in> accepted x \<and> answers x 0 = [''Hello world'']"
proof -
  obtain x where x: "(exchange_step demo_names)\<^sup>*\<^sup>* demo_exchange x" "server_at x = Some Hello_request"
    "clients x 0 = Calling (client_messages ''world'')"
    using both_call by blast
  have "server_at x \<noteq> None" using x(2) by simp
  from client_gets_served [OF exchanges.holds_from_start [OF demo_exchange_starts x(1)] this x(3)] obtain y where
    "(exchange_step demo_names)\<^sup>*\<^sup>* x y"
    "clients y = (clients x)(0 := Client_done [''Received: Hello '' @ demo_names 0])"
    by blast
  then have y: "(exchange_step demo_names)\<^sup>*\<^sup>* demo_exchange y"
      "clients y 0 = Client_done [''Received: Hello '' @ demo_names 0]"
    using x(1) by (simp_all add: rtranclp_trans [OF x(1)])
  have "client_inv (demo_names 0) (0 \<in> accepted y) (0 \<in> failed_calls y) (clients y 0)"
    using exchanges.holds_from_start [OF demo_exchange_starts y(1)] by (simp add: exchange_inv_def)
  with y(2) hello_exchange [OF demo_exchange_starts y(1), of 0] show ?thesis
    by (intro exI [of _ y]) (auto simp: demo_names_def y(1))
qed

text \<open>
  C12. Nobody is left waiting for good: as long as the server has not stopped, every state that can be
  reached in which a client has made its call has a continuation in which this client finishes with
  its greeting, the server still serves, and no other client is affected.
\<close>
theorem hello_exchange_progress:
  assumes "exchange_start x0" and "(exchange_step names)\<^sup>*\<^sup>* x0 x"
    and "server_at x \<noteq> None" and "clients x i = Calling st"
  shows "\<exists>y. (exchange_step names)\<^sup>*\<^sup>* x y \<and> clients y = (clients x)(i := Client_done [''Received: Hello '' @ names i]) \<and>
     server_at y \<noteq> None"
  by (rule client_gets_served [OF exchanges.holds_from_start [OF assms(1,2)] assms(3,4)])

text \<open>Two clients that have both called: one after the other, both get their own greeting.\<close>

theorem hello_exchange_progress_witness:
  "\<exists>x y. (exchange_step demo_names)\<^sup>*\<^sup>* demo_exchange x \<and> clients x 0 = Calling (client_messages ''world'') \<and>
     (exchange_step demo_names)\<^sup>*\<^sup>* x y \<and> clients y 0 = Client_done [''Received: Hello world''] \<and>
     clients y (Suc 0) = Client_done [''Received: Hello moon'']"
proof -
  obtain x where x: "(exchange_step demo_names)\<^sup>*\<^sup>* demo_exchange x" "server_at x = Some Hello_request"
    "clients x 0 = Calling (client_messages ''world'')" "clients x (Suc 0) = Calling (client_messages ''moon'')"
    using both_call by blast
  have "server_at x \<noteq> None" using x(2) by simp
  from hello_exchange_progress [OF demo_exchange_starts x(1) this x(4)] obtain y where
    y: "(exchange_step demo_names)\<^sup>*\<^sup>* x y" "server_at y \<noteq> None"
      "clients y = (clients x)(Suc 0 := Client_done [''Received: Hello '' @ demo_names (Suc 0)])" by blast
  have xy: "(exchange_step demo_names)\<^sup>*\<^sup>* demo_exchange y" and y0: "clients y 0 = Calling (client_messages ''world'')"
    using x(1,3) y(1,3) by (auto intro: rtranclp_trans)
  from hello_exchange_progress [OF demo_exchange_starts xy y(2) y0] obtain z where
    "(exchange_step demo_names)\<^sup>*\<^sup>* y z" "clients z = (clients y)(0 := Client_done [''Received: Hello '' @ demo_names 0])"
    by blast
  with x(1,3) y(1,3) show ?thesis
    by (intro exI [of _ x] exI [of _ z]) (auto simp: demo_names_def intro: rtranclp_trans)
qed

end
