(* ===== verification/Log_Timed.thy ===== *)
theory Log_Timed
  imports Log_Concurrent
begin

text \<open>
  \<^verbatim>\<open>..._EVERY_SECOND\<close> among busy threads, with time: how long it can be silent. The steps are those of
  \<^verbatim>\<open>Log_Concurrent\<close>, every atomic access of every thread by itself; what is added is a bound \<open>g\<close> on the
  scheduler. A pass reads a clock value that is at most \<open>g\<close> old, and it is at most \<open>g\<close> old until the pass
  has left the lock; and some thread begins a pass at least every \<open>g\<close>. Passes overlap in any way: one that finds the lock taken writes
  nothing, also when the holder has been preempted.
\<close>

section \<open>Steps that take their time\<close>

text \<open>The time that the pass of a thread has read, until it has left the lock.\<close>

fun pass_time :: "es_pc \<Rightarrow> int option" where
  "pass_time Es_idle = None"
| "pass_time (Timed now) = Some now"
| "pass_time (Entered now) = Some now"
| "pass_time (Locked now) = Some now"
| "pass_time (Decided b now) = Some now"
| "pass_time (Es_writing now) = None"

text \<open>The second component is the latest time that a pass has read.\<close>

inductive es_timed :: "int \<Rightarrow> int \<Rightarrow> es_sys \<times> int \<Rightarrow> es_sys \<times> int \<Rightarrow> bool" for n g where
  timed_tick: "coarse s \<le> c \<Longrightarrow> c \<le> r + g \<Longrightarrow>
     (\<forall>t now. pass_time (es_at s t) = Some now \<longrightarrow> c \<le> now + g) \<Longrightarrow>
     es_timed n g (s, r) (s\<lparr>coarse := c\<rparr>, r)"
| timed_now: "es_at s t = Es_idle \<Longrightarrow> now \<le> coarse s \<Longrightarrow> coarse s \<le> now + g \<Longrightarrow>
     es_timed n g (s, r) (s\<lparr>es_at := (es_at s)(t := Timed now)\<rparr>, max r now)"
| timed_access: "es_step n s s' \<Longrightarrow> coarse s' = coarse s \<Longrightarrow>
     (\<forall>t. es_at s t = Es_idle \<longrightarrow> es_at s' t = Es_idle) \<Longrightarrow> es_timed n g (s, r) (s', r)"

text \<open>They are steps of the system without time.\<close>

lemma es_timed_step: "es_timed n g x y \<Longrightarrow> es_step n (fst x) (fst y)"
  by (induction rule: es_timed.induct) (auto intro: es_step.intros)

section \<open>How long the site can be silent\<close>

text \<open>When the next line is due: \<open>n\<close> seconds after the last stamp, but not before the threads start.\<close>

definition due :: "int \<Rightarrow> int \<Rightarrow> es_sys \<Rightarrow> int" where
  "due n c0 s = max (last_occurs s + seconds n) c0"

text \<open>A pass that will store a stamp, or is overtaken by one that does.\<close>

fun overdue_pass :: "int \<Rightarrow> int \<Rightarrow> es_pc \<Rightarrow> bool" where
  "overdue_pass d g (Timed m) \<longleftrightarrow> d + g < m \<and> m \<le> d + 2 * g"
| "overdue_pass d g (Entered m) \<longleftrightarrow> d + g < m \<and> m \<le> d + 2 * g"
| "overdue_pass d g (Locked m) \<longleftrightarrow> d < m \<and> m \<le> d + 3 * g"
| "overdue_pass d g _ \<longleftrightarrow> False"

text \<open>
  The times: passes and stamps are from the run and not from its future; a decision was made
  against the last stamp; a taken lock has a holder.
\<close>

definition times_inv :: "int \<Rightarrow> int \<Rightarrow> int \<Rightarrow> es_sys \<times> int \<Rightarrow> bool" where
  "times_inv n g c0 = (\<lambda>(s, r).
     c0 \<le> coarse s \<and> r \<le> coarse s \<and> coarse s \<le> r + g \<and>
     (\<forall>t m. pass_time (es_at s t) = Some m \<longrightarrow> m \<le> coarse s \<and> coarse s \<le> m + g) \<and>
     (\<forall>t b m. es_at s t = Decided b m \<longrightarrow> m \<le> last_occurs s + seconds n) \<and>
     (es_lock s \<longrightarrow> (\<exists>t. holds_lock (es_at s t))) \<and>
     (\<forall>m \<in> set (stamps s). c0 - g \<le> m \<and> m \<le> coarse s))"

text \<open>Every stamp has its line, or a thread that will write it.\<close>

definition lines_inv :: "es_sys \<Rightarrow> bool" where
  "lines_inv s \<longleftrightarrow> (\<forall>m \<in> set (stamps s). m \<in> set (es_lines s) \<or> (\<exists>t. about_to_write (es_at s t) = Some m))"

text \<open>When a line is overdue a pass is under way that leads to it, and the stamps are dense enough.\<close>

definition dense_inv :: "int \<Rightarrow> int \<Rightarrow> int \<Rightarrow> es_sys \<times> int \<Rightarrow> bool" where
  "dense_inv n g c0 = (\<lambda>(s, r).
     (due n c0 s + g < r \<longrightarrow> (\<exists>t. overdue_pass (due n c0 s) g (es_at s t))) \<and>
     due n c0 s \<le> c0 + int (length (stamps s)) * (seconds n + 4 * g))"

lemma last_occurs_stamp: "last_occurs (s\<lparr>stamps := m # stamps s, es_at := f\<rparr>) = m"
  by (simp add: last_occurs_def)

lemma last_occurs_cong: "stamps s' = stamps s \<Longrightarrow> last_occurs s' = last_occurs s"
  by (simp add: last_occurs_def)

lemma due_cong: "stamps s' = stamps s \<Longrightarrow> due n c0 s' = due n c0 s"
  by (simp add: due_def last_occurs_def)

lemma not_later: "apart d (xs @ [0]) \<Longrightarrow> 0 \<le> d \<Longrightarrow> v \<in> set (xs @ [0]) \<Longrightarrow> v \<le> hd (xs @ [0])"
  by (cases xs) (auto dest: apart_below [of d _ _ v])

lemma apart_distinct: "apart d xs \<Longrightarrow> 0 \<le> d \<Longrightarrow> distinct xs"
proof (induction xs)
  case (Cons x xs)
  then show ?case using apart_below [OF Cons.prems, of x] by (auto dest: apart_tail)
qed simp

text \<open>The clock cannot run away from a line that is due.\<close>

lemma dense_bound:
  assumes "times_inv n g c0 (s, r)" and "dense_inv n g c0 (s, r)" and "0 \<le> g"
  shows "coarse s \<le> due n c0 s + 4 * g"
proof (cases "due n c0 s + g < r")
  case True
  then obtain t where t: "overdue_pass (due n c0 s) g (es_at s t)" using assms(2) by (auto simp: dense_inv_def)
  then obtain m where "pass_time (es_at s t) = Some m" "m \<le> due n c0 s + 3 * g"
    using assms(3) by (cases "es_at s t") auto
  with assms(1) have "coarse s \<le> m + g" by (auto simp: times_inv_def)
  with \<open>m \<le> due n c0 s + 3 * g\<close> show ?thesis by linarith
next
  case False
  then show ?thesis using assms(1,3) by (auto simp: times_inv_def)
qed

section \<open>The invariants\<close>

lemma lines_inv_keep:
  assumes "lines_inv s" and "set (es_lines s) \<subseteq> set (es_lines s')"
    and "\<And>m. m \<in> set (stamps s') \<Longrightarrow> m \<in> set (stamps s) \<or> about_to_write (es_at s' t) = Some m"
    and "\<And>u m. about_to_write (es_at s u) = Some m \<Longrightarrow>
      m \<in> set (es_lines s') \<or> about_to_write (es_at s' u) = Some m"
  shows "lines_inv s'"
  using assms unfolding lines_inv_def by blast

lemma lines_inv_step:
  assumes "es_step n s s'" and "lines_inv s"
  shows "lines_inv s'"
  using assms(1)
proof cases
  case (es_decide t now w)
  then show ?thesis by (intro lines_inv_keep [OF assms(2), where t = t]) (auto split: if_splits)
next
  case (es_write t now)
  then show ?thesis by (intro lines_inv_keep [OF assms(2), where t = t]) (auto split: if_splits)
next
  case (es_unlock t w now)
  then show ?thesis by (intro lines_inv_keep [OF assms(2), where t = t]) (auto split: if_splits)
next
  case (es_trylock t now)
  then show ?thesis by (intro lines_inv_keep [OF assms(2), where t = t]) (auto split: if_splits)
next
  case (es_load t now v)
  then show ?thesis by (intro lines_inv_keep [OF assms(2), where t = t]) (auto split: if_splits)
next
  case (es_now t now)
  then show ?thesis by (intro lines_inv_keep [OF assms(2), where t = t]) (auto split: if_splits)
next
  case (es_tick c)
  then show ?thesis using assms(2) by (simp add: lines_inv_def)
qed

lemma times_pass:
  "times_inv n g c0 (s, r) \<Longrightarrow> pass_time (es_at s t) = Some m \<Longrightarrow> m \<le> coarse s \<and> coarse s \<le> m + g"
  unfolding times_inv_def prod.case by blast

lemma times_decided:
  "times_inv n g c0 (s, r) \<Longrightarrow> es_at s t = Decided b m \<Longrightarrow> m \<le> last_occurs s + seconds n"
  unfolding times_inv_def prod.case by blast

lemma times_now: "times_inv n g c0 (s, r) \<Longrightarrow> c0 \<le> coarse s \<and> r \<le> coarse s \<and> coarse s \<le> r + g"
  unfolding times_inv_def prod.case by blast

lemma times_stamps: "times_inv n g c0 (s, r) \<Longrightarrow> m \<in> set (stamps s) \<Longrightarrow> c0 - g \<le> m \<and> m \<le> coarse s"
  unfolding times_inv_def prod.case by blast

text \<open>A thread of which the pass has ended, or goes on with the time it has read.\<close>

lemma times_inv_keep:
  assumes inv: "times_inv n g c0 (s, r)" and same: "coarse s' = coarse s" "stamps s' = stamps s"
    and at: "es_at s' = (es_at s)(t := p)"
    and p: "pass_time p = None \<or> pass_time p = pass_time (es_at s t)"
    and dec: "\<And>b m. p = Decided b m \<Longrightarrow> m \<le> last_occurs s + seconds n"
    and lock: "es_lock s' \<Longrightarrow> \<exists>u. holds_lock (es_at s' u)"
  shows "times_inv n g c0 (s', r)"
proof -
  have pass: "m \<le> coarse s \<and> coarse s \<le> m + g" if m: "pass_time (es_at s' u) = Some m" for u m
  proof (rule times_pass [OF inv, of u])
    show "pass_time (es_at s u) = Some m" using m p by (cases "u = t") (auto simp: at)
  qed
  have "m \<le> last_occurs s + seconds n" if m: "es_at s' u = Decided b m" for u b m
  proof (cases "u = t")
    case True
    then show ?thesis using m dec by (simp add: at)
  next
    case False
    then show ?thesis using m times_decided [OF inv, of u b m] by (simp add: at)
  qed
  then show ?thesis
    unfolding times_inv_def prod.case last_occurs_cong [OF same(2)] same
    using pass lock times_now [OF inv] times_stamps [OF inv] by blast
qed

text \<open>The lock has a holder after an access, too.\<close>

lemma lock_held:
  assumes "es_lock s \<longrightarrow> (\<exists>u. holds_lock (es_at s u))" and "es_at s' = (es_at s)(t := p)"
    and "\<not> holds_lock (es_at s t)" and "es_lock s' \<Longrightarrow> es_lock s"
  shows "es_lock s' \<Longrightarrow> \<exists>u. holds_lock (es_at s' u)"
proof -
  assume "es_lock s'"
  then obtain u where "holds_lock (es_at s u)" using assms(1,4) by blast
  moreover from this have "u \<noteq> t" using assms(3) by auto
  ultimately have "holds_lock (es_at s' u)" using assms(2) by simp
  then show ?thesis by blast
qed

lemma times_lock: "times_inv n g c0 (s, r) \<Longrightarrow> es_lock s \<longrightarrow> (\<exists>t. holds_lock (es_at s t))"
  unfolding times_inv_def prod.case by blast

lemma times_decide:
  assumes inv: "times_inv n g c0 (s, r)" and es: "es_inv n s" and n: "0 \<le> seconds n"
    and t: "es_at s t = Locked now" "last_occurs s + seconds n < now"
    and s': "s' = s\<lparr>stamps := now # stamps s, es_at := (es_at s)(t := Decided True now)\<rparr>"
  shows "times_inv n g c0 (s', r)"
proof -
  have now: "now \<le> coarse s" "coarse s \<le> now + g" using times_pass [OF inv, of t now] t(1) by simp_all
  have "m \<le> coarse s \<and> coarse s \<le> m + g" if "pass_time (es_at s' u) = Some m" for u m
    using that times_pass [OF inv, of u m] now by (cases "u = t") (auto simp: s')
  moreover have "m \<le> last_occurs s' + seconds n" if "es_at s' u = Decided b m" for u b m
  proof (cases "u = t")
    case True
    then show ?thesis using that n by (simp add: s' last_occurs_stamp)
  next
    case False
    then have "holds_lock (es_at s u)" and "holds_lock (es_at s t)" using that t(1) by (simp_all add: s')
    then show ?thesis using es False unfolding es_inv_def by blast
  qed
  moreover have "\<exists>u. holds_lock (es_at s' u)" by (rule exI [of _ t]) (simp add: s')
  moreover have "\<forall>m \<in> set (stamps s'). c0 - g \<le> m \<and> m \<le> coarse s'"
    using times_stamps [OF inv] now times_now [OF inv] by (fastforce simp: s')
  moreover have "coarse s' = coarse s" by (simp add: s')
  ultimately show ?thesis unfolding times_inv_def prod.case using times_now [OF inv] by metis
qed

lemma times_access:
  assumes inv: "times_inv n g c0 (s, r)" and es: "es_inv n s" and n: "0 \<le> seconds n"
    and st: "es_step n s s'" "coarse s' = coarse s" "\<forall>t. es_at s t = Es_idle \<longrightarrow> es_at s' t = Es_idle"
  shows "times_inv n g c0 (s', r)"
  using st(1)
proof cases
  case (es_tick c)
  then show ?thesis using st(2) inv by (simp add: times_inv_def last_occurs_def)
next
  case (es_now t now)
  then show ?thesis using st(3) by auto
next
  case (es_load t now v)
  then show ?thesis
    by (intro times_inv_keep [OF inv, where t = t] lock_held [OF times_lock [OF inv], where t = t]) (auto split: if_split_asm)
next
  case (es_trylock t now)
  show ?thesis
  proof (cases "es_lock s")
    case True
    with es_trylock show ?thesis
      by (intro times_inv_keep [OF inv, where t = t] lock_held [OF times_lock [OF inv], where t = t]) auto
  next
    case False
    with es_trylock show ?thesis
      by (intro times_inv_keep [OF inv, where t = t]) (auto intro!: exI [of _ t])
  qed
next
  case (es_decide t now w)
  show ?thesis
  proof (cases w)
    case True
    with es_decide show ?thesis by (intro times_decide [OF inv es n, of t now]) auto
  next
    case False
    with es_decide show ?thesis
      by (intro times_inv_keep [OF inv, where t = t]) (auto intro!: exI [of _ t])
  qed
next
  case (es_unlock t w now)
  then show ?thesis by (intro times_inv_keep [OF inv, where t = t]) (auto split: if_split_asm)
next
  case (es_write t now)
  then show ?thesis
    by (intro times_inv_keep [OF inv, where t = t] lock_held [OF times_lock [OF inv], where t = t]) auto
qed

lemma times_inv_step:
  assumes "es_timed n g x y" and "times_inv n g c0 x" and "es_inv n (fst x)" and "0 \<le> seconds n" and "0 \<le> g"
  shows "times_inv n g c0 y"
  using assms(1)
proof cases
  case (timed_tick s c r)
  then show ?thesis using assms(2,5) unfolding times_inv_def by (fastforce simp: last_occurs_def)
next
  case (timed_now s t now r)
  have inv: "times_inv n g c0 (s, r)" using assms(2) timed_now(1) by simp
  have pass: "m \<le> coarse s \<and> coarse s \<le> m + g" if "pass_time (((es_at s)(t := Timed now)) u) = Some m" for u m
    using that timed_now times_pass [OF inv, of u m] by (cases "u = t") auto
  have dec: "m \<le> last_occurs s + seconds n" if "((es_at s)(t := Timed now)) u = Decided b m" for u b m
    using that timed_now times_decided [OF inv, of u b m] by (cases "u = t") auto
  have "es_lock s \<Longrightarrow> \<exists>u. holds_lock (((es_at s)(t := Timed now)) u)"
    using lock_held [OF times_lock [OF inv], of "s\<lparr>es_at := (es_at s)(t := Timed now)\<rparr>" t "Timed now"]
      timed_now(3) by simp
  then show ?thesis
    using pass dec times_now [OF inv] times_stamps [OF inv] timed_now(4,5) unfolding timed_now(2) times_inv_def
    by (simp add: last_occurs_def)
next
  case (timed_access s s' r)
  then show ?thesis using times_access [of n g c0 s r s'] assms(2-4) by simp
qed

text \<open>An access that leaves the stamps alone, by a thread that was not overdue or still is.\<close>

lemma dense_keep:
  assumes "dense_inv n g c0 (s, r)" and "stamps s' = stamps s" and "es_at s' = (es_at s)(t := p)"
    and "due n c0 s + g < r \<Longrightarrow> overdue_pass (due n c0 s) g (es_at s t) \<Longrightarrow>
      \<exists>u. overdue_pass (due n c0 s) g (es_at s' u)"
  shows "dense_inv n g c0 (s', r)"
proof -
  have "\<exists>u. overdue_pass (due n c0 s) g (es_at s' u)" if late: "due n c0 s + g < r"
  proof -
    obtain u where u: "overdue_pass (due n c0 s) g (es_at s u)"
      using assms(1) late unfolding dense_inv_def prod.case by blast
    show ?thesis
    proof (cases "u = t")
      case True
      then show ?thesis using u assms(4) late by simp
    next
      case False
      then have "overdue_pass (due n c0 s) g (es_at s' u)" using u assms(3) by simp
      then show ?thesis by blast
    qed
  qed
  then show ?thesis using assms(1,2) by (simp add: dense_inv_def due_cong [OF assms(2)])
qed

text \<open>A thread that finds the lock taken leaves it to the holder, which has begun no more than \<open>g\<close> before.\<close>

lemma overtaken:
  assumes inv: "times_inv n g c0 (s, r)" and t: "es_at s t = Entered now" "overdue_pass (due n c0 s) g (Entered now)"
    and lock: "es_lock s"
  shows "\<exists>u m. u \<noteq> t \<and> es_at s u = Locked m \<and> overdue_pass (due n c0 s) g (Locked m)"
proof -
  obtain u where u: "holds_lock (es_at s u)" using times_lock [OF inv] lock by blast
  then obtain m where m: "pass_time (es_at s u) = Some m" by (cases "es_at s u") auto
  have "m \<le> coarse s" "coarse s \<le> m + g" "now \<le> coarse s" "coarse s \<le> now + g"
    using times_pass [OF inv m] times_pass [OF inv, of t now] t(1) by auto
  with t(2) have "due n c0 s < m" "m \<le> due n c0 s + 3 * g" by simp_all
  moreover from this have "es_at s u = Locked m"
    using u m times_decided [OF inv, of u _ m] by (cases "es_at s u") (auto simp: due_def)
  moreover have "u \<noteq> t" using u t(1) by auto
  ultimately show ?thesis by (intro exI [of _ u] exI [of _ m]) simp
qed

lemma dense_decide:
  assumes inv: "times_inv n g c0 (s, r)" and dense: "dense_inv n g c0 (s, r)" and n: "0 \<le> seconds n" and g: "0 \<le> g"
    and t: "es_at s t = Locked now"
  shows "dense_inv n g c0 (s\<lparr>stamps := now # stamps s, es_at := f\<rparr>, r)"
proof -
  let ?s' = "s\<lparr>stamps := now # stamps s, es_at := f\<rparr>"
  have now: "now \<le> coarse s" "coarse s \<le> now + g" using times_pass [OF inv, of t now] t by simp_all
  have due': "due n c0 ?s' = max (now + seconds n) c0" by (simp add: due_def last_occurs_def)
  then have "r \<le> due n c0 ?s' + g" using now times_now [OF inv] n by linarith
  moreover have "due n c0 ?s' \<le> c0 + int (length (stamps ?s')) * (seconds n + 4 * g)"
  proof -
    have "c0 \<le> due n c0 s" by (simp add: due_def)
    then have "due n c0 ?s' \<le> due n c0 s + (seconds n + 4 * g)"
      using due' now(1) dense_bound [OF inv dense g] n g by simp
    also have "\<dots> \<le> c0 + int (length (stamps s)) * (seconds n + 4 * g) + (seconds n + 4 * g)"
      using dense by (simp add: dense_inv_def)
    also have "\<dots> = c0 + int (length (stamps ?s')) * (seconds n + 4 * g)" by (simp add: distrib_right)
    finally show ?thesis .
  qed
  ultimately show ?thesis unfolding dense_inv_def prod.case by simp
qed

lemma dense_access:
  assumes inv: "times_inv n g c0 (s, r)" and es: "es_inv n s" and dense: "dense_inv n g c0 (s, r)"
    and n: "0 \<le> seconds n" and g: "0 \<le> g"
    and st: "es_step n s s'" "coarse s' = coarse s" "\<forall>t. es_at s t = Es_idle \<longrightarrow> es_at s' t = Es_idle"
  shows "dense_inv n g c0 (s', r)"
  using st(1)
proof cases
  case (es_tick c)
  then show ?thesis using st(2) dense by (simp add: dense_inv_def due_def last_occurs_def)
next
  case (es_now t now)
  then show ?thesis using st(3) by auto
next
  case (es_load t now v)
  have "v \<le> last_occurs s"
    using not_later [of "seconds n" "stamps s" v] es n es_load(3) by (simp add: es_inv_def last_occurs_def)
  then have "v + seconds n \<le> due n c0 s" by (simp add: due_def)
  with es_load g show ?thesis
    by (intro dense_keep [OF dense, where t = t]) (auto intro!: exI [of _ t])
next
  case (es_trylock t now)
  show ?thesis
  proof (cases "es_lock s")
    case True
    have "\<exists>u. overdue_pass (due n c0 s) g (es_at s' u)" if "overdue_pass (due n c0 s) g (es_at s t)"
    proof -
      have "overdue_pass (due n c0 s) g (Entered now)" using that es_trylock by simp
      then obtain u m where "u \<noteq> t" "es_at s u = Locked m" "overdue_pass (due n c0 s) g (Locked m)"
        using overtaken [OF inv es_trylock(2) _ True] by blast
      then have "overdue_pass (due n c0 s) g (es_at s' u)" using es_trylock True by simp
      then show ?thesis by blast
    qed
    with es_trylock True show ?thesis by (intro dense_keep [OF dense, where t = t and p = Es_idle]) auto
  next
    case False
    with es_trylock g show ?thesis
      by (intro dense_keep [OF dense, where t = t and p = "Locked now"]) (auto intro!: exI [of _ t])
  qed
next
  case (es_decide t now w)
  show ?thesis
  proof (cases w)
    case True
    with es_decide show ?thesis using dense_decide [OF inv dense n g es_decide(2)] by simp
  next
    case False
    then have "now \<le> due n c0 s" using es_decide by (simp add: due_def)
    with es_decide False show ?thesis
      by (intro dense_keep [OF dense, where t = t and p = "Decided False now"]) auto
  qed
next
  case (es_unlock t w now)
  then show ?thesis by (intro dense_keep [OF dense, where t = t]) auto
next
  case (es_write t now)
  then show ?thesis by (intro dense_keep [OF dense, where t = t]) auto
qed

lemma dense_inv_step:
  assumes "es_timed n g x y" and "times_inv n g c0 x" and "es_inv n (fst x)" and "dense_inv n g c0 x"
    and "0 \<le> seconds n" and "0 \<le> g"
  shows "dense_inv n g c0 y"
  using assms(1)
proof cases
  case (timed_tick s c r)
  then show ?thesis using assms(4) by (simp add: dense_inv_def due_def last_occurs_def)
next
  case (timed_now s t now r)
  have inv: "times_inv n g c0 (s, r)" and dense: "dense_inv n g c0 (s, r)" using assms(2,4) timed_now(1) by simp_all
  show ?thesis
  proof (cases "due n c0 s + g < r")
    case True
    then obtain u where u: "overdue_pass (due n c0 s) g (es_at s u)"
      using dense unfolding dense_inv_def prod.case by blast
    moreover from this have "u \<noteq> t" using timed_now by auto
    ultimately have "\<exists>u. overdue_pass (due n c0 s) g (((es_at s)(t := Timed now)) u)" by (intro exI [of _ u]) simp
    then show ?thesis using dense timed_now(2) by (simp add: dense_inv_def due_def last_occurs_def)
  next
    case False
    then have "now \<le> due n c0 s + 2 * g" using timed_now(4) times_now [OF inv] by linarith
    then have "\<exists>u. overdue_pass (due n c0 s) g (((es_at s)(t := Timed now)) u)" if "due n c0 s + g < now"
      using that by (intro exI [of _ t]) simp
    then show ?thesis using dense timed_now(2) False by (simp add: dense_inv_def due_def last_occurs_def less_max_iff_disj)
  qed
next
  case (timed_access s s' r)
  then show ?thesis using dense_access [of n g c0 s r s'] assms(2-6) by simp
qed

interpretation busy_sites: inductive_invariant
    "\<lambda>(s, r). 0 \<le> seconds n \<and> 0 \<le> g \<and> seconds n \<le> c0 \<and> es_begin s \<and> coarse s = c0 \<and> r = c0" "es_timed n g"
    "\<lambda>x. 0 \<le> seconds n \<and> 0 \<le> g \<and> es_inv n (fst x) \<and> lines_inv (fst x) \<and> times_inv n g c0 x \<and> dense_inv n g c0 x"
  for n g c0 :: int
proof unfold_locales
  fix x :: "es_sys \<times> int"
  assume "case x of (s, r) \<Rightarrow> 0 \<le> seconds n \<and> 0 \<le> g \<and> seconds n \<le> c0 \<and> es_begin s \<and> coarse s = c0 \<and> r = c0"
  then show "0 \<le> seconds n \<and> 0 \<le> g \<and> es_inv n (fst x) \<and> lines_inv (fst x) \<and> times_inv n g c0 x \<and> dense_inv n g c0 x"
    by (cases x) (auto simp: es_begin_def es_inv_def lines_inv_def times_inv_def dense_inv_def due_def last_occurs_def)
next
  fix x y
  assume st: "es_timed n g x y"
    and "0 \<le> seconds n \<and> 0 \<le> g \<and> es_inv n (fst x) \<and> lines_inv (fst x) \<and> times_inv n g c0 x \<and> dense_inv n g c0 x"
  then show "0 \<le> seconds n \<and> 0 \<le> g \<and> es_inv n (fst y) \<and> lines_inv (fst y) \<and> times_inv n g c0 y \<and> dense_inv n g c0 y"
    using es_step_inv [OF _ es_timed_step [OF st]] lines_inv_step [OF es_timed_step [OF st]]
      times_inv_step [OF st] dense_inv_step [OF st] by (auto simp: seconds_def)
qed

text \<open>
  When no thread is in the site any more, the lines are as many as the stamps, which are neither
  too far apart nor too close.
\<close>

lemma busy_lines:
  assumes "es_begin s0" and "seconds n \<le> coarse s0" and "0 < n" and "0 \<le> g"
    and "(es_timed n g)\<^sup>*\<^sup>* (s0, coarse s0) (s, r)" and "\<forall>t. es_at s t = Es_idle"
  shows "coarse s \<le> coarse s0 + int (length (es_lines s)) * (seconds n + 4 * g) + 4 * g" and "coarse s0 \<le> coarse s"
    and "int (length (es_lines s)) \<le> 1 + (coarse s - coarse s0 + g) div seconds n"
proof -
  have n: "0 < seconds n" using assms(3) by (simp add: seconds_def)
  have inv: "es_inv n s" "lines_inv s" "times_inv n g (coarse s0) (s, r)" "dense_inv n g (coarse s0) (s, r)"
    using busy_sites.holds_from_start [of n g "coarse s0" "(s0, coarse s0)" "(s, r)"] assms n by simp_all
  show c: "coarse s0 \<le> coarse s" using times_now [OF inv(3)] by simp
  have same: "set (es_lines s) = set (stamps s)"
    using inv(1,2) assms(6) by (auto simp: es_inv_def lines_inv_def)
  have far: "apart (seconds n) (stamps s)" using inv(1) by (auto simp: es_inv_def dest: apart_append)
  then have "distinct (stamps s)" using n by (intro apart_distinct [of "seconds n"]) simp_all
  then have len: "length (es_lines s) = length (stamps s)"
    using same inv(1) by (metis distinct_card es_inv_def)
  have "due n (coarse s0) s \<le> coarse s0 + int (length (stamps s)) * (seconds n + 4 * g)"
    using inv(4) by (simp add: dense_inv_def)
  with dense_bound [OF inv(3,4) assms(4)] len
  show "coarse s \<le> coarse s0 + int (length (es_lines s)) * (seconds n + 4 * g) + 4 * g" by simp
  have "filter (\<lambda>x. coarse s0 - g \<le> x \<and> x \<le> coarse s) (es_lines s) = es_lines s"
    using times_stamps [OF inv(3)] same by (simp add: filter_id_conv)
  then show "int (length (es_lines s)) \<le> 1 + (coarse s - coarse s0 + g) div seconds n"
    using apart_window [OF far _ _ n, of "es_lines s" "coarse s0 - g" "coarse s"] inv(1) same c assms(4)
    by (simp add: es_inv_def algebra_simps)
qed

section \<open>One thread in rounds\<close>

definition quiet :: "es_sys \<Rightarrow> bool" where
  "quiet s \<longleftrightarrow> \<not> es_lock s \<and> (\<forall>t. es_at s t = Es_idle)"

text \<open>The clock moves on by \<open>g\<close> and a thread goes through the macro, with or without a line.\<close>

lemma timed_round:
  assumes q: "quiet s" and g: "0 \<le> g"
  shows "\<exists>s'. (es_timed n g)\<^sup>*\<^sup>* (s, coarse s) (s', coarse s') \<and> quiet s' \<and> coarse s' = coarse s + g"
proof -
  let ?now = "coarse s + g"
  let ?r = "max (coarse s) ?now"
  let ?s1 = "s\<lparr>coarse := ?now\<rparr>"
  let ?at = "\<lambda>p. ?s1\<lparr>es_at := (es_at s)(0 := p)\<rparr>"
  have idle: "es_at s t = Es_idle" for t using q by (simp add: quiet_def)
  have r: "?r = ?now" using g by simp
  have "es_timed n g (s, coarse s) (?s1, coarse s)" by (rule timed_tick) (simp_all add: idle g)
  moreover have "es_timed n g (?s1, coarse s) (?at (Timed ?now), ?r)"
    using timed_now [of ?s1 0 ?now g n "coarse s"] by (simp add: idle g)
  ultimately have first: "(es_timed n g)\<^sup>*\<^sup>* (s, coarse s) (?at (Timed ?now), ?now)"
    unfolding r by (meson converse_rtranclp_into_rtranclp rtranclp.rtrancl_refl)
  have last: "last_occurs s \<in> set (stamps s @ [0])" by (cases "stamps s") (simp_all add: last_occurs_def)
  show ?thesis
  proof (cases "last_occurs s + seconds n < ?now")
    case True
    let ?s2 = "?at (Entered ?now)"
    let ?s3 = "?s2\<lparr>es_lock := True, es_at := (es_at s)(0 := Locked ?now)\<rparr>"
    let ?s4 = "?s3\<lparr>stamps := ?now # stamps s, es_at := (es_at s)(0 := Decided True ?now)\<rparr>"
    let ?s5 = "?s4\<lparr>es_lock := False, es_at := (es_at s)(0 := Es_writing ?now)\<rparr>"
    let ?s6 = "?s5\<lparr>es_lines := es_lines s @ [?now], es_at := (es_at s)(0 := Es_idle)\<rparr>"
    have "es_step n (?at (Timed ?now)) ?s2"
      using es_load [of "?at (Timed ?now)" 0 ?now "last_occurs s" n] True last by simp
    moreover have "es_step n ?s2 ?s3"
      using es_trylock [of ?s2 0 ?now n] q by (simp add: quiet_def)
    moreover have "es_step n ?s3 ?s4"
      using es_decide [of ?s3 0 ?now True n] True by (simp add: last_occurs_def)
    moreover have "es_step n ?s4 ?s5" using es_unlock [of ?s4 0 True ?now n] by simp
    moreover have "es_step n ?s5 ?s6" using es_write [of ?s5 0 ?now n] by simp
    ultimately have steps: "es_timed n g (?at (Timed ?now), ?now) (?s2, ?now)" "es_timed n g (?s2, ?now) (?s3, ?now)"
      "es_timed n g (?s3, ?now) (?s4, ?now)" "es_timed n g (?s4, ?now) (?s5, ?now)" "es_timed n g (?s5, ?now) (?s6, ?now)"
      by (intro timed_access; simp)+
    have "(es_timed n g)\<^sup>*\<^sup>* (?at (Timed ?now), ?now) (?s6, ?now)"
      using steps by (meson converse_rtranclp_into_rtranclp rtranclp.rtrancl_refl)
    with first have "(es_timed n g)\<^sup>*\<^sup>* (s, coarse s) (?s6, ?now)" by (rule rtranclp_trans)
    then show ?thesis by (intro exI [of _ ?s6]) (simp add: quiet_def idle)
  next
    case False
    let ?s2 = "?at Es_idle"
    have "es_step n (?at (Timed ?now)) ?s2"
      using es_load [of "?at (Timed ?now)" 0 ?now "last_occurs s" n] False last by simp
    then have "es_timed n g (?at (Timed ?now), ?now) (?s2, ?now)" by (intro timed_access) simp_all
    with first have "(es_timed n g)\<^sup>*\<^sup>* (s, coarse s) (?s2, ?now)" by (rule rtranclp.rtrancl_into_rtrancl)
    then show ?thesis using q by (intro exI [of _ ?s2]) (simp add: quiet_def)
  qed
qed

lemma timed_rounds:
  assumes "quiet s" and "0 \<le> g"
  shows "\<exists>s'. (es_timed n g)\<^sup>*\<^sup>* (s, coarse s) (s', coarse s') \<and> quiet s' \<and> coarse s' = coarse s + int k * g"
proof (induction k)
  case 0
  show ?case using assms(1) by (intro exI [of _ s]) simp
next
  case (Suc k)
  then obtain s1 where s1: "(es_timed n g)\<^sup>*\<^sup>* (s, coarse s) (s1, coarse s1)" "quiet s1" "coarse s1 = coarse s + int k * g"
    by blast
  obtain s2 where s2: "(es_timed n g)\<^sup>*\<^sup>* (s1, coarse s1) (s2, coarse s2)" "quiet s2" "coarse s2 = coarse s1 + g"
    using timed_round [OF s1(2) assms(2)] by blast
  have "coarse s2 = coarse s + int (Suc k) * g" using s1(3) s2(3) by (simp add: distrib_right)
  then show ?case using rtranclp_trans [OF s1(1) s2(1)] s2(2) by blast
qed

end
