(* ===== verification/Logging_Tests.thy ===== *)
theory Logging_Tests
  imports Log_Timed
begin

text \<open>
  The two tests of \<^verbatim>\<open>logging_test.cc\<close>: the lines that reach their sink, and when their assertions hold.
  glog and googletest are not in the repository: a registered sink is sent the text of every line
  that is written, and an assertion is its condition.
\<close>

section \<open>The sink\<close>

record AwesomeLogSink =
  msgs :: "string list"
  count :: int

definition send :: "severity \<times> string \<Rightarrow> AwesomeLogSink \<Rightarrow> AwesomeLogSink" where
  "send l sink = sink\<lparr>msgs := msgs sink @ [snd l], count := count sink + 1\<rparr>"

text \<open>What the sink has when it was added at \<open>w\<close> and is looked at in \<open>w'\<close>.\<close>

definition sink_between :: "'u log_world \<Rightarrow> 'u log_world \<Rightarrow> AwesomeLogSink" where
  "sink_between w w' = fold send (drop (length (written w)) (written w')) \<lparr>msgs = [], count = 0\<rparr>"

lemma fold_send: "fold send ls sink = sink\<lparr>msgs := msgs sink @ map snd ls, count := count sink + int (length ls)\<rparr>"
  by (induction ls arbitrary: sink) (simp_all add: send_def)

lemma sink_between_add:
  assumes "written w' = written w @ ls"
  shows "msgs (sink_between w w') = map snd ls" and "count (sink_between w w') = int (length ls)"
  by (simp_all add: sink_between_def fold_send assms)

section \<open>The test of the prefixes\<close>

definition something :: "nat \<Rightarrow> test_globals config \<Rightarrow> (string \<Rightarrow> string + string) \<Rightarrow> test_globals stmt list" where
  "something line cfg fmt =
     AGRPC_LOG cfg INFO ''logging_test.cc'' line (Some (\<lambda>u. (fmt ''something'', u)))"

definition test_Prefix ::
  "test_globals config \<Rightarrow> (string \<Rightarrow> string + string) \<Rightarrow> test_globals stmt list" where
  "test_Prefix cfg fmt =
     something 48 cfg fmt @
     [\<lambda>w. Continues (w\<lparr>env := (env w)\<lparr>my_prefix := ''[prefix]''\<rparr>\<rparr>)] @ something 51 cfg fmt @
     [\<lambda>w. Continues (w\<lparr>env := (env w)\<lparr>my_prefix := ''[prefix1]''\<rparr>\<rparr>)] @ something 54 cfg fmt @
     [\<lambda>w. Continues (w\<lparr>env := (env w)\<lparr>my_prefix2 := ''[prefix2]''\<rparr>\<rparr>)] @ something 57 cfg fmt"

definition test_Prefix_expects :: "AwesomeLogSink \<Rightarrow> bool" where
  "test_Prefix_expects sink \<longleftrightarrow> msgs sink =
     [''something'', ''[prefix] something'', ''[prefix1] something'', ''[prefix1] [prefix2] something'']"

lemma something_line:
  assumes "providers cfg = register_providers test_regs" and "fmt ''something'' = Inr ''something''"
  shows "seq_all (something line cfg fmt) w = Continues
    (w\<lparr>written := written w @ [(INFO, spaced (my_prefix (env w)) @ spaced (my_prefix2 (env w)) @ ''something'')]\<rparr>)"
proof -
  have "list_all2 appending (map snd (sort_key fst test_regs)) [my_prefix, my_prefix2]"
    by (simp add: test_regs_def prefix1.appending_axioms prefix2.appending_axioms)
  then have "FormatLog (providers cfg) u f l (Inr ''something'') =
      Text (spaced (my_prefix u) @ spaced (my_prefix2 u) @ ''something'')" for u f l
    by (simp add: assms(1) register_providers_eq FormatLog_appending)
  then show ?thesis
    by (simp add: something_def AGRPC_LOG_def log_line_def assms(2) emit_def no_text_def less_eq_severity_def)
qed

text \<open>
  The prefix test passes: with the two providers of the test registered by their macros and the
  prefixes empty at the start, the sink is sent exactly the four messages of the assertion.
\<close>
theorem prefix_test_passes:
  assumes "providers cfg = register_providers test_regs" and "fmt ''something'' = Inr ''something''"
    and "env w = \<lparr>my_prefix = [], my_prefix2 = []\<rparr>"
  shows "\<exists>w'. seq_all (test_Prefix cfg fmt) w = Continues w' \<and> test_Prefix_expects (sink_between w w')"
  by (simp add: test_Prefix_def seq_append seq_all.simps(2) something_line [of cfg fmt, OF assms(1,2)] assms(3) spaced_def sink_between_def
      fold_send test_Prefix_expects_def)

theorem prefix_test_passes_witness:
  "\<exists>w'. seq_all (test_Prefix \<lparr>providers = register_providers test_regs, ndebug = True,
       vlog_is_on = (\<lambda>n. False), errno_text = no_text\<rparr> Inr)
     \<lparr>env = \<lparr>my_prefix = [], my_prefix2 = []\<rparr>, written = [(INFO, ''earlier'')]\<rparr> = Continues w' \<and>
     hd (msgs (sink_between \<lparr>env = \<lparr>my_prefix = [], my_prefix2 = []\<rparr>, written = [(INFO, ''earlier'')]\<rparr> w')) =
       ''something''"
proof -
  let ?w = "\<lparr>env = \<lparr>my_prefix = [], my_prefix2 = []\<rparr>, written = [(INFO, ''earlier'')]\<rparr>"
  let ?cfg = "\<lparr>providers = register_providers test_regs, ndebug = True, vlog_is_on = (\<lambda>n. False),
    errno_text = no_text\<rparr>"
  have "providers ?cfg = register_providers test_regs" and "env ?w = \<lparr>my_prefix = [], my_prefix2 = []\<rparr>" by simp_all
  from prefix_test_passes [of ?cfg Inr ?w, OF this(1) refl this(2)] show ?thesis
    by (auto simp: test_Prefix_expects_def)
qed

section \<open>The test of the throttle\<close>

text \<open>
  What is written when the site has decided \<open>k\<close> times to write: the statement of its cold path. The
  decisions are those of the threads, step by step, in \<open>Log_Timed\<close>.
\<close>

definition warnings :: "'u config \<Rightarrow> (string \<Rightarrow> string + string) \<Rightarrow> nat \<Rightarrow> 'u stmt list" where
  "warnings cfg fmt k =
     concat (replicate k (AGRPC_LOG cfg WARNING ''logging_test.cc'' 79 (Some (\<lambda>u. (fmt ''Some warning.'', u)))))"

definition test_LogEverySecond :: "AwesomeLogSink \<Rightarrow> bool" where
  "test_LogEverySecond sink \<longleftrightarrow> \<bar>11 - count sink\<bar> \<le> 1"

lemma warnings_lines:
  assumes "WritePrefixTo (providers cfg) u [] = Some p" and "fmt ''Some warning.'' = Inr line"
  shows "env w = u \<Longrightarrow> \<exists>w'. seq_all (warnings cfg fmt k) w = Continues w' \<and>
    written w' = written w @ replicate k (WARNING, p @ line)"
proof (induction k arbitrary: w)
  case 0
  then show ?case by (simp add: warnings_def)
next
  case (Suc k)
  let ?w = "w\<lparr>written := written w @ [(WARNING, p @ line)]\<rparr>"
  have "seq_all (AGRPC_LOG cfg WARNING ''logging_test.cc'' 79 (Some (\<lambda>u. (fmt ''Some warning.'', u)))) w = Continues ?w"
    using assms Suc.prems
    by (simp add: AGRPC_LOG_def log_line_def FormatLog_def emit_def no_text_def less_eq_severity_def)
  then show ?case
    using Suc.IH [of ?w] Suc.prems by (simp add: warnings_def seq_append)
qed

text \<open>
  The upper half of the assertion for every interleaving of the threads' atomic accesses: if the
  times of all lines are in a window of less than twelve seconds, there are at most twelve lines.
\<close>
theorem every_second_test_upper:
  assumes "es_begin s0" and "(es_step 1)\<^sup>*\<^sup>* s0 s" and "\<forall>x \<in> set (es_lines s). a \<le> x \<and> x \<le> b"
    and "a \<le> b" and "b < a + seconds 12"
  shows "length (es_lines s) \<le> 12"
proof -
  have inv: "es_inv 1 s" using every_second.holds_from_start [of 1, OF _ assms(2)] assms(1) by simp
  then have "apart (seconds 1) (stamps s)" by (auto simp: es_inv_def dest: apart_append)
  from apart_window [OF this, of "es_lines s" a b] inv assms(4)
  have "int (length (filter (\<lambda>x. a \<le> x \<and> x \<le> b) (es_lines s))) \<le> 1 + (b - a) div seconds 1"
    by (simp add: es_inv_def seconds_def)
  moreover have "filter (\<lambda>x. a \<le> x \<and> x \<le> b) (es_lines s) = es_lines s" using assms(3) by simp
  moreover have "(b - a) div seconds 1 < 12" using assms(5) by (simp add: seconds_def div_less_iff_less_mult)
  ultimately show ?thesis by simp
qed

text \<open>
  C37. The throttle test passes when the threads keep the site busy and none of them is held up in it:
  let at every time some thread have begun a pass no more than \<open>g\<close> ago, let every pass be out of the
  lock (or out of the macro) no more than \<open>g\<close> after the time it has read, and let no reading of the clock
  be older than \<open>g\<close>, for some \<open>g\<close> below 1/41 s.
  Then, for every interleaving of the atomic accesses of any number of threads, also those in which a
  thread finds the lock taken and writes nothing, a run that starts when the clock shows a second or
  more and ends with all threads out of the site, ten seconds later (less \<open>g\<close> at most) and before twelve seconds
  (less \<open>g\<close>), has written 11 lines, give or take one. No prefix provider throws, and the line
  can be formatted.
\<close>
theorem every_second_test_passes:
  assumes "WritePrefixTo (providers cfg) (env w) [] = Some p" and "fmt ''Some warning.'' = Inr line"
    and "es_begin s0" and "seconds 1 \<le> coarse s0" and "0 \<le> g" and "41 * g < seconds 1"
    and "(es_timed 1 g)\<^sup>*\<^sup>* (s0, coarse s0) (s, r)" and "\<forall>t. es_at s t = Es_idle"
    and "coarse s0 + seconds 10 \<le> coarse s + g" and "coarse s + g < coarse s0 + seconds 12"
  shows "\<exists>w'. seq_all (warnings cfg fmt (length (es_lines s))) w = Continues w' \<and>
    test_LogEverySecond (sink_between w w')"
proof -
  let ?k = "length (es_lines s)"
  note busy = busy_lines [OF assms(3,4) _ assms(5,7,8), simplified]
  have "(coarse s - coarse s0 + g) div seconds 1 < 12"
    using assms(10) by (simp add: seconds_def div_less_iff_less_mult)
  then have "?k \<le> 12" using busy(3) by simp
  moreover have "10 \<le> ?k"
  proof (rule ccontr)
    assume "\<not> 10 \<le> ?k"
    then have "int ?k * (seconds 1 + 4 * g) \<le> 9 * (seconds 1 + 4 * g)"
      using assms(5) by (intro mult_right_mono) (simp_all add: seconds_def)
    then have "seconds 10 \<le> 9 * seconds 1 + 41 * g" using busy(1) assms(9) by (simp add: algebra_simps)
    then show False using assms(6) by (simp add: seconds_def)
  qed
  moreover obtain w' where "seq_all (warnings cfg fmt ?k) w = Continues w'"
    "written w' = written w @ replicate ?k (WARNING, p @ line)"
    using warnings_lines [where fmt = fmt, OF assms(1,2) refl] by blast
  ultimately show ?thesis
    using sink_between_add(2) [of w' w] by (intro exI [of _ w']) (simp add: test_LogEverySecond_def)
qed

text \<open>One thread that passes every 20 ms.\<close>

theorem every_second_test_passes_witness:
  "\<exists>s r w'. (es_timed 1 20000000)\<^sup>*\<^sup>* (es_start\<lparr>coarse := 1000000000\<rparr>, 1000000000) (s, r) \<and> coarse s = 11000000000 \<and>
     seq_all (warnings \<lparr>providers = [], ndebug = True, vlog_is_on = (\<lambda>n. False), errno_text = no_text\<rparr> Inr
       (length (es_lines s))) \<lparr>env = (), written = []\<rparr> = Continues w' \<and>
     test_LogEverySecond (sink_between \<lparr>env = (), written = []\<rparr> w')"
proof -
  let ?s0 = "es_start\<lparr>coarse := 1000000000\<rparr>"
  have "quiet ?s0" by (simp add: quiet_def es_start_def)
  from timed_rounds [OF this, of 20000000 1 500]
  obtain s where run: "(es_timed 1 20000000)\<^sup>*\<^sup>* (?s0, coarse ?s0) (s, coarse s)"
    and s: "quiet s" "coarse s = 11000000000" by auto
  have "es_begin ?s0" by (simp add: es_begin_def es_start_def)
  note every_second_test_passes [OF _ _ this _ _ _ run]
  from this [where cfg = "\<lparr>providers = [], ndebug = True, vlog_is_on = (\<lambda>n. False), errno_text = no_text\<rparr>"
      and w = "\<lparr>env = (), written = []\<rparr>" and fmt = Inr and p = "[]" and line = "''Some warning.''"]
  obtain w' where "seq_all (warnings \<lparr>providers = [], ndebug = True, vlog_is_on = (\<lambda>n. False), errno_text = no_text\<rparr> Inr
       (length (es_lines s))) \<lparr>env = (), written = []\<rparr> = Continues w'"
    "test_LogEverySecond (sink_between \<lparr>env = (), written = []\<rparr> w')"
    using s by (auto simp: seconds_def quiet_def)
  then show ?thesis using run s(2) by (intro exI [of _ s] exI [of _ "coarse s"] exI [of _ w']) simp
qed

end
