(* ===== verification/Spec2Isabelle.thy ===== *)
theory Spec2Isabelle
  imports Loop_Stall Log_Concurrent Log_Debug Base_Macros Base_Tests Rpc_Types Sender_Contract Run_Endings
    Stream_Runs Coroutine_System Context_Nesting Loop_Log Queue_Access Hello_Exchange Logging_Tests
begin

text \<open>
  A verification development for agrpc, a small C++ library that runs asynchronous gRPC calls as
  senders (libunifex) on a \<^verbatim>\<open>GrpcContext\<close>, with the logging and clock utilities it brings along.

  THE PROGRAM. A \<^verbatim>\<open>GrpcContext\<close> (\<^verbatim>\<open>agrpc/context/grpc_context.h\<close>, \<^verbatim>\<open>grpc_context.cc\<close>) owns a gRPC
  completion queue. One thread calls \<^verbatim>\<open>Run\<close>; it executes the operations of a local queue, takes
  over what other threads have enqueued on a remote queue, and blocks in \<^verbatim>\<open>Next\<close> for the next
  event: the completion of a call, whose operation is then queued locally, or an alarm that
  another thread has set to wake the loop. Calls are made through customisation points
  (\<^verbatim>\<open>agrpc/context/rpcs.h\<close>) that dispatch to \<^verbatim>\<open>tag_invoke\<close> overloads; each builds a sender whose
  operation starts a call when it runs on the loop's thread. \<^verbatim>\<open>agrpc/base/logging.h\<close> and
  \<^verbatim>\<open>logging.cc\<close> have checks and log macros with prefixes and throttles, \<^verbatim>\<open>agrpc/base/chrono.h\<close>
  and \<^verbatim>\<open>chrono.cc\<close> a clock that is cheap to read, which the throttle by seconds uses.

  THE THEORIES.
  \<^item> \<^verbatim>\<open>Agrpc_Prelude\<close>: faults and results; the locales \<^verbatim>\<open>transition_system\<close> and
    \<^verbatim>\<open>inductive_invariant\<close>, which every concurrent component interprets on its own step relation;
    multisets without repetition and the tags of a completion queue.
  \<^item> \<^verbatim>\<open>Rpcs\<close>: \<^verbatim>\<open>rpcs.h\<close> and the overloads of \<^verbatim>\<open>grpc_context.h\<close>. A call site is a point and the
    types of its arguments; \<^verbatim>\<open>sig_...\<close> are parameter lists, \<^verbatim>\<open>invoke_...\<close> the overloads with the
    closures of their lambdas, \<^verbatim>\<open>Async...CPO\<close> the operators with the call that their return type
    names, \<^verbatim>\<open>cpo_call\<close> and \<^verbatim>\<open>tag_invoke\<close> overload resolution, \<^verbatim>\<open>run_sender\<close> the call that is made.
  \<^item> \<^verbatim>\<open>Rpc_Types\<close>: the member function pointers of \<^verbatim>\<open>rpcs.h\<close> with their parameter lists; the call in the
    lambda of \<^verbatim>\<open>AsyncRequest\<close> type-checks, and no customisation point takes a client's request.
  \<^item> \<^verbatim>\<open>Externals\<close>: what is not in the repository, as the record \<^verbatim>\<open>ext\<close> of the operations of
    libunifex's queues, gRPC's completion queue with its alarm, and the client's receivers;
    \<^verbatim>\<open>ext_ok\<close> states the documented contracts of the queues. gRPC may refuse a call, which is the fault
    \<^verbatim>\<open>QueueMisuse\<close> of the operation that makes it. Nothing is assumed of receivers.
  \<^item> \<^verbatim>\<open>Grpc_Context\<close>: the state (\<^verbatim>\<open>world\<close>: the members, the operations' storage, the thread-locals,
    the registered stop callback) and one definition per member function.
  \<^item> \<^verbatim>\<open>Ownership\<close>, \<^verbatim>\<open>Context_Invariant\<close>: who may hold an operation, and what executing one item
    keeps.
  \<^item> \<^verbatim>\<open>Run_Loop\<close>: \<^verbatim>\<open>ExecutePendingLocal\<close>, \<^verbatim>\<open>RunImpl\<close> and \<^verbatim>\<open>Run\<close> as sequential code; a call that
    blocks for ever is \<^verbatim>\<open>None\<close> (\<^verbatim>\<open>partial_function\<close>), so no fuel is needed.
  \<^item> \<^verbatim>\<open>Loop_System\<close>, \<^verbatim>\<open>Loop_Invariant\<close>: the loop among threads, one step per access to shared state;
    the invariant \<^verbatim>\<open>loop_inv\<close> and its interpretation.
  \<^item> \<^verbatim>\<open>Loop_Schedule\<close>, \<^verbatim>\<open>Reference_Libs\<close>: the steps as a function of who moves, and an instance of
    the libraries (\<^verbatim>\<open>ref_ext\<close>, proved to keep the contracts) on which concrete executions run.
  \<^item> \<^verbatim>\<open>Context_Properties\<close>: operations are held once; completions are delivered once, in order, with
    their own flags; one thread runs the context; the polling contract; the wake-up protocol.
  \<^item> \<^verbatim>\<open>Loop_Execution\<close>: a batch returns and is what was queued; which faults an item can end in; a
    call of \<^verbatim>\<open>Run\<close> is a path of the system; what \<^verbatim>\<open>Run\<close> leaves behind.
  \<^item> \<^verbatim>\<open>Loop_Stall\<close>: where the loop falls short, with executions that show it: it blocks with ready
    work after taking remote items, may so lose a stop request for good, leaves work behind on a
    drained queue, sets the alarm of a queue that was shut down, and polls an inactive queue
    when it starts before the first item.
  \<^item> \<^verbatim>\<open>Sender_Contract\<close>: what \<^verbatim>\<open>AsyncRPCSender\<close> declares about its signals, against what is sent: values,
    errors of either type and done are all observable, and of them only two are ever sent.
  \<^item> \<^verbatim>\<open>Run_Endings\<close>: after which ends of \<^verbatim>\<open>Run\<close> the context may be destroyed, and a stop request after
    which it does not end.
  \<^item> \<^verbatim>\<open>Loop_Log\<close>: the loop with its debug log lines, as it writes them through the macros of
    \<^verbatim>\<open>Log_Macros\<close>, and what the lines of a run look like; with providers that only append, the loop
    does what it does without its log.
  \<^item> \<^verbatim>\<open>Context_Pair\<close>: two contexts in one process, which share the thread-locals; each of them is always in
    a state that it can reach alone.
  \<^item> \<^verbatim>\<open>Context_Nesting\<close>: a context that a continuation of another one runs as the last thing it does; while
    the inner loop runs the outer context runs on no thread, and its state is one that it can reach
    alone but for the thread-local entry of its thread, which the inner loop puts back.
  \<^item> \<^verbatim>\<open>Log_Format\<close>: prefix providers and the text of a line; the providers' contract is the locale
    \<^verbatim>\<open>appending\<close>, interpreted on the two providers of \<^verbatim>\<open>logging_test.cc\<close>.
  \<^item> \<^verbatim>\<open>Log_Macros\<close>: the checks and log statements, as lists of statements over expressions with
    effects.
  \<^item> \<^verbatim>\<open>Log_Throttle\<close>, \<^verbatim>\<open>Log_Concurrent\<close>: \<^verbatim>\<open>..._ONCE\<close>, \<^verbatim>\<open>..._EVERY_N\<close> and \<^verbatim>\<open>..._EVERY_SECOND\<close>, on one
    thread (the locale \<^verbatim>\<open>log_site\<close>, with the conditional forms proved once) and among threads.
  \<^item> \<^verbatim>\<open>Log_Timed\<close>: how long \<^verbatim>\<open>..._EVERY_SECOND\<close> can be silent among busy threads, in terms of a bound on
    how long a pass takes and on how far apart passes begin.
  \<^item> \<^verbatim>\<open>Log_Debug\<close>: the six comparing checks, the debug macros with and without \<^verbatim>\<open>NDEBUG\<close>, and which
    macros an unbraced \<^verbatim>\<open>if\<close> with an \<^verbatim>\<open>else\<close> admits.
  \<^item> \<^verbatim>\<open>Coarse_Clock\<close>: the worker that refreshes the clock, with its lag in terms of a bound on
    scheduling delays; the width of \<^verbatim>\<open>ReadClock\<close>.
  \<^item> \<^verbatim>\<open>Base_Macros\<close>: \<^verbatim>\<open>internal/macros.h\<close> as a preprocessor on tokens, with the identifiers it makes
    up; \<^verbatim>\<open>align.h\<close> and the layout of the clock's time stamps; the values of \<^verbatim>\<open>likely.h\<close>.
  \<^item> \<^verbatim>\<open>Base_Tests\<close>: when the wall-clock tests of \<^verbatim>\<open>chrono_test.cc\<close> pass, and the benchmarks of the checks
    beside those of glog, whose contract is the locale \<^verbatim>\<open>check_statement\<close>.
  \<^item> \<^verbatim>\<open>Logging_Tests\<close>: the two tests of \<^verbatim>\<open>logging_test.cc\<close>: the lines their sink is sent, and when they pass.
  \<^item> \<^verbatim>\<open>Examples\<close>: the coroutines of \<^verbatim>\<open>example/helloworld\<close> and \<^verbatim>\<open>example/hellostreamingworld\<close> as what
    they do when an awaited call completes, and the synchronous client with its command line.
  \<^item> \<^verbatim>\<open>Example_Runs\<close>: the hello world server and client as whole programs, from the construction of
    their context to the return of \<^verbatim>\<open>Run\<close>: the client returns or its check fails, as gRPC reports its call,
    the server never returns, and any coroutine receives one completion per turn of the loop and waits where its protocol says. This
    is where customisation points, operations, queues and loop are put together.
  \<^item> \<^verbatim>\<open>Stream_Runs\<close>: the streaming server as a whole program, which ends undefined.
  \<^item> \<^verbatim>\<open>Coroutine_System\<close>: several coroutines on one context among threads. The locale
    \<^verbatim>\<open>coroutine_program\<close> asks that a coroutine's next call is in its own frame and is the one written at
    its next place; then, under every schedule of \<^verbatim>\<open>Loop_Schedule\<close>, each coroutine waits where its own
    protocol says, with that call and no other under way. It is interpreted
    on the hello world server and client side by side.
  \<^item> \<^verbatim>\<open>Hello_Exchange\<close>: the hello world server with any number of clients, and the messages they exchange:
    every client gets its own greeting, and none waits for good while the server serves.
  \<^item> \<^verbatim>\<open>Queue_Access\<close>: \<^verbatim>\<open>get_completion_queue\<close> and \<^verbatim>\<open>get_server_completion_queue\<close>, with the unchecked cast of
    the latter: which calls need a server's queue, and that the examples have it.

  MODELLING CHOICES. Pointers are natural numbers into a store; constructing over live storage and
  using dead storage are the fault \<^verbatim>\<open>BadObject\<close>. Completion flags and receivers' signals are
  recorded in a history that no operation reads. A continuation is a list of actions on the
  context (start another call, request a stop, shut down), so re-entrancy is modelled; that it may
  also run another context is the subject of \<^verbatim>\<open>Context_Nesting\<close>. Executions
  start right after the first remote start, which is how the clients of the repository begin; a
  loop that starts earlier is the last theorem of \<^verbatim>\<open>Loop_Stall\<close>. After a drained queue made \<^verbatim>\<open>Run\<close>
  return, the context is not run again. Relaxed atomic loads may return old values where the code
  uses them outside a lock. Times are unbounded integers of nanoseconds, except in \<^verbatim>\<open>ReadClock\<close>.

  The example programs assume that libunifex's \<^verbatim>\<open>task\<close> resumes a coroutine inside \<^verbatim>\<open>set_value\<close>, on
  the loop's thread, and that gRPC accepts the calls of an operation, one at a time, until the queue is
  shut down (\<^verbatim>\<open>accepts_calls\<close>); a continuation can end the process (\<^verbatim>\<open>Abort\<close>, the fault \<^verbatim>\<open>Process_ended\<close>),
  as a failing check in it does, or flow off the end of a coroutine that must not (\<^verbatim>\<open>Run_undefined\<close>,
  the fault \<^verbatim>\<open>Undefined_behaviour\<close>).

  Bounds. The step relation \<^verbatim>\<open>loop_step\<close> lets the loop's own thread use its context from outside while a
  batch is executed. That is what an inner context's continuations do there; without an inner context
  the code does not, so the relation has more executions than the program, and what is proved of all
  of them holds of the program's. The executions that show a defect are made with the moves of
  \<^verbatim>\<open>Loop_Schedule\<close>, which test \<^verbatim>\<open>IsRunningOnThisThread\<close> as the code does. The invariants are stated until \<^verbatim>\<open>Run\<close>
  has returned on a drained queue: after that the released stop operation may still be queued
  (\<^verbatim>\<open>Loop_Stall\<close>).

  The exchange of messages in \<^verbatim>\<open>Hello_Exchange\<close> and the contract of a check of glog rest on what gRPC and
  glog document; the theories say what that is. The passes of the throttle's test
  are interleaved access by access; the test passes when the scheduler keeps the bounds of
  \<^verbatim>\<open>Log_Timed\<close>, and its upper half in any case.

  NOT MODELLED. glog's flags and its own \<^verbatim>\<open>DLOG_EVERY_N\<close> (a parameter), \<^verbatim>\<open>fmt\<close>'s formatting (a
  parameter), the generated stubs (parameters), the MSVC and Clang 10 variants of macros, which
  differ in attributes and optimiser hints only, \<^verbatim>\<open>max_align_v\<close>, the set-up of servers, channels and
  command-line flags in the examples (calls of gRPC and gflags in a row), the protocol files and
  the build, which hold no code that runs. Running a context twice after its queue was drained is
  left out: gRPC does not say what a queue does after it has reported that.
\<close>

end
